(* ===== verification/Prelude.thy ===== *)
theory Prelude
  imports Main "HOL-Library.Word" "HOL-Library.State_Monad"
begin

section \<open>Prelude: errors, actions, weakest preconditions, frames\<close>

text \<open>
  What every component theory shares. Go's strings are byte sequences (\<open>string\<close>), its
  byte slices lists of \<open>8 word\<close>; a Go error is a value of \<open>goerr\<close>, a Go function
  returning \<open>(T, error)\<close> has result type \<open>goerr + T\<close>, and a function with effects is a
  state action of \<open>HOL-Library.State_Monad\<close>. \<open>attempt\<close> is the idiom
  \<^verbatim>\<open>if err != nil { return err }\<close> and \<open>attempt_as\<close> the same with the error wrapped by
  \<^verbatim>\<open>fmt.Errorf("...: %w", err)\<close>. The section on \<open>wp\<close> is a small weakest-precondition
  calculus for these actions, and \<open>keeps\<close> says that an action relates every start
  state to its end state, whatever its result; both come with named collections.
\<close>

type_synonym byte = "8 word"
type_synonym bytes = "byte list"

named_theorems wp_simps "weakest preconditions of the control structures"
named_theorems keeps_intros "rules for relations every run of an action respects"


subsection \<open>Strings and bytes\<close>

definition bytes_of :: "string \<Rightarrow> bytes" where
  "bytes_of s = map of_char s"

definition string_of :: "bytes \<Rightarrow> string" where
  "string_of b = map (\<lambda>x. char_of (unat x)) b"

lemma of_char_nat_less_256: "(of_char c :: nat) < 256"
proof -
  have "(of_char c :: nat) = of_char c mod 256" by simp
  also have "\<dots> < 256" by simp
  finally show ?thesis .
qed

lemma unat_of_char [simp]: "unat (of_char c :: byte) = of_char c"
proof -
  have "(of_char c :: byte) = of_nat (of_char c)"
    by (simp add: of_nat_of_char)
  then show ?thesis
    using of_char_nat_less_256 [of c] by (simp add: unat_of_nat)
qed

lemma string_of_bytes_of [simp]: "string_of (bytes_of s) = s"
  by (simp add: string_of_def bytes_of_def comp_def)

lemma bytes_of_string_of [simp]: "bytes_of (string_of b) = b"
proof -
  have "(of_char (char_of (unat x)) :: byte) = x" for x :: byte
  proof -
    have "(of_char (char_of (unat x)) :: byte) = of_nat (of_char (char_of (unat x)))"
      by (simp only: of_nat_of_char)
    also have "\<dots> = of_nat (unat x mod 256)"
      by simp
    also have "\<dots> = x"
    proof -
      have "unat x < 2 ^ LENGTH(8)" by (rule unsigned_less)
      then show ?thesis by simp
    qed
    finally show ?thesis .
  qed
  then show ?thesis by (simp add: string_of_def bytes_of_def comp_def)
qed

lemma length_bytes_of [simp]: "length (bytes_of s) = length s"
  by (simp add: bytes_of_def)

lemma bytes_of_append [simp]: "bytes_of (s @ t) = bytes_of s @ bytes_of t"
  by (simp add: bytes_of_def)

lemma bytes_of_inject [simp]: "bytes_of s = bytes_of t \<longleftrightarrow> s = t"
  by (metis string_of_bytes_of)


subsection \<open>Errors\<close>

text \<open>
  The system call errors the model distinguishes; \<open>EIO\<close> stands for every failure that comes
  from outside the program (disk full, permissions, a crash).
\<close>

datatype errno = ENOENT | EEXIST | ENOTDIR | EISDIR | ENOTEMPTY | EINVAL | ELOOP | EIO

text \<open>
  \<open>PathErr op path e\<close> is \<^verbatim>\<open>*fs.PathError\<close>; \<open>ErrNotExist\<close> the sentinel \<^verbatim>\<open>fs.ErrNotExist\<close>;
  \<open>NewErr\<close> an error made of a text alone; \<open>WrapErr s e\<close> is \<^verbatim>\<open>fmt.Errorf("s: %w", e)\<close>.
  \<open>Panicked\<close> is a run-time panic: the program has no \<^verbatim>\<open>recover\<close>, so a panic ends it. It travels
  as an error value that no handler may catch: where the code handles an error and goes on, the
  model asks \<open>is_panic\<close> first.
\<close>

datatype goerr = PathErr string string errno | ErrNotExist | NewErr string | WrapErr string goerr
  | Panicked string

fun errno_text :: "errno \<Rightarrow> string" where
  "errno_text ENOENT = ''no such file or directory''"
| "errno_text EEXIST = ''file exists''"
| "errno_text ENOTDIR = ''not a directory''"
| "errno_text EISDIR = ''is a directory''"
| "errno_text ENOTEMPTY = ''directory not empty''"
| "errno_text EINVAL = ''invalid argument''"
| "errno_text ELOOP = ''too many levels of symbolic links''"
| "errno_text EIO = ''input/output error''"

text \<open>\<^verbatim>\<open>err.Error()\<close>.\<close>

fun err_text :: "goerr \<Rightarrow> string" where
  "err_text (PathErr op p e) = op @ '' '' @ p @ '': '' @ errno_text e"
| "err_text ErrNotExist = ''file does not exist''"
| "err_text (NewErr s) = s"
| "err_text (WrapErr s e) = s @ '': '' @ err_text e"
| "err_text (Panicked s) = ''panic: '' @ s"

text \<open>\<^verbatim>\<open>errors.Is(err, fs.ErrNotExist)\<close>, which looks through the wrapping.\<close>

fun is_not_exist :: "goerr \<Rightarrow> bool" where
  "is_not_exist (PathErr _ _ e) = (e = ENOENT)"
| "is_not_exist ErrNotExist = True"
| "is_not_exist (NewErr _) = False"
| "is_not_exist (WrapErr _ e) = is_not_exist e"
| "is_not_exist (Panicked _) = False"

fun is_panic :: "goerr \<Rightarrow> bool" where
  "is_panic (WrapErr _ e) = is_panic e"
| "is_panic (Panicked _) = True"
| "is_panic _ = False"

type_synonym 'a res = "goerr + 'a"

definition is_ok :: "'a res \<Rightarrow> bool" where
  "is_ok r = (case r of Inl _ \<Rightarrow> False | Inr _ \<Rightarrow> True)"

lemma is_ok_simps [simp]: "is_ok (Inr x)" "\<not> is_ok (Inl e)"
  by (simp_all add: is_ok_def)


subsection \<open>Actions that may fail\<close>

definition attempt :: "('s, 'a res) state \<Rightarrow> ('a \<Rightarrow> ('s, 'b res) state) \<Rightarrow> ('s, 'b res) state" where
  "attempt m f = do {
     r \<leftarrow> m;
     case r of Inl e \<Rightarrow> State_Monad.return (Inl e) | Inr x \<Rightarrow> f x }"

definition attempt_as ::
  "string \<Rightarrow> ('s, 'a res) state \<Rightarrow> ('a \<Rightarrow> ('s, 'b res) state) \<Rightarrow> ('s, 'b res) state" where
  "attempt_as s m f = do {
     r \<leftarrow> m;
     case r of Inl e \<Rightarrow> State_Monad.return (Inl (WrapErr s e)) | Inr x \<Rightarrow> f x }"

definition fail :: "goerr \<Rightarrow> ('s, 'a res) state" where
  "fail e = State_Monad.return (Inl e)"

definition ok :: "'a \<Rightarrow> ('s, 'a res) state" where
  "ok x = State_Monad.return (Inr x)"

lemma run_state_attempt [simp]:
  "run_state (attempt m f) s =
     (case run_state m s of (r, s') \<Rightarrow> (case r of Inl e \<Rightarrow> (Inl e, s') | Inr x \<Rightarrow> run_state (f x) s'))"
  by (simp add: attempt_def split: prod.splits sum.splits)

lemma run_state_attempt_as [simp]:
  "run_state (attempt_as t m f) s =
     (case run_state m s of (r, s') \<Rightarrow>
        (case r of Inl e \<Rightarrow> (Inl (WrapErr t e), s') | Inr x \<Rightarrow> run_state (f x) s'))"
  by (simp add: attempt_as_def split: prod.splits sum.splits)

lemma run_state_fail [simp]: "run_state (fail e) s = (Inl e, s)"
  by (simp add: fail_def)

lemma run_state_ok [simp]: "run_state (ok x) s = (Inr x, s)"
  by (simp add: ok_def)


subsection \<open>Weakest preconditions\<close>

definition wp :: "('s, 'a) state \<Rightarrow> ('a \<Rightarrow> 's \<Rightarrow> bool) \<Rightarrow> 's \<Rightarrow> bool" where
  "wp m Q s = (case run_state m s of (r, s') \<Rightarrow> Q r s')"

lemma wpD: "wp m Q s \<Longrightarrow> run_state m s = (r, s') \<Longrightarrow> Q r s'"
  by (simp add: wp_def)

lemma wpI: "(\<And>r s'. run_state m s = (r, s') \<Longrightarrow> Q r s') \<Longrightarrow> wp m Q s"
  by (simp add: wp_def split: prod.splits)

lemma wp_True: "wp m (\<lambda>_ _. True) s"
  by (simp add: wp_def split: prod.split)

lemma wp_mono: "wp m P s \<Longrightarrow> (\<And>r s'. P r s' \<Longrightarrow> Q r s') \<Longrightarrow> wp m Q s"
  by (simp add: wp_def split: prod.splits)

lemma wp_conj: "wp m P s \<Longrightarrow> wp m Q s \<Longrightarrow> wp m (\<lambda>r s'. P r s' \<and> Q r s') s"
  by (simp add: wp_def split: prod.splits)

lemma wp_return [wp_simps]: "wp (State_Monad.return x) Q s = Q x s"
  by (simp add: wp_def)

lemma wp_bind [wp_simps]: "wp (State_Monad.bind m f) Q s = wp m (\<lambda>r. wp (f r) Q) s"
  by (simp add: wp_def split: prod.splits)

lemma wp_ok [wp_simps]: "wp (ok x) Q s = Q (Inr x) s"
  by (simp add: wp_def)

lemma wp_fail [wp_simps]: "wp (fail e) Q s = Q (Inl e) s"
  by (simp add: wp_def)

lemma wp_attempt [wp_simps]:
  "wp (attempt m f) Q s =
     wp m (\<lambda>r s'. case r of Inl e \<Rightarrow> Q (Inl e) s' | Inr x \<Rightarrow> wp (f x) Q s') s"
  by (simp add: wp_def split: prod.splits sum.splits)

lemma wp_attempt_as [wp_simps]:
  "wp (attempt_as t m f) Q s =
     wp m (\<lambda>r s'. case r of Inl e \<Rightarrow> Q (Inl (WrapErr t e)) s' | Inr x \<Rightarrow> wp (f x) Q s') s"
  by (simp add: wp_def split: prod.splits sum.splits)

lemma wp_if [wp_simps]: "wp (if b then m else n) Q s = (if b then wp m Q s else wp n Q s)"
  by simp

lemma wp_get [wp_simps]: "wp State_Monad.get Q s = Q s s"
  by (simp add: wp_def)

text \<open>The rules that run through a sequence: establish the first step's postcondition, go on.\<close>

lemma wp_attemptI:
  assumes "wp m P s"
    and "\<And>e s'. P (Inl e) s' \<Longrightarrow> Q (Inl e) s'"
    and "\<And>x s'. P (Inr x) s' \<Longrightarrow> wp (f x) Q s'"
  shows "wp (attempt m f) Q s"
  unfolding wp_attempt by (rule wp_mono [OF assms(1)]) (use assms(2,3) in \<open>auto split: sum.splits\<close>)

lemma wp_attempt_asI:
  assumes "wp m P s"
    and "\<And>e s'. P (Inl e) s' \<Longrightarrow> Q (Inl (WrapErr t e)) s'"
    and "\<And>x s'. P (Inr x) s' \<Longrightarrow> wp (f x) Q s'"
  shows "wp (attempt_as t m f) Q s"
  unfolding wp_attempt_as by (rule wp_mono [OF assms(1)]) (use assms(2,3) in \<open>auto split: sum.splits\<close>)

lemma wp_bindI:
  assumes "wp m P s" and "\<And>r s'. P r s' \<Longrightarrow> wp (f r) Q s'"
  shows "wp (State_Monad.bind m f) Q s"
  unfolding wp_bind by (rule wp_mono [OF assms(1)]) (rule assms(2))


subsection \<open>Relations every run respects\<close>

text \<open>
  \<open>keeps R m\<close>: \<open>R\<close> relates the state before to the state after, on every branch. For a
  reflexive and transitive \<open>R\<close> (such as "the files outside a set of locations are the same")
  the rules below reduce a composite action to its steps.
\<close>

definition keeps :: "('s \<Rightarrow> 's \<Rightarrow> bool) \<Rightarrow> ('s, 'a) state \<Rightarrow> bool" where
  "keeps R m \<longleftrightarrow> (\<forall>s. R s (snd (run_state m s)))"

lemma keepsD: "keeps R m \<Longrightarrow> run_state m s = (r, s') \<Longrightarrow> R s s'"
  by (metis keeps_def snd_conv)

lemma keepsI: "(\<And>s r s'. run_state m s = (r, s') \<Longrightarrow> R s s') \<Longrightarrow> keeps R m"
  by (simp add: keeps_def) (metis prod.collapse)

lemma keeps_wp: "keeps R m \<Longrightarrow> wp m (\<lambda>_. R s) s"
  by (auto intro: wpI dest: keepsD)

lemma keeps_mono: "keeps R m \<Longrightarrow> (\<And>s s'. R s s' \<Longrightarrow> S s s') \<Longrightarrow> keeps S m"
  by (simp add: keeps_def)

locale preorder_frame =
  fixes R :: "'s \<Rightarrow> 's \<Rightarrow> bool"
  assumes refl: "R s s"
    and trans: "R s t \<Longrightarrow> R t u \<Longrightarrow> R s u"
begin

lemma keeps_return: "keeps R (State_Monad.return x)"
  by (simp add: keeps_def refl)

lemma keeps_ok: "keeps R (ok x)"
  by (simp add: keeps_def refl)

lemma keeps_fail: "keeps R (fail e)"
  by (simp add: keeps_def refl)

lemma keeps_bind:
  assumes "keeps R m" and "\<And>r. keeps R (f r)"
  shows "keeps R (State_Monad.bind m f)"
  using assms by (auto simp: keeps_def split: prod.splits) (metis snd_conv trans)

lemma keeps_attempt:
  assumes "keeps R m" and "\<And>r. keeps R (f r)"
  shows "keeps R (attempt m f)"
  using assms unfolding attempt_def
  by (auto intro!: keeps_bind keeps_return split: sum.splits)

lemma keeps_attempt_as:
  assumes "keeps R m" and "\<And>r. keeps R (f r)"
  shows "keeps R (attempt_as t m f)"
  using assms unfolding attempt_as_def
  by (auto intro!: keeps_bind keeps_return split: sum.splits)

lemma keeps_if: "(b \<Longrightarrow> keeps R m) \<Longrightarrow> (\<not> b \<Longrightarrow> keeps R n) \<Longrightarrow> keeps R (if b then m else n)"
  by simp

lemma keeps_case_option:
  "(x = None \<Longrightarrow> keeps R m) \<Longrightarrow> (\<And>y. x = Some y \<Longrightarrow> keeps R (f y)) \<Longrightarrow>
   keeps R (case x of None \<Rightarrow> m | Some y \<Rightarrow> f y)"
  by (cases x) auto

lemma keeps_case_sum:
  "(\<And>e. x = Inl e \<Longrightarrow> keeps R (g e)) \<Longrightarrow> (\<And>y. x = Inr y \<Longrightarrow> keeps R (f y)) \<Longrightarrow>
   keeps R (case x of Inl e \<Rightarrow> g e | Inr y \<Rightarrow> f y)"
  by (cases x) auto

lemma keeps_case_prod:
  "(\<And>a b. x = (a, b) \<Longrightarrow> keeps R (f a b)) \<Longrightarrow> keeps R (case x of (a, b) \<Rightarrow> f a b)"
  by (cases x) auto

lemmas keeps_rules = keeps_return keeps_ok keeps_fail keeps_bind keeps_attempt keeps_attempt_as
  keeps_if keeps_case_option keeps_case_sum keeps_case_prod

end


subsection \<open>Encodings\<close>

text \<open>
  The contract of an encoder and its decoder: what was encoded decodes to itself. \<open>dom\<close> is the
  domain it holds on. A client may then rely on two encodings being equal only when the values
  are, and on a stored encoding standing for its value.
\<close>

locale codec =
  fixes enc :: "'a \<Rightarrow> 'b" and dec :: "'b \<Rightarrow> 'a option" and dom :: "'a \<Rightarrow> bool"
  assumes dec_enc: "dom x \<Longrightarrow> dec (enc x) = Some x"
begin

lemma enc_eq_iff: "dom x \<Longrightarrow> dom y \<Longrightarrow> enc x = enc y \<longleftrightarrow> x = y"
  by (metis dec_enc option.inject)

lemma dec_eq_iff: "dom x \<Longrightarrow> dec (enc x) = Some y \<longleftrightarrow> x = y"
  by (auto simp: dec_enc)

end


subsection \<open>Lists\<close>

lemma butlast_eq_iff_snoc: "xs \<noteq> [] \<Longrightarrow> butlast xs = ys \<longleftrightarrow> xs = ys @ [last xs]"
  by (metis append_butlast_last_id butlast_snoc)

lemma take_length_append_eq: "take (length p) s = p \<longleftrightarrow> (\<exists>t. s = p @ t)"
  by (metis append_eq_conv_conj append_take_drop_id)

lemma map_of_filter_key: "map_of (filter (\<lambda>(k, v). P k) al) k = (if P k then map_of al k else None)"
  by (induction al) auto

end
