(* ===== verification/Go_Strings.thy ===== *)
theory Go_Strings
  imports Prelude "HOL-Library.List_Lexorder" "HOL-Library.Char_ord"
begin

section \<open>The parts of Go's strings, strconv and encoding/hex the client calls\<close>

text \<open>
  Models of the standard-library functions the client uses, on byte strings. Case mapping
  and white space are those of ASCII: the code compares the results of \<open>ToUpper\<close> with ASCII
  names only. The order on strings is the byte-wise lexicographic one of
  \<open>HOL-Library.List_Lexorder\<close> and \<open>Char_ord\<close>, which is Go's \<^verbatim>\<open><\<close> on strings.
\<close>

definition hasPrefix :: "string \<Rightarrow> string \<Rightarrow> bool" where
  "hasPrefix s p \<longleftrightarrow> take (length p) s = p"

definition hasSuffix :: "string \<Rightarrow> string \<Rightarrow> bool" where
  "hasSuffix s p \<longleftrightarrow> length p \<le> length s \<and> drop (length s - length p) s = p"

definition trimPrefix :: "string \<Rightarrow> string \<Rightarrow> string" where
  "trimPrefix s p = (if hasPrefix s p then drop (length p) s else s)"

definition trimSuffix :: "string \<Rightarrow> string \<Rightarrow> string" where
  "trimSuffix s p = (if hasSuffix s p then take (length s - length p) s else s)"

fun contains :: "string \<Rightarrow> string \<Rightarrow> bool" where
  "contains [] p = (p = [])"
| "contains (c # s) p = (hasPrefix (c # s) p \<or> contains s p)"

definition trimRight :: "string \<Rightarrow> string \<Rightarrow> string" where
  "trimRight s cutset = rev (dropWhile (\<lambda>c. c \<in> set cutset) (rev s))"

definition white_space :: string where
  "white_space = [CHR 0x09, CHR 0x0A, CHR 0x0B, CHR 0x0C, CHR 0x0D, CHR 0x20]"

definition trimSpace :: "string \<Rightarrow> string" where
  "trimSpace s = trimRight (dropWhile (\<lambda>c. c \<in> set white_space) s) white_space"

fun splitOn :: "char \<Rightarrow> string \<Rightarrow> string list" where
  "splitOn c [] = [[]]"
| "splitOn c (x # xs) =
     (if x = c then [] # splitOn c xs
      else case splitOn c xs of [] \<Rightarrow> [[x]] | y # ys \<Rightarrow> (x # y) # ys)"

fun joinWith :: "char \<Rightarrow> string list \<Rightarrow> string" where
  "joinWith c [] = []"
| "joinWith c [x] = x"
| "joinWith c (x # y # ys) = x @ c # joinWith c (y # ys)"

definition upperChar :: "char \<Rightarrow> char" where
  "upperChar c =
     (let n = of_char c :: nat in if 97 \<le> n \<and> n \<le> 122 then char_of (n - 32) else c)"

definition toUpper :: "string \<Rightarrow> string" where
  "toUpper s = map upperChar s"

text \<open>\<^verbatim>\<open>strings.EqualFold\<close> on ASCII strings.\<close>

fun equalFold :: "string \<Rightarrow> string \<Rightarrow> bool" where
  "equalFold [] [] = True"
| "equalFold (a # as) (b # bs) =
     (if a = b \<or> upperChar a = upperChar b then equalFold as bs else False)"
| "equalFold _ _ = False"

lemma equalFold_iff: "equalFold a b \<longleftrightarrow> toUpper a = toUpper b"
  by (induction a b rule: equalFold.induct) (auto simp: toUpper_def)

declare equalFold.simps [simp del]

text \<open>Decimal numerals, \<^verbatim>\<open>%d\<close>.\<close>

definition digit_char :: "nat \<Rightarrow> char" where
  "digit_char d = char_of (48 + d)"

fun dec_digits :: "nat \<Rightarrow> string" where
  "dec_digits n = (if n < 10 then [digit_char n] else dec_digits (n div 10) @ [digit_char (n mod 10)])"

declare dec_digits.simps [simp del]

definition itoa :: "int \<Rightarrow> string" where
  "itoa i = (if i < 0 then CHR ''-'' # dec_digits (nat (- i)) else dec_digits (nat i))"


subsection \<open>Prefixes and suffixes\<close>

lemma hasPrefix_iff: "hasPrefix s p \<longleftrightarrow> (\<exists>t. s = p @ t)"
  by (simp add: hasPrefix_def take_length_append_eq)

lemma hasPrefix_append [simp]: "hasPrefix (p @ s) p"
  by (simp add: hasPrefix_def)

lemma hasPrefix_Nil [simp]: "hasPrefix s []"
  by (simp add: hasPrefix_def)

lemma hasPrefix_Cons [simp]: "hasPrefix (c # s) (d # p) \<longleftrightarrow> c = d \<and> hasPrefix s p"
  by (auto simp: hasPrefix_def)

lemma hasPrefix_Nil_left [simp]: "hasPrefix [] p \<longleftrightarrow> p = []"
  by (auto simp: hasPrefix_def)

lemma trimPrefix_append [simp]: "trimPrefix (p @ s) p = s"
  by (simp add: trimPrefix_def)

lemma trimRight_append:
  "s = trimRight s cs @ drop (length (trimRight s cs)) s"
proof -
  have "rev s = takeWhile (\<lambda>c. c \<in> set cs) (rev s) @ dropWhile (\<lambda>c. c \<in> set cs) (rev s)"
    by simp
  then have "s = rev (dropWhile (\<lambda>c. c \<in> set cs) (rev s)) @ rev (takeWhile (\<lambda>c. c \<in> set cs) (rev s))"
    by (metis rev_append rev_rev_ident)
  then show ?thesis
    unfolding trimRight_def by (metis append_eq_conv_conj)
qed

lemma trimRight_last: "trimRight s cs \<noteq> [] \<Longrightarrow> last (trimRight s cs) \<notin> set cs"
  using hd_dropWhile [of "\<lambda>c. c \<in> set cs" "rev s"]
  by (auto simp: trimRight_def last_rev)

lemma trimRight_append_cut: "set u \<subseteq> set cs \<Longrightarrow> trimRight (s @ u) cs = trimRight s cs"
  by (simp add: trimRight_def dropWhile_append subset_iff)

lemma trimRight_keep:
  assumes "s = [] \<or> last s \<notin> set cs" and "set t \<subseteq> set cs"
  shows "trimRight (s @ t) cs = s"
proof -
  have "dropWhile (\<lambda>c. c \<in> set cs) (rev (s @ t)) = dropWhile (\<lambda>c. c \<in> set cs) (rev s)"
    using assms(2) by (auto simp: dropWhile_append)
  also have "\<dots> = rev s"
    using assms(1) by (cases s rule: rev_cases) auto
  finally show ?thesis by (simp add: trimRight_def)
qed


subsection \<open>Splitting and joining\<close>

lemma splitOn_not_Nil [simp]: "splitOn c s \<noteq> []"
  by (cases s) (auto split: list.splits)

lemma splitOn_no_sep: "x \<in> set (splitOn c s) \<Longrightarrow> c \<notin> set x"
proof (induction c s arbitrary: x rule: splitOn.induct)
  case (1 c)
  then show ?case by simp
next
  case (2 c a xs)
  obtain y ys where "splitOn c xs = y # ys"
    using splitOn_not_Nil [of c xs] by (cases "splitOn c xs") auto
  with 2 show ?case by (auto split: if_splits)
qed

lemma splitOn_id: "c \<notin> set s \<Longrightarrow> splitOn c s = [s]"
  by (induction s) auto

lemma splitOn_append: "splitOn c (s @ c # t) = splitOn c s @ splitOn c t"
proof (induction s)
  case Nil
  then show ?case by simp
next
  case (Cons a s)
  then show ?case
    using splitOn_not_Nil [of c s] by (cases "splitOn c s") auto
qed

lemma splitOn_append_no_sep:
  assumes "c \<notin> set t"
  shows "splitOn c (s @ t) = butlast (splitOn c s) @ [last (splitOn c s) @ t]"
  using assms
proof (induction s)
  case Nil
  then show ?case by (simp add: splitOn_id)
next
  case (Cons a s)
  then show ?case
    using splitOn_not_Nil [of c s] splitOn_not_Nil [of c "s @ t"]
    by (cases "splitOn c s") auto
qed

lemma splitOn_joinWith:
  assumes "xs \<noteq> []" and "\<forall>x \<in> set xs. c \<notin> set x"
  shows "splitOn c (joinWith c xs) = xs"
  using assms
proof (induction c xs rule: joinWith.induct)
  case (3 c x y ys)
  then show ?case by (simp add: splitOn_append splitOn_id)
qed (auto simp: splitOn_id)

lemma joinWith_splitOn [simp]: "joinWith c (splitOn c s) = s"
proof (induction s)
  case Nil
  then show ?case by simp
next
  case (Cons a s)
  obtain y ys where "splitOn c s = y # ys"
    using splitOn_not_Nil [of c s] by (cases "splitOn c s") auto
  with Cons show ?case by (cases ys) auto
qed

lemma joinWith_Nil_iff: "joinWith c xs = [] \<longleftrightarrow> xs = [] \<or> xs = [[]]"
  by (cases "(c, xs)" rule: joinWith.cases) auto

lemma joinWith_snoc: "xs \<noteq> [] \<Longrightarrow> joinWith c (xs @ [x]) = joinWith c xs @ c # x"
  by (induction c xs rule: joinWith.induct) auto


subsection \<open>Hexadecimal\<close>

text \<open>\<^verbatim>\<open>hex.EncodeToString\<close> and \<^verbatim>\<open>hex.DecodeString\<close>: lower case out, either case in.\<close>

definition hex_digit :: "nat \<Rightarrow> char" where
  "hex_digit n = (if n < 10 then char_of (48 + n) else char_of (87 + n))"

definition hex_value :: "char \<Rightarrow> nat option" where
  "hex_value c = (let n = of_char c :: nat in
     if 48 \<le> n \<and> n \<le> 57 then Some (n - 48)
     else if 97 \<le> n \<and> n \<le> 102 then Some (n - 87)
     else if 65 \<le> n \<and> n \<le> 70 then Some (n - 55)
     else None)"

definition hex_encode :: "bytes \<Rightarrow> string" where
  "hex_encode b = concat (map (\<lambda>x. [hex_digit (unat x div 16), hex_digit (unat x mod 16)]) b)"

fun hex_decode :: "string \<Rightarrow> bytes option" where
  "hex_decode [] = Some []"
| "hex_decode [_] = None"
| "hex_decode (a # b # s) =
     (case (hex_value a, hex_value b, hex_decode s) of
        (Some x, Some y, Some r) \<Rightarrow> Some (of_nat (16 * x + y) # r)
      | _ \<Rightarrow> None)"

text \<open>\<^verbatim>\<open>%q\<close>: the two-character escapes, \<^verbatim>\<open>\x\<close> for the other control characters, the rest as it is
  (a sequence of bytes over 127 is taken for printable text).\<close>

definition quoted_char :: "char \<Rightarrow> string" where
  "quoted_char c =
     (let n = of_char c :: nat; bs = CHR 0x5C in
      if n = 0x22 \<or> n = 0x5C then [bs, c]
      else if n = 7 then [bs, CHR ''a''] else if n = 8 then [bs, CHR ''b'']
      else if n = 9 then [bs, CHR ''t''] else if n = 10 then [bs, CHR ''n'']
      else if n = 11 then [bs, CHR ''v''] else if n = 12 then [bs, CHR ''f'']
      else if n = 13 then [bs, CHR ''r'']
      else if n < 32 \<or> n = 127 then bs # CHR ''x'' # [hex_digit (n div 16), hex_digit (n mod 16)]
      else [c])"

definition quoted :: "string \<Rightarrow> string" where
  "quoted s = CHR 0x22 # concat (map quoted_char s) @ [CHR 0x22]"

lemma hex_value_digit: "n < 16 \<Longrightarrow> hex_value (hex_digit n) = Some n"
  by (auto simp: hex_value_def hex_digit_def Let_def)

lemma unat_byte_less [simp]: "unat (x :: byte) < 256"
proof -
  have "unat x < 2 ^ LENGTH(8)" by (rule unsigned_less)
  then show ?thesis by simp
qed

lemma hex_decode_encode [simp]: "hex_decode (hex_encode b) = Some b"
proof (induction b)
  case Nil
  then show ?case by (simp add: hex_encode_def)
next
  case (Cons x b)
  have hi: "unat x div 16 < 16" and lo: "unat x mod 16 < 16"
    using unat_byte_less [of x] by (simp_all add: less_mult_imp_div_less)
  have "(of_nat (16 * (unat x div 16) + unat x mod 16) :: byte) = x"
    by simp
  with Cons show ?case
    by (simp add: hex_encode_def hex_value_digit [OF hi] hex_value_digit [OF lo])
qed

interpretation hex: codec hex_encode hex_decode "\<lambda>_. True"
  by unfold_locales simp

lemma hex_encode_inject [simp]: "hex_encode a = hex_encode b \<longleftrightarrow> a = b"
  by (simp add: hex.enc_eq_iff)

end
