(* ===== verification/Go_Path.thy ===== *)
theory Go_Path
  imports Go_Strings
begin

section \<open>Go's path/filepath (POSIX) and the locations paths name\<close>

text \<open>
  \<open>Clean\<close>, \<open>Join\<close>, \<open>Dir\<close>, \<open>Ext\<close>, \<open>Rel\<close> of \<^verbatim>\<open>path/filepath\<close> on a POSIX system, as
  functions on path strings. A location (\<open>loc\<close>) is what a path string names in the tree of
  files: the list of its components from the root, after \<open>.\<close>, \<open>..\<close> and empty components
  are resolved against the working directory. The lemmas relate the two: cleaning does not
  change the location, joining a plain name extends it by one component, and a suffix
  without a separator changes the last component only.
\<close>

type_synonym loc = "string list"

abbreviation "slash \<equiv> CHR ''/''"

definition IsAbs :: "string \<Rightarrow> bool" where
  "IsAbs p \<longleftrightarrow> hasPrefix p ''/''"

text \<open>The stack of \<^verbatim>\<open>filepath.Clean\<close>, innermost component first.\<close>

definition clean_step :: "bool \<Rightarrow> string list \<Rightarrow> string \<Rightarrow> string list" where
  "clean_step rooted st c =
     (if c = [] \<or> c = ''.'' then st
      else if c = ''..'' then
        (case st of
           [] \<Rightarrow> if rooted then [] else [c]
         | d # st' \<Rightarrow> if d = ''..'' then c # st else st')
      else c # st)"

definition clean_comps :: "bool \<Rightarrow> string list \<Rightarrow> string list" where
  "clean_comps rooted cs = rev (foldl (clean_step rooted) [] cs)"

definition Clean :: "string \<Rightarrow> string" where
  "Clean p =
     (if p = [] then ''.''
      else
        let cs = clean_comps (IsAbs p) (splitOn slash p)
        in if IsAbs p then slash # joinWith slash cs
           else if cs = [] then ''.'' else joinWith slash cs)"

fun Join :: "string list \<Rightarrow> string" where
  "Join [] = []"
| "Join (e # es) = (if e = [] then Join es else Clean (joinWith slash (e # es)))"

definition Dir :: "string \<Rightarrow> string" where
  "Dir p = Clean (rev (dropWhile (\<lambda>c. c \<noteq> slash) (rev p)))"

text \<open>\<^verbatim>\<open>filepath.Ext\<close>: the suffix from the last dot of the last component.\<close>

fun ext_of_rev :: "string \<Rightarrow> string \<Rightarrow> string" where
  "ext_of_rev [] acc = []"
| "ext_of_rev (c # r) acc =
     (if c = slash then [] else if c = CHR ''.'' then c # acc else ext_of_rev r (c # acc))"

definition Ext :: "string \<Rightarrow> string" where
  "Ext p = ext_of_rev (rev p) []"

text \<open>\<^verbatim>\<open>filepath.Rel\<close>; \<open>None\<close> where it returns an error.\<close>

fun strip_common :: "string list \<Rightarrow> string list \<Rightarrow> string list \<times> string list" where
  "strip_common (a # as) (b # bs) = (if a = b then strip_common as bs else (a # as, b # bs))"
| "strip_common as bs = (as, bs)"

definition path_comps :: "string \<Rightarrow> string list" where
  "path_comps p = clean_comps (IsAbs p) (splitOn slash p)"

definition Rel :: "string \<Rightarrow> string \<Rightarrow> string option" where
  "Rel base targ =
     (if IsAbs base \<noteq> IsAbs targ then None
      else case strip_common (path_comps base) (path_comps targ) of
        (b, t) \<Rightarrow>
          if b = [] \<and> t = [] then Some ''.''
          else if b \<noteq> [] \<and> hd b = ''..'' then None
          else Some (joinWith slash (map (\<lambda>_. ''..'') b @ t)))"


subsection \<open>Locations\<close>

definition rstep :: "loc \<Rightarrow> string \<Rightarrow> loc" where
  "rstep l c = (if c = [] \<or> c = ''.'' then l else if c = ''..'' then butlast l else l @ [c])"

definition resolve :: "loc \<Rightarrow> string list \<Rightarrow> loc" where
  "resolve l cs = foldl rstep l cs"

definition loc_of :: "loc \<Rightarrow> string \<Rightarrow> loc" where
  "loc_of cwd p = resolve (if IsAbs p then [] else cwd) (splitOn slash p)"

text \<open>A name that is one ordinary component.\<close>

definition plain :: "string \<Rightarrow> bool" where
  "plain n \<longleftrightarrow> n \<noteq> [] \<and> n \<noteq> ''.'' \<and> n \<noteq> ''..'' \<and> slash \<notin> set n"

lemma resolve_Nil [simp]: "resolve l [] = l"
  by (simp add: resolve_def)

lemma resolve_Cons [simp]: "resolve l (c # cs) = resolve (rstep l c) cs"
  by (simp add: resolve_def)

lemma resolve_append [simp]: "resolve l (as @ bs) = resolve (resolve l as) bs"
  by (simp add: resolve_def)

lemma rstep_plain [simp]: "plain n \<Longrightarrow> rstep l n = l @ [n]"
  by (simp add: rstep_def plain_def)

lemma rstep_empty [simp]: "rstep l [] = l"
  by (simp add: rstep_def)

lemma IsAbs_simps [simp]: "IsAbs (slash # p)" "\<not> IsAbs []"
  by (simp_all add: IsAbs_def)

lemma IsAbs_append: "a \<noteq> [] \<Longrightarrow> IsAbs (a @ b) \<longleftrightarrow> IsAbs a"
  by (cases a) (simp_all add: IsAbs_def)

text \<open>The elements a cleaning stack holds: no empty or dot component, dot-dots only at the
  bottom of an unrooted one.\<close>

definition clean_stack :: "bool \<Rightarrow> string list \<Rightarrow> bool" where
  "clean_stack rooted st \<longleftrightarrow>
     (\<forall>c \<in> set st. c \<noteq> [] \<and> c \<noteq> ''.'' \<and> slash \<notin> set c) \<and>
     (rooted \<longrightarrow> ''..'' \<notin> set st)"

lemma clean_stack_step:
  assumes "clean_stack r st" and "slash \<notin> set c"
  shows "clean_stack r (clean_step r st c)"
proof (cases "c = ''..''")
  case True
  with assms show ?thesis
    by (cases st) (auto simp add: clean_stack_def clean_step_def)
next
  case False
  with assms show ?thesis
    by (simp add: clean_stack_def clean_step_def)
qed

lemma clean_stack_foldl:
  "clean_stack r st \<Longrightarrow> \<forall>c \<in> set cs. slash \<notin> set c \<Longrightarrow> clean_stack r (foldl (clean_step r) st cs)"
  by (induction cs arbitrary: st) (auto intro: clean_stack_step)

lemma clean_stack_Nil [simp]: "clean_stack r []"
  by (simp add: clean_stack_def)

lemma resolve_rev_clean_step:
  assumes "clean_stack r st" and "r \<longrightarrow> l = []"
  shows "resolve l (rev (clean_step r st c)) = rstep (resolve l (rev st)) c"
proof (cases "c = ''..''")
  case False
  then show ?thesis
    by (auto simp: clean_step_def rstep_def)
next
  case True
  show ?thesis
  proof (cases st)
    case Nil
    with True assms(2) show ?thesis by (auto simp: clean_step_def rstep_def)
  next
    case (Cons d st')
    with True assms(1) show ?thesis
      by (auto simp: clean_step_def rstep_def clean_stack_def)
  qed
qed

lemma resolve_clean_foldl:
  assumes "clean_stack r st" and "r \<longrightarrow> l = []" and "\<forall>c \<in> set cs. slash \<notin> set c"
  shows "resolve l (rev (foldl (clean_step r) st cs)) = resolve (resolve l (rev st)) cs"
  using assms
proof (induction cs arbitrary: st)
  case Nil
  then show ?case by simp
next
  case (Cons c cs)
  then have "clean_stack r (clean_step r st c)"
    by (auto intro: clean_stack_step)
  with Cons show ?case
    by (simp add: resolve_rev_clean_step [OF Cons.prems(1,2)])
qed

lemma resolve_clean_comps:
  assumes "r \<longrightarrow> l = []"
  shows "resolve l (clean_comps r (splitOn slash p)) = resolve l (splitOn slash p)"
  using resolve_clean_foldl [of r "[]" l "splitOn slash p"] assms splitOn_no_sep
  by (auto simp: clean_comps_def)

lemma clean_comps_no_slash: "c \<in> set (clean_comps r (splitOn slash p)) \<Longrightarrow> slash \<notin> set c"
  using clean_stack_foldl [of r "[]" "splitOn slash p"] splitOn_no_sep
  by (auto simp: clean_comps_def clean_stack_def)

lemma clean_comps_not_empty: "c \<in> set (clean_comps r (splitOn slash p)) \<Longrightarrow> c \<noteq> []"
  using clean_stack_foldl [of r "[]" "splitOn slash p"] splitOn_no_sep
  by (auto simp: clean_comps_def clean_stack_def)

lemma clean_comps_snoc_plain: "plain n \<Longrightarrow> clean_comps r (cs @ [n]) = clean_comps r cs @ [n]"
  by (simp add: clean_comps_def clean_step_def plain_def)

text \<open>The components of a cleaned path, as splitting the string again gives them.\<close>

lemma splitOn_Clean:
  assumes "p \<noteq> []"
  shows "splitOn slash (Clean p) =
    (let cs = path_comps p in
     if IsAbs p then [] # (if cs = [] then [[]] else cs)
     else if cs = [] then [''.''] else cs)"
proof -
  let ?cs = "path_comps p"
  have "\<forall>c \<in> set ?cs. slash \<notin> set c"
    by (auto simp: path_comps_def dest: clean_comps_no_slash)
  then have "?cs \<noteq> [] \<Longrightarrow> splitOn slash (joinWith slash ?cs) = ?cs"
    by (intro splitOn_joinWith) auto
  then show ?thesis
    using assms by (auto simp: Clean_def path_comps_def Let_def splitOn_id)
qed

lemma joinWith_hd_not_slash:
  assumes "cs \<noteq> []" and "\<forall>c \<in> set cs. c \<noteq> [] \<and> slash \<notin> set c"
  shows "\<not> IsAbs (joinWith slash cs)"
proof -
  obtain x xs where x: "cs = x # xs" using assms(1) by (cases cs) auto
  with assms(2) obtain a b where ab: "x = a # b" "a \<noteq> slash" by (cases x) auto
  show ?thesis
    by (cases xs) (simp_all add: x ab IsAbs_def)
qed

lemma IsAbs_Clean [simp]: "p \<noteq> [] \<Longrightarrow> IsAbs (Clean p) = IsAbs p"
  using joinWith_hd_not_slash [of "clean_comps False (splitOn slash p)"]
  by (auto simp: Clean_def Let_def IsAbs_def dest: clean_comps_not_empty clean_comps_no_slash)

lemma loc_of_Clean:
  assumes "p \<noteq> []"
  shows "loc_of cwd (Clean p) = loc_of cwd p"
proof -
  let ?l = "if IsAbs p then [] else cwd"
  have "resolve ?l (splitOn slash (Clean p)) = resolve ?l (path_comps p)"
    by (simp add: splitOn_Clean [OF assms] Let_def rstep_def)
  also have "\<dots> = resolve ?l (splitOn slash p)"
    unfolding path_comps_def by (rule resolve_clean_comps) simp
  finally show ?thesis
    by (simp add: loc_of_def assms)
qed

lemma Join_pair: "a \<noteq> [] \<Longrightarrow> Join [a, b] = Clean (a @ slash # b)"
  by simp

lemma loc_of_Join:
  assumes "a \<noteq> []"
  shows "loc_of cwd (Join [a, b]) = resolve (loc_of cwd a) (splitOn slash b)"
proof -
  have "loc_of cwd (Join [a, b]) = loc_of cwd (a @ slash # b)"
    using assms by (simp add: loc_of_Clean)
  also have "\<dots> = resolve (loc_of cwd a) (splitOn slash b)"
    using assms by (simp add: loc_of_def IsAbs_append splitOn_append)
  finally show ?thesis .
qed

lemma loc_of_Join_plain:
  assumes "a \<noteq> []" and "plain n"
  shows "loc_of cwd (Join [a, n]) = loc_of cwd a @ [n]"
  using assms loc_of_Join [OF assms(1), of cwd n]
  by (simp add: splitOn_id plain_def [of n] rstep_plain [OF assms(2)] del: Join.simps)

lemma Clean_not_Nil [simp]: "Clean p \<noteq> []"
proof -
  have "clean_comps r (splitOn slash p) \<noteq> [[]]" for r
    using clean_comps_not_empty [of "[]" r p] by auto
  then show ?thesis
    by (simp add: Clean_def Let_def joinWith_Nil_iff)
qed

lemma Join_pair_not_Nil: "a \<noteq> [] \<Longrightarrow> Join [a, n] \<noteq> []"
  by simp

lemma splitOn_Join_plain:
  assumes "a \<noteq> []" and "plain n"
  shows "last (splitOn slash (Join [a, n])) = n"
proof -
  have "slash \<notin> set n" using assms(2) by (simp add: plain_def)
  then have "path_comps (a @ slash # n) = clean_comps (IsAbs a) (splitOn slash a) @ [n]"
    using assms by (simp add: path_comps_def splitOn_append splitOn_id IsAbs_append
      clean_comps_snoc_plain)
  with assms show ?thesis
    by (simp add: splitOn_Clean Let_def)
qed

lemma IsAbs_append_suffix: "p \<noteq> [] \<Longrightarrow> IsAbs (p @ s) = IsAbs p"
  by (rule IsAbs_append)

lemma loc_of_suffix:
  assumes "p \<noteq> []" and "slash \<notin> set s"
    and "plain (last (splitOn slash p))" and "plain (last (splitOn slash p) @ s)"
  shows "loc_of cwd (p @ s) = butlast (loc_of cwd p) @ [last (splitOn slash p) @ s]"
proof -
  let ?l = "if IsAbs p then [] else cwd"
  have "splitOn slash p = butlast (splitOn slash p) @ [last (splitOn slash p)]"
    by simp
  then have "loc_of cwd p = resolve ?l (butlast (splitOn slash p) @ [last (splitOn slash p)])"
    by (simp only: loc_of_def)
  then have "loc_of cwd p = resolve ?l (butlast (splitOn slash p)) @ [last (splitOn slash p)]"
    using assms(3) by (simp only: resolve_append) simp
  then show ?thesis
    using assms by (simp add: loc_of_def IsAbs_append splitOn_append_no_sep)
qed

lemma plain_append: "plain n \<Longrightarrow> slash \<notin> set s \<Longrightarrow> plain (n @ s)"
  by (cases n; cases "tl n") (auto simp: plain_def)

text \<open>A path that ends in a plain name, so that suffixes can be put after it.\<close>

definition named :: "string \<Rightarrow> bool" where
  "named p \<longleftrightarrow> p \<noteq> [] \<and> plain (last (splitOn slash p))"

definition base_name :: "string \<Rightarrow> string" where
  "base_name p = last (splitOn slash p)"

lemma named_Join: "a \<noteq> [] \<Longrightarrow> plain n \<Longrightarrow> named (Join [a, n])"
  by (simp add: named_def splitOn_Join_plain Join_pair_not_Nil del: Join.simps)

lemma named_append: "named p \<Longrightarrow> slash \<notin> set s \<Longrightarrow> named (p @ s)"
  by (simp add: named_def splitOn_append_no_sep plain_append)

lemma loc_of_named: "named p \<Longrightarrow> loc_of cwd p = butlast (loc_of cwd p) @ [base_name p]"
  using loc_of_suffix [of p "[]" cwd] by (simp add: named_def base_name_def)

lemma loc_of_named_suffix:
  "named p \<Longrightarrow> slash \<notin> set s \<Longrightarrow> loc_of cwd (p @ s) = butlast (loc_of cwd p) @ [base_name p @ s]"
  using loc_of_suffix [of p s cwd] by (simp add: named_def base_name_def plain_append)

lemma base_name_Join: "a \<noteq> [] \<Longrightarrow> plain n \<Longrightarrow> base_name (Join [a, n]) = n"
  by (simp add: base_name_def splitOn_Join_plain del: Join.simps)

text \<open>Different suffixes after one name are different locations.\<close>

lemma loc_of_suffix_eq_iff:
  assumes "named p" and "slash \<notin> set s" and "slash \<notin> set t"
  shows "loc_of cwd (p @ s) = loc_of cwd (p @ t) \<longleftrightarrow> s = t"
  by (simp add: loc_of_named_suffix assms)

lemma loc_of_suffix_eq_self:
  assumes "named p" and "slash \<notin> set s"
  shows "loc_of cwd (p @ s) = loc_of cwd p \<longleftrightarrow> s = []"
    and "loc_of cwd p = loc_of cwd (p @ s) \<longleftrightarrow> s = []"
  using loc_of_suffix_eq_iff [OF assms, of "[]" cwd] by auto

lemma loc_of_named_not_Nil: "named p \<Longrightarrow> loc_of cwd p \<noteq> []"
  by (subst loc_of_named) auto

lemma loc_of_Join_suffix:
  assumes "a \<noteq> []" and "plain n" and "slash \<notin> set s" and "plain (n @ s)"
  shows "loc_of cwd (Join [a, n] @ s) = loc_of cwd a @ [n @ s]"
proof -
  have "loc_of cwd (Join [a, n] @ s) = butlast (loc_of cwd (Join [a, n])) @ [n @ s]"
    using loc_of_suffix [of "Join [a, n]" s cwd] assms splitOn_Join_plain [OF assms(1,2)]
      Join_pair_not_Nil [OF assms(1), of n]
    by (simp del: Join.simps)
  then show ?thesis
    using loc_of_Join_plain [OF assms(1,2)] by simp
qed

end
