(* ===== verification/World.thy ===== *)
theory World
  imports Go_Path "HOL-Library.AList"
begin

section \<open>The world the client runs in: files, faults, HTTP\<close>

text \<open>
  The state of an action is a \<open>world\<close>: the tree of files, the number of file-system calls
  made so far and the HTTP requests sent. What the program cannot choose is a fixed
  \<open>env\<close>: for the \<open>n\<close>-th file-system call whether it fails and how far it got before
  (\<open>e_fault\<close>), the answer of the network to the \<open>n\<close>-th request (\<open>e_http\<close>), the clock, the
  environment variables, and the cryptographic functions. A crash during call \<open>n\<close> is the
  fault function that lets call \<open>n\<close> get part of the way and every later call fail with no
  effect: the tree it leaves is the tree at the crash, so a statement about all \<open>env\<close>
  covers every crash point. The tree is the part of the file system the client owns; data
  operations do not go through symbolic links (they return \<open>ELOOP\<close>), which only the
  \<open>current\<close> and \<open>previous\<close> links are.
\<close>

subsection \<open>Types\<close>

datatype node = DirNode | FileNode nat bytes | LinkNode string

type_synonym tree = "(loc \<times> node) list"

record request =
  rq_method :: string
  rq_url :: string
  rq_auth :: "string option"
  rq_ctype :: "string option"
  rq_range :: "nat option"
  rq_body :: bytes

text \<open>
  A response body as the sequence of what successive \<^verbatim>\<open>Read\<close> calls return: the chunks, then
  the end of file (\<open>True\<close>) or a read error (\<open>False\<close>).
\<close>

datatype body = Body "bytes list" bool

datatype http_result = NetErr goerr | Resp nat string "(string \<times> string) list" body

text \<open>An archive as \<^verbatim>\<open>archive/tar\<close> delivers it: the entries' headers with their contents.\<close>

record tar_entry =
  h_regular :: bool
  h_name :: string
  h_mode :: int
  h_body :: body

record env =
  e_fault :: "nat \<Rightarrow> nat option"
  e_http :: "nat \<Rightarrow> request \<Rightarrow> http_result"
  e_badurl :: "string \<Rightarrow> goerr option"
  e_now :: "nat \<Rightarrow> string"
  e_getenv :: "string \<Rightarrow> string"
  e_homedir :: "string option"
  e_hostname :: "string option"
  e_cwd :: loc
  e_getwd_ok :: bool
  e_mtime :: "loc \<Rightarrow> nat"
  e_darwin :: bool
  e_sha256 :: "bytes \<Rightarrow> bytes"
  e_ed25519 :: "bytes \<Rightarrow> bytes \<Rightarrow> bytes \<Rightarrow> bool"
  e_bunzip2 :: "bytes \<Rightarrow> bytes \<times> goerr"
  e_untar :: "bytes \<Rightarrow> tar_entry list \<times> goerr option"

record world =
  w_tree :: tree
  w_ops :: nat
  w_reqs :: "request list"

type_synonym 'a act = "(world, 'a) state"


subsection \<open>The tree\<close>

definition node_at :: "tree \<Rightarrow> loc \<Rightarrow> node option" where
  "node_at t l = (if l = [] then Some DirNode else map_of t l)"

definition set_node :: "tree \<Rightarrow> loc \<Rightarrow> node \<Rightarrow> tree" where
  "set_node t l n = AList.update l n t"

definition del_node :: "tree \<Rightarrow> loc \<Rightarrow> tree" where
  "del_node t l = AList.delete l t"

definition under :: "loc \<Rightarrow> loc \<Rightarrow> bool" where
  "under l k \<longleftrightarrow> take (length l) k = l"

definition del_under :: "tree \<Rightarrow> loc \<Rightarrow> tree" where
  "del_under t l = filter (\<lambda>(k, n). \<not> under l k) t"

text \<open>Why a path is not there: an ancestor is not a directory, or nothing is.\<close>

definition miss :: "tree \<Rightarrow> loc \<Rightarrow> errno" where
  "miss t l =
     (if list_ex (\<lambda>i. case node_at t (take i l) of
                        None \<Rightarrow> False | Some n \<Rightarrow> n \<noteq> DirNode) [0..<length l]
      then ENOTDIR else ENOENT)"

lemma node_at_set_node [simp]:
  "l \<noteq> [] \<Longrightarrow> node_at (set_node t l n) k = (if k = l then Some n else node_at t k)"
  by (simp add: node_at_def set_node_def update_conv')

lemma node_at_del_node [simp]:
  "l \<noteq> [] \<Longrightarrow> node_at (del_node t l) k = (if k = l then None else node_at t k)"
  by (simp add: node_at_def del_node_def delete_conv')

lemma node_at_del_under [simp]:
  "l \<noteq> [] \<Longrightarrow> node_at (del_under t l) k = (if under l k then None else node_at t k)"
  by (auto simp: node_at_def del_under_def under_def map_of_filter_key)

lemma node_at_Nil [simp]: "node_at t [] = Some DirNode"
  by (simp add: node_at_def)

lemma under_refl [simp]: "under l l"
  by (simp add: under_def)

lemma under_append [simp]: "under l (l @ k)"
  by (simp add: under_def)

lemma under_iff: "under l k \<longleftrightarrow> (\<exists>s. k = l @ s)"
  unfolding under_def by (rule take_length_append_eq)


subsection \<open>System calls on the tree\<close>

text \<open>
  Each takes the fault of this call, the path (for the error's text), its location and the
  tree. With fault \<open>Some k\<close> it returns \<open>EIO\<close>, having done a part of its work measured by
  \<open>k\<close>: bytes written, directories made, entries removed. \<open>rename\<close>, \<open>remove\<close>, \<open>symlink\<close> and
  \<open>truncate\<close> are atomic.
\<close>

definition t_lstat :: "string \<Rightarrow> loc \<Rightarrow> nat option \<Rightarrow> tree \<Rightarrow> node res \<times> tree" where
  "t_lstat p l flt t =
     (case flt of Some _ \<Rightarrow> (Inl (PathErr ''lstat'' p EIO), t)
      | None \<Rightarrow> (case node_at t l of
          None \<Rightarrow> (Inl (PathErr ''lstat'' p (miss t l)), t)
        | Some n \<Rightarrow> (Inr n, t)))"

definition t_stat :: "string \<Rightarrow> loc \<Rightarrow> nat option \<Rightarrow> tree \<Rightarrow> node res \<times> tree" where
  "t_stat p l flt t =
     (case flt of Some _ \<Rightarrow> (Inl (PathErr ''stat'' p EIO), t)
      | None \<Rightarrow> (case node_at t l of
          None \<Rightarrow> (Inl (PathErr ''stat'' p (miss t l)), t)
        | Some (LinkNode _) \<Rightarrow> (Inl (PathErr ''stat'' p ELOOP), t)
        | Some n \<Rightarrow> (Inr n, t)))"

definition t_read_file :: "string \<Rightarrow> loc \<Rightarrow> nat option \<Rightarrow> tree \<Rightarrow> bytes res \<times> tree" where
  "t_read_file p l flt t =
     (case flt of Some _ \<Rightarrow> (Inl (PathErr ''open'' p EIO), t)
      | None \<Rightarrow> (case node_at t l of
          None \<Rightarrow> (Inl (PathErr ''open'' p (miss t l)), t)
        | Some (LinkNode _) \<Rightarrow> (Inl (PathErr ''open'' p ELOOP), t)
        | Some DirNode \<Rightarrow> (Inl (PathErr ''read'' p EISDIR), t)
        | Some (FileNode m d) \<Rightarrow> (Inr d, t)))"

text \<open>The mode a file opened for writing has, when it can be opened.\<close>

definition open_mode :: "tree \<Rightarrow> loc \<Rightarrow> nat \<Rightarrow> errno + nat" where
  "open_mode t l perm =
     (case node_at t l of
        Some DirNode \<Rightarrow> Inl EISDIR
      | Some (LinkNode _) \<Rightarrow> Inl ELOOP
      | Some (FileNode m _) \<Rightarrow> Inr m
      | None \<Rightarrow> if node_at t (butlast l) = Some DirNode then Inr perm else Inl (miss t l))"

definition t_write_file :: "string \<Rightarrow> loc \<Rightarrow> bytes \<Rightarrow> nat \<Rightarrow> nat option \<Rightarrow> tree \<Rightarrow> unit res \<times> tree" where
  "t_write_file p l data perm flt t =
     (case open_mode t l perm of
        Inl e \<Rightarrow> (Inl (PathErr ''open'' p e), t)
      | Inr m \<Rightarrow> (case flt of
          None \<Rightarrow> (Inr (), set_node t l (FileNode m data))
        | Some 0 \<Rightarrow> (Inl (PathErr ''open'' p EIO), t)
        | Some (Suc k) \<Rightarrow> (Inl (PathErr ''write'' p EIO), set_node t l (FileNode m (take k data)))))"

definition t_open_write :: "string \<Rightarrow> loc \<Rightarrow> bool \<Rightarrow> nat \<Rightarrow> nat option \<Rightarrow> tree \<Rightarrow> unit res \<times> tree" where
  "t_open_write p l trunc perm flt t =
     (case flt of Some _ \<Rightarrow> (Inl (PathErr ''open'' p EIO), t)
      | None \<Rightarrow> (case open_mode t l perm of
          Inl e \<Rightarrow> (Inl (PathErr ''open'' p e), t)
        | Inr m \<Rightarrow> (Inr (), (case node_at t l of
              Some (FileNode m' d) \<Rightarrow> if trunc then set_node t l (FileNode m []) else t
            | _ \<Rightarrow> set_node t l (FileNode m [])))))"

definition t_append :: "string \<Rightarrow> loc \<Rightarrow> bytes \<Rightarrow> nat option \<Rightarrow> tree \<Rightarrow> unit res \<times> tree" where
  "t_append p l chunk flt t =
     (case node_at t l of
        Some (FileNode m d) \<Rightarrow> (case flt of
            None \<Rightarrow> (Inr (), set_node t l (FileNode m (d @ chunk)))
          | Some k \<Rightarrow> (Inl (PathErr ''write'' p EIO), set_node t l (FileNode m (d @ take k chunk))))
      | _ \<Rightarrow> (Inl (PathErr ''write'' p EIO), t))"

definition t_truncate :: "string \<Rightarrow> loc \<Rightarrow> nat \<Rightarrow> nat option \<Rightarrow> tree \<Rightarrow> unit res \<times> tree" where
  "t_truncate p l n flt t =
     (case flt of Some _ \<Rightarrow> (Inl (PathErr ''truncate'' p EIO), t)
      | None \<Rightarrow> (case node_at t l of
          None \<Rightarrow> (Inl (PathErr ''truncate'' p (miss t l)), t)
        | Some (LinkNode _) \<Rightarrow> (Inl (PathErr ''truncate'' p ELOOP), t)
        | Some DirNode \<Rightarrow> (Inl (PathErr ''truncate'' p EISDIR), t)
        | Some (FileNode m d) \<Rightarrow>
            (Inr (), set_node t l (FileNode m (take n (d @ replicate (n - length d) 0))))))"

text \<open>\<^verbatim>\<open>os.Rename\<close> of a file or a link (the client renames no directory).\<close>

definition t_rename :: "string \<Rightarrow> loc \<Rightarrow> loc \<Rightarrow> nat option \<Rightarrow> tree \<Rightarrow> unit res \<times> tree" where
  "t_rename p l l' flt t =
     (case flt of Some _ \<Rightarrow> (Inl (PathErr ''rename'' p EIO), t)
      | None \<Rightarrow> (case node_at t l of
          None \<Rightarrow> (Inl (PathErr ''rename'' p (miss t l)), t)
        | Some DirNode \<Rightarrow> (Inl (PathErr ''rename'' p EINVAL), t)
        | Some n \<Rightarrow>
            if node_at t l' = Some DirNode then (Inl (PathErr ''rename'' p EEXIST), t)
            else if node_at t (butlast l') \<noteq> Some DirNode
            then (Inl (PathErr ''rename'' p (miss t l')), t)
            else (Inr (), set_node (del_node t l) l' n)))"

definition has_child :: "tree \<Rightarrow> loc \<Rightarrow> bool" where
  "has_child t l \<longleftrightarrow> list_ex (\<lambda>(k, n). k \<noteq> [] \<and> butlast k = l) t"

definition t_remove :: "string \<Rightarrow> loc \<Rightarrow> nat option \<Rightarrow> tree \<Rightarrow> unit res \<times> tree" where
  "t_remove p l flt t =
     (case flt of Some _ \<Rightarrow> (Inl (PathErr ''remove'' p EIO), t)
      | None \<Rightarrow> (case node_at t l of
          None \<Rightarrow> (Inl (PathErr ''remove'' p (miss t l)), t)
        | Some n \<Rightarrow>
            if n = DirNode \<and> (l = [] \<or> has_child t l)
            then (Inl (PathErr ''remove'' p ENOTEMPTY), t)
            else (Inr (), del_node t l)))"

text \<open>The entries below a location, deepest first: the order \<^verbatim>\<open>os.RemoveAll\<close> removes them in.\<close>

definition entries_under :: "tree \<Rightarrow> loc \<Rightarrow> loc list" where
  "entries_under t l = rev (sort_key length (remdups (filter (under l) (map fst t))))"

definition t_remove_all :: "string \<Rightarrow> loc \<Rightarrow> nat option \<Rightarrow> tree \<Rightarrow> unit res \<times> tree" where
  "t_remove_all p l flt t =
     (case flt of
        None \<Rightarrow> (Inr (), del_under t l)
      | Some k \<Rightarrow> (Inl (PathErr ''unlinkat'' p EIO), foldl del_node t (take k (entries_under t l))))"

fun mkdirs :: "nat option \<Rightarrow> loc list \<Rightarrow> tree \<Rightarrow> errno option \<times> tree" where
  "mkdirs flt [] t = ((case flt of None \<Rightarrow> None | Some _ \<Rightarrow> Some EIO), t)"
| "mkdirs flt (d # ds) t =
     (case node_at t d of
        Some DirNode \<Rightarrow> mkdirs flt ds t
      | Some _ \<Rightarrow> (Some ENOTDIR, t)
      | None \<Rightarrow> (case flt of
          None \<Rightarrow> mkdirs None ds (set_node t d DirNode)
        | Some 0 \<Rightarrow> (Some EIO, t)
        | Some (Suc k) \<Rightarrow> mkdirs (Some k) ds (set_node t d DirNode)))"

definition prefixes_of :: "loc \<Rightarrow> loc list" where
  "prefixes_of l = map (\<lambda>i. take (Suc i) l) [0..<length l]"

definition t_mkdir_all :: "string \<Rightarrow> loc \<Rightarrow> nat option \<Rightarrow> tree \<Rightarrow> unit res \<times> tree" where
  "t_mkdir_all p l flt t =
     (case mkdirs flt (prefixes_of l) t of
        (None, t') \<Rightarrow> (Inr (), t')
      | (Some e, t') \<Rightarrow> (Inl (PathErr ''mkdir'' p e), t'))"

definition t_symlink :: "string \<Rightarrow> string \<Rightarrow> loc \<Rightarrow> nat option \<Rightarrow> tree \<Rightarrow> unit res \<times> tree" where
  "t_symlink target p l flt t =
     (case flt of Some _ \<Rightarrow> (Inl (PathErr ''symlink'' p EIO), t)
      | None \<Rightarrow>
          if node_at t l \<noteq> None then (Inl (PathErr ''symlink'' p EEXIST), t)
          else if node_at t (butlast l) \<noteq> Some DirNode then (Inl (PathErr ''symlink'' p (miss t l)), t)
          else (Inr (), set_node t l (LinkNode target)))"

definition t_readlink :: "string \<Rightarrow> loc \<Rightarrow> nat option \<Rightarrow> tree \<Rightarrow> string res \<times> tree" where
  "t_readlink p l flt t =
     (case flt of Some _ \<Rightarrow> (Inl (PathErr ''readlink'' p EIO), t)
      | None \<Rightarrow> (case node_at t l of
          None \<Rightarrow> (Inl (PathErr ''readlink'' p (miss t l)), t)
        | Some (LinkNode target) \<Rightarrow> (Inr target, t)
        | Some _ \<Rightarrow> (Inl (PathErr ''readlink'' p EINVAL), t)))"

text \<open>
  \<^verbatim>\<open>os.ReadDir\<close>: the children's names, sorted, with their nodes. A directory entry has a plain
  name.
\<close>

definition child_names :: "tree \<Rightarrow> loc \<Rightarrow> string list" where
  "child_names t l =
     sort (remdups (filter plain (map last (filter (\<lambda>k. k \<noteq> [] \<and> butlast k = l) (map fst t)))))"

definition t_read_dir :: "string \<Rightarrow> loc \<Rightarrow> nat option \<Rightarrow> tree \<Rightarrow> (string \<times> node) list res \<times> tree" where
  "t_read_dir p l flt t =
     (case flt of Some _ \<Rightarrow> (Inl (PathErr ''open'' p EIO), t)
      | None \<Rightarrow> (case node_at t l of
          None \<Rightarrow> (Inl (PathErr ''open'' p (miss t l)), t)
        | Some DirNode \<Rightarrow>
            (Inr (map (\<lambda>n. (n, the (node_at t (l @ [n])))) (child_names t l)), t)
        | Some _ \<Rightarrow> (Inl (PathErr ''readdirent'' p ENOTDIR), t)))"

end
