(* ===== verification/OS.thy ===== *)
theory OS
  imports World
begin

section \<open>System calls as actions, their frames and effects\<close>

text \<open>
  The calls of Go's \<^verbatim>\<open>os\<close> package as actions on the world, each looking its fault up under
  the number of calls made so far, and HTTP round trips. For each call: the locations it may
  change (collected in \<open>keeps_intros\<close>, so that a component's frame is proved by applying
  these rules), and what a successful and a failed call did to them.
\<close>

definition fs_op :: "env \<Rightarrow> (nat option \<Rightarrow> tree \<Rightarrow> 'a \<times> tree) \<Rightarrow> 'a act" where
  "fs_op env f = State (\<lambda>w.
     case f (e_fault env (w_ops w)) (w_tree w) of
       (r, t) \<Rightarrow> (r, w\<lparr>w_tree := t, w_ops := Suc (w_ops w)\<rparr>))"

abbreviation at :: "env \<Rightarrow> string \<Rightarrow> loc" where
  "at env p \<equiv> loc_of (e_cwd env) p"

definition os_lstat :: "env \<Rightarrow> string \<Rightarrow> node res act" where
  "os_lstat env p = fs_op env (t_lstat p (at env p))"

definition os_stat :: "env \<Rightarrow> string \<Rightarrow> node res act" where
  "os_stat env p = fs_op env (t_stat p (at env p))"

definition os_read_file :: "env \<Rightarrow> string \<Rightarrow> bytes res act" where
  "os_read_file env p = fs_op env (t_read_file p (at env p))"

definition os_write_file :: "env \<Rightarrow> string \<Rightarrow> bytes \<Rightarrow> nat \<Rightarrow> unit res act" where
  "os_write_file env p data perm = fs_op env (t_write_file p (at env p) data perm)"

definition os_open_write :: "env \<Rightarrow> string \<Rightarrow> bool \<Rightarrow> nat \<Rightarrow> unit res act" where
  "os_open_write env p trunc perm = fs_op env (t_open_write p (at env p) trunc perm)"

definition os_append :: "env \<Rightarrow> string \<Rightarrow> bytes \<Rightarrow> unit res act" where
  "os_append env p chunk = fs_op env (t_append p (at env p) chunk)"

definition os_close :: "env \<Rightarrow> string \<Rightarrow> unit res act" where
  "os_close env p = fs_op env (\<lambda>flt t.
     ((case flt of None \<Rightarrow> Inr () | Some _ \<Rightarrow> Inl (PathErr ''close'' p EIO)), t))"

definition os_truncate :: "env \<Rightarrow> string \<Rightarrow> nat \<Rightarrow> unit res act" where
  "os_truncate env p n = fs_op env (t_truncate p (at env p) n)"

definition os_rename :: "env \<Rightarrow> string \<Rightarrow> string \<Rightarrow> unit res act" where
  "os_rename env p q = fs_op env (t_rename p (at env p) (at env q))"

definition os_remove :: "env \<Rightarrow> string \<Rightarrow> unit res act" where
  "os_remove env p = fs_op env (t_remove p (at env p))"

definition os_remove_all :: "env \<Rightarrow> string \<Rightarrow> unit res act" where
  "os_remove_all env p = fs_op env (t_remove_all p (at env p))"

definition os_mkdir_all :: "env \<Rightarrow> string \<Rightarrow> unit res act" where
  "os_mkdir_all env p = fs_op env (t_mkdir_all p (at env p))"

definition os_symlink :: "env \<Rightarrow> string \<Rightarrow> string \<Rightarrow> unit res act" where
  "os_symlink env target p = fs_op env (t_symlink target p (at env p))"

definition os_readlink :: "env \<Rightarrow> string \<Rightarrow> string res act" where
  "os_readlink env p = fs_op env (t_readlink p (at env p))"

definition os_read_dir :: "env \<Rightarrow> string \<Rightarrow> (string \<times> node) list res act" where
  "os_read_dir env p = fs_op env (t_read_dir p (at env p))"

text \<open>\<^verbatim>\<open>filepath.Abs\<close>: fails only when the working directory cannot be read.\<close>

definition Abs :: "env \<Rightarrow> string \<Rightarrow> string res" where
  "Abs env p =
     (if IsAbs p then Inr (Clean p)
      else if e_getwd_ok env then Inr (Join [slash # joinWith slash (e_cwd env), p])
      else Inl (PathErr ''getwd'' [] ENOENT))"

text \<open>\<^verbatim>\<open>c.HTTP.Do(req)\<close>: the request given to it is recorded, and the network answers. The redirects that
  \<^verbatim>\<open>net/http\<close> follows are part of that answer.\<close>

definition http_do :: "env \<Rightarrow> request \<Rightarrow> http_result act" where
  "http_do env req = State (\<lambda>w.
     (e_http env (length (w_reqs w)) req, w\<lparr>w_reqs := req # w_reqs w\<rparr>))"

text \<open>\<^verbatim>\<open>time.Now()\<close>, read as often as calls were made before.\<close>

definition time_now :: "env \<Rightarrow> string act" where
  "time_now env = State (\<lambda>w. (e_now env (w_ops w), w))"

lemmas os_defs = os_lstat_def os_stat_def os_read_file_def os_write_file_def os_open_write_def
  os_append_def os_close_def os_truncate_def os_rename_def os_remove_def os_remove_all_def
  os_mkdir_all_def os_symlink_def os_readlink_def os_read_dir_def

lemma run_state_fs_op:
  "run_state (fs_op env f) w =
     (let (r, t) = f (e_fault env (w_ops w)) (w_tree w)
      in (r, w\<lparr>w_tree := t, w_ops := Suc (w_ops w)\<rparr>))"
  by (simp add: fs_op_def Let_def split: prod.splits)


subsection \<open>Frames\<close>

definition look :: "world \<Rightarrow> loc \<Rightarrow> node option" where
  "look w l = node_at (w_tree w) l"

lemma look_Nil [simp]: "look w [] = Some DirNode"
  by (simp add: look_def)

text \<open>Outside the locations \<open>L\<close> the files are the same.\<close>

definition frame :: "loc set \<Rightarrow> world \<Rightarrow> world \<Rightarrow> bool" where
  "frame L w w' \<longleftrightarrow> (\<forall>l. l \<notin> L \<longrightarrow> look w' l = look w l)"

interpretation fr: preorder_frame "frame L" for L
  by unfold_locales (auto simp: frame_def)

declare fr.keeps_rules [keeps_intros]

lemma frameD: "frame L w w' \<Longrightarrow> l \<notin> L \<Longrightarrow> look w' l = look w l"
  by (simp add: frame_def)

lemma frame_mono: "frame L w w' \<Longrightarrow> L \<subseteq> M \<Longrightarrow> frame M w w'"
  by (auto simp: frame_def)

lemma keeps_frame_mono: "keeps (frame L) m \<Longrightarrow> L \<subseteq> M \<Longrightarrow> keeps (frame M) m"
  by (erule keeps_mono) (rule frame_mono)

lemma keeps_fs_op:
  assumes "\<And>flt t l. l \<notin> L \<Longrightarrow> node_at (snd (f flt t)) l = node_at t l"
  shows "keeps (frame L) (fs_op env f)"
  by (rule keepsI)
    (use assms in \<open>auto simp: run_state_fs_op frame_def look_def Let_def split: prod.splits;
      metis snd_conv\<close>)

lemma keeps_read_ops [keeps_intros]:
  "keeps (frame L) (os_lstat env p)"
  "keeps (frame L) (os_stat env p)"
  "keeps (frame L) (os_read_file env p)"
  "keeps (frame L) (os_close env p)"
  "keeps (frame L) (os_readlink env p)"
  "keeps (frame L) (os_read_dir env p)"
  by (auto intro!: keeps_fs_op simp: os_defs t_lstat_def t_stat_def t_read_file_def
      t_readlink_def t_read_dir_def split: option.splits node.splits)

lemma node_at_set_node': "k \<noteq> l \<Longrightarrow> node_at (set_node t l n) k = node_at t k"
  by (cases "l = []") (auto simp: node_at_def set_node_def update_conv')

lemma node_at_del_node': "k \<noteq> l \<Longrightarrow> node_at (del_node t l) k = node_at t k"
  by (cases "l = []") (auto simp: node_at_def del_node_def delete_conv')

lemma node_at_set_nodeI: "k \<noteq> l \<Longrightarrow> node_at t k = x \<Longrightarrow> node_at (set_node t l n) k = x"
  by (simp add: node_at_set_node')

lemma node_at_del_nodeI: "k \<noteq> l \<Longrightarrow> node_at t k = x \<Longrightarrow> node_at (del_node t l) k = x"
  by (simp add: node_at_del_node')

lemmas node_at_otherI = node_at_set_nodeI node_at_del_nodeI

lemma keeps_write_file [keeps_intros]:
  "at env p \<in> L \<Longrightarrow> keeps (frame L) (os_write_file env p data perm)"
  by (auto intro!: keeps_fs_op node_at_otherI simp: os_defs t_write_file_def
      split: option.splits sum.splits nat.splits)

lemma keeps_open_write [keeps_intros]:
  "at env p \<in> L \<Longrightarrow> keeps (frame L) (os_open_write env p trunc perm)"
  by (auto intro!: keeps_fs_op node_at_otherI simp: os_defs t_open_write_def
      split: option.splits sum.splits node.splits)

lemma keeps_append [keeps_intros]:
  "at env p \<in> L \<Longrightarrow> keeps (frame L) (os_append env p chunk)"
  by (auto intro!: keeps_fs_op node_at_otherI simp: os_defs t_append_def
      split: option.splits node.splits)

lemma keeps_truncate [keeps_intros]:
  "at env p \<in> L \<Longrightarrow> keeps (frame L) (os_truncate env p n)"
  by (auto intro!: keeps_fs_op node_at_otherI simp: os_defs t_truncate_def
      split: option.splits node.splits)

lemma keeps_rename [keeps_intros]:
  "at env p \<in> L \<Longrightarrow> at env q \<in> L \<Longrightarrow> keeps (frame L) (os_rename env p q)"
  by (auto intro!: keeps_fs_op node_at_otherI simp: os_defs t_rename_def
      split: option.splits node.splits)

lemma keeps_remove [keeps_intros]:
  "at env p \<in> L \<Longrightarrow> keeps (frame L) (os_remove env p)"
  by (auto intro!: keeps_fs_op node_at_otherI simp: os_defs t_remove_def
      split: option.splits node.splits)

lemma keeps_symlink [keeps_intros]:
  "at env p \<in> L \<Longrightarrow> keeps (frame L) (os_symlink env target p)"
  by (auto intro!: keeps_fs_op node_at_otherI simp: os_defs t_symlink_def
      split: option.splits node.splits)

lemma node_at_foldl_del_node:
  "k \<notin> set ls \<Longrightarrow> node_at (foldl del_node t ls) k = node_at t k"
  by (induction ls arbitrary: t) (auto simp: node_at_del_node')

lemma set_entries_under: "set (entries_under t l) \<subseteq> {k. under l k}"
  by (auto simp: entries_under_def)

lemma keeps_remove_all [keeps_intros]:
  assumes "{k. under (at env p) k} \<subseteq> L"
  shows "keeps (frame L) (os_remove_all env p)"
  unfolding os_remove_all_def
proof (rule keeps_fs_op)
  fix flt t l
  assume l: "l \<notin> L"
  with assms have nu: "\<not> under (at env p) l" by auto
  show "node_at (snd (t_remove_all p (at env p) flt t)) l = node_at t l"
  proof (cases flt)
    case None
    with nu show ?thesis
      by (auto simp: t_remove_all_def node_at_def del_under_def map_of_filter_key)
  next
    case (Some k)
    have "l \<notin> set (take k (entries_under t (at env p)))"
      using nu set_entries_under [of t "at env p"] by (auto dest: in_set_takeD)
    with Some show ?thesis
      by (simp add: t_remove_all_def node_at_foldl_del_node)
  qed
qed

lemma node_at_mkdirs:
  "k \<notin> set ds \<Longrightarrow> node_at (snd (mkdirs flt ds t)) k = node_at t k"
  by (induction flt ds t rule: mkdirs.induct)
    (auto simp: node_at_set_node' split: option.splits node.splits nat.splits)

text \<open>\<^verbatim>\<open>MkdirAll\<close> only adds directories where there was nothing.\<close>

lemma mkdirs_only_adds:
  "node_at t k = Some x \<Longrightarrow> node_at (snd (mkdirs flt ds t)) k = Some x"
proof (induction flt ds t rule: mkdirs.induct)
  case (2 flt d ds t)
  have "node_at t d = None \<Longrightarrow> node_at (set_node t d DirNode) k = Some x"
    using "2.prems" by (intro node_at_set_nodeI) auto
  with 2 show ?case
    by (auto split: option.splits node.splits nat.splits)
qed simp

lemma set_prefixes_of: "set (prefixes_of l) = {take n l |n. 0 < n \<and> n \<le> length l}"
  unfolding prefixes_of_def
  by (auto simp: image_def) (metis Suc_le_D Suc_le_eq atLeastLessThan_iff le0)

lemma keeps_mkdir_all [keeps_intros]:
  assumes "set (prefixes_of (at env p)) \<subseteq> L"
  shows "keeps (frame L) (os_mkdir_all env p)"
  unfolding os_mkdir_all_def
proof (rule keeps_fs_op)
  fix flt t l
  assume "l \<notin> L"
  with assms have "l \<notin> set (prefixes_of (at env p))" by auto
  then have "node_at (snd (mkdirs flt (prefixes_of (at env p)) t)) l = node_at t l"
    by (rule node_at_mkdirs)
  then show "node_at (snd (t_mkdir_all p (at env p) flt t)) l = node_at t l"
    by (auto simp: t_mkdir_all_def split: prod.splits option.splits)
qed

lemma keeps_http_do [keeps_intros]: "keeps (frame L) (http_do env req)"
  by (rule keepsI) (auto simp: http_do_def frame_def look_def)

lemma keeps_time_now [keeps_intros]: "keeps (frame L) (time_now env)"
  by (rule keepsI) (auto simp: time_now_def frame_def)


subsection \<open>Effects\<close>

text \<open>What each call did, given its result. \<open>same_files\<close>: the tree did not change.\<close>

definition same_files :: "world \<Rightarrow> world \<Rightarrow> bool" where
  "same_files w w' \<longleftrightarrow> w_tree w' = w_tree w"

lemma same_files_look: "same_files w w' \<Longrightarrow> look w' l = look w l"
  by (simp add: same_files_def look_def)

lemma same_files_refl [simp]: "same_files w w"
  by (simp add: same_files_def)

interpretation sf: preorder_frame same_files
  by unfold_locales (auto simp: same_files_def)

lemma keeps_same_files:
  "keeps same_files (os_lstat env p)"
  "keeps same_files (os_stat env p)"
  "keeps same_files (os_read_file env p)"
  "keeps same_files (os_close env p)"
  "keeps same_files (os_readlink env p)"
  "keeps same_files (os_read_dir env p)"
  "keeps same_files (http_do env req)"
  "keeps same_files (time_now env)"
  by (auto intro!: keepsI simp: os_defs run_state_fs_op Let_def same_files_def t_lstat_def t_stat_def
      t_read_file_def t_readlink_def t_read_dir_def http_do_def time_now_def
      split: option.splits node.splits prod.splits)

lemma os_stat_ok:
  "run_state (os_stat env p) w = (Inr n, w') \<Longrightarrow> look w (at env p) = Some n"
  by (auto simp: os_stat_def run_state_fs_op Let_def t_stat_def look_def
      split: option.splits node.splits prod.splits)

lemma os_read_file_ok:
  "run_state (os_read_file env p) w = (Inr d, w') \<Longrightarrow> \<exists>m. look w (at env p) = Some (FileNode m d)"
  by (auto simp: os_read_file_def run_state_fs_op Let_def t_read_file_def look_def
      split: option.splits node.splits prod.splits)

lemma os_readlink_ok:
  "run_state (os_readlink env p) w = (Inr s, w') \<Longrightarrow> look w (at env p) = Some (LinkNode s)"
  by (auto simp: os_readlink_def run_state_fs_op Let_def t_readlink_def look_def
      split: option.splits node.splits prod.splits)

lemma os_rename_ok:
  assumes "run_state (os_rename env p q) w = (Inr (), w')"
  shows "\<exists>n. look w (at env p) = Some n \<and> n \<noteq> DirNode \<and> look w' (at env q) = Some n \<and>
     look w (at env q) \<noteq> Some DirNode \<and>
     (at env p \<noteq> at env q \<longrightarrow> look w' (at env p) = None)"
proof -
  obtain n where n: "node_at (w_tree w) (at env p) = Some n" "n \<noteq> DirNode"
    and q: "node_at (w_tree w) (at env q) \<noteq> Some DirNode"
    and w': "w_tree w' = set_node (del_node (w_tree w) (at env p)) (at env q) n"
    using assms
    by (auto simp: os_rename_def run_state_fs_op Let_def t_rename_def
        split: option.splits node.splits prod.splits if_splits)
  have "at env p \<noteq> []" "at env q \<noteq> []"
    using n q by auto
  with n q w' show ?thesis
    by (auto simp: look_def)
qed

lemma os_rename_err:
  "run_state (os_rename env p q) w = (Inl e, w') \<Longrightarrow> same_files w w'"
  by (auto simp: os_rename_def run_state_fs_op Let_def t_rename_def same_files_def
      split: option.splits node.splits prod.splits if_splits)

lemma open_mode_not_Nil: "open_mode t l perm = Inr m \<Longrightarrow> l \<noteq> []"
  by (auto simp: open_mode_def)

lemma os_write_file_ok:
  assumes "run_state (os_write_file env p data perm) w = (Inr (), w')"
  shows "\<exists>m. look w' (at env p) = Some (FileNode m data)"
proof -
  obtain m where "open_mode (w_tree w) (at env p) perm = Inr m"
    and "w_tree w' = set_node (w_tree w) (at env p) (FileNode m data)"
    using assms
    by (auto simp: os_write_file_def run_state_fs_op Let_def t_write_file_def
        split: option.splits sum.splits prod.splits nat.splits)
  then show ?thesis
    by (auto simp: look_def dest: open_mode_not_Nil)
qed

lemma os_open_write_ok:
  assumes "run_state (os_open_write env p trunc perm) w = (Inr (), w')"
  shows "\<exists>m. look w' (at env p) = Some (FileNode m
     (if trunc then [] else (case look w (at env p) of Some (FileNode _ d) \<Rightarrow> d | _ \<Rightarrow> [])))"
proof -
  obtain m where m: "open_mode (w_tree w) (at env p) perm = Inr m"
    and w': "w_tree w' = (case node_at (w_tree w) (at env p) of
              Some (FileNode m' d) \<Rightarrow> if trunc then set_node (w_tree w) (at env p) (FileNode m []) else w_tree w
            | _ \<Rightarrow> set_node (w_tree w) (at env p) (FileNode m []))"
    using assms
    by (auto simp: os_open_write_def run_state_fs_op Let_def t_open_write_def
        split: option.splits sum.splits prod.splits)
  from m have "at env p \<noteq> []" by (rule open_mode_not_Nil)
  then show ?thesis
    using m w' by (auto simp: look_def open_mode_def split: option.splits node.splits if_splits)
qed

lemma os_append_ok:
  assumes "run_state (os_append env p chunk) w = (Inr (), w')"
  shows "\<exists>m d. look w (at env p) = Some (FileNode m d) \<and>
     look w' (at env p) = Some (FileNode m (d @ chunk))"
proof -
  obtain m d where "node_at (w_tree w) (at env p) = Some (FileNode m d)"
    and "w_tree w' = set_node (w_tree w) (at env p) (FileNode m (d @ chunk))"
    using assms
    by (auto simp: os_append_def run_state_fs_op Let_def t_append_def
        split: option.splits node.splits prod.splits)
  moreover from this(1) have "at env p \<noteq> []" by auto
  ultimately show ?thesis
    by (auto simp: look_def)
qed

lemma os_append_err:
  assumes "run_state (os_append env p chunk) w = (Inl e, w')"
    and "look w (at env p) = Some (FileNode m d)"
  shows "\<exists>k. look w' (at env p) = Some (FileNode m (d @ take k chunk))"
proof -
  from assms(2) have "at env p \<noteq> []" by auto
  with assms show ?thesis
    by (auto simp: os_append_def run_state_fs_op Let_def t_append_def look_def
        split: option.splits prod.splits)
qed

lemma os_truncate_ok:
  assumes "run_state (os_truncate env p n) w = (Inr (), w')"
  shows "\<exists>m d. look w (at env p) = Some (FileNode m d) \<and>
     look w' (at env p) = Some (FileNode m (take n (d @ replicate (n - length d) 0)))"
proof -
  obtain m d where "node_at (w_tree w) (at env p) = Some (FileNode m d)"
    and "w_tree w' = set_node (w_tree w) (at env p) (FileNode m (take n (d @ replicate (n - length d) 0)))"
    using assms
    by (auto simp: os_truncate_def run_state_fs_op Let_def t_truncate_def
        split: option.splits node.splits prod.splits)
  moreover from this(1) have "at env p \<noteq> []" by auto
  ultimately show ?thesis
    by (auto simp: look_def)
qed

lemma os_truncate_err:
  "run_state (os_truncate env p n) w = (Inl e, w') \<Longrightarrow> same_files w w'"
  by (auto simp: os_truncate_def run_state_fs_op Let_def t_truncate_def same_files_def
      split: option.splits node.splits prod.splits)

lemma os_symlink_ok:
  assumes "run_state (os_symlink env target p) w = (Inr (), w')"
  shows "look w (at env p) = None \<and> look w' (at env p) = Some (LinkNode target)"
proof -
  have "node_at (w_tree w) (at env p) = None"
    and "w_tree w' = set_node (w_tree w) (at env p) (LinkNode target)"
    using assms
    by (auto simp: os_symlink_def run_state_fs_op Let_def t_symlink_def
        split: option.splits node.splits prod.splits if_splits)
  moreover from this(1) have "at env p \<noteq> []" by auto
  ultimately show ?thesis
    by (auto simp: look_def)
qed

lemma os_symlink_err:
  "run_state (os_symlink env target p) w = (Inl e, w') \<Longrightarrow> same_files w w'"
  by (auto simp: os_symlink_def run_state_fs_op Let_def t_symlink_def same_files_def
      split: option.splits node.splits prod.splits if_splits)

lemma os_remove_ok:
  assumes "run_state (os_remove env p) w = (Inr (), w')"
  shows "look w' (at env p) = None"
proof -
  have "at env p \<noteq> []" and "w_tree w' = del_node (w_tree w) (at env p)"
    using assms
    by (auto simp: os_remove_def run_state_fs_op Let_def t_remove_def
        split: option.splits node.splits prod.splits if_splits)
  then show ?thesis
    by (auto simp: look_def)
qed

lemma os_remove_err:
  "run_state (os_remove env p) w = (Inl e, w') \<Longrightarrow> same_files w w'"
  by (auto simp: os_remove_def run_state_fs_op Let_def t_remove_def same_files_def
      split: option.splits node.splits prod.splits if_splits)

lemma os_remove_all_ok:
  assumes "run_state (os_remove_all env p) w = (Inr (), w')" and "at env p \<noteq> []"
    and "under (at env p) k"
  shows "look w' k = None"
  using assms
  by (auto simp: os_remove_all_def run_state_fs_op Let_def t_remove_all_def look_def
      split: option.splits prod.splits)


subsection \<open>The calls' specifications\<close>

text \<open>
  One rule per call for \<open>wp_attemptI\<close> and its kin: the frame, and what the result tells. Used
  with \<open>frame_def\<close>, the frame rewrites every look at another location.
\<close>

lemma wp_keeps: "keeps R m \<Longrightarrow> wp m Q s \<Longrightarrow> wp m (\<lambda>r s'. R s s' \<and> Q r s') s"
  by (rule wp_conj [OF keeps_wp])

lemma same_files_frame: "same_files w w' \<Longrightarrow> frame L w w'"
  by (simp add: frame_def same_files_look)

lemma wp_os_stat:
  "wp (os_stat env p) (\<lambda>r w'. same_files w w' \<and>
     (case r of Inl _ \<Rightarrow> True | Inr n \<Rightarrow> look w (at env p) = Some n)) w"
  by (intro wp_keeps keeps_same_files wpI) (auto split: sum.splits dest: os_stat_ok)

lemma wp_os_read_file:
  "wp (os_read_file env p) (\<lambda>r w'. same_files w w' \<and>
     (case r of Inl _ \<Rightarrow> True | Inr d \<Rightarrow> \<exists>m. look w (at env p) = Some (FileNode m d))) w"
  by (intro wp_keeps keeps_same_files wpI) (auto split: sum.splits dest: os_read_file_ok)

lemma wp_os_readlink:
  "wp (os_readlink env p) (\<lambda>r w'. same_files w w' \<and>
     (case r of Inl _ \<Rightarrow> True | Inr t \<Rightarrow> look w (at env p) = Some (LinkNode t))) w"
  by (intro wp_keeps keeps_same_files wpI) (auto split: sum.splits dest: os_readlink_ok)

lemma wp_os_close: "wp (os_close env p) (\<lambda>r w'. same_files w w') w"
  by (intro keeps_wp keeps_same_files)

lemma wp_http_do: "wp (http_do env req) (\<lambda>r w'. same_files w w') w"
  by (intro keeps_wp keeps_same_files)

lemma wp_os_write_file:
  "wp (os_write_file env p data perm) (\<lambda>r w'. frame {at env p} w w' \<and>
     (case r of Inl _ \<Rightarrow> True | Inr _ \<Rightarrow> \<exists>m. look w' (at env p) = Some (FileNode m data))) w"
  by (intro wp_keeps keeps_write_file wpI) (auto split: sum.splits dest: os_write_file_ok)

lemma wp_os_open_write:
  "wp (os_open_write env p trunc perm) (\<lambda>r w'. frame {at env p} w w' \<and>
     (case r of Inl _ \<Rightarrow> same_files w w' | Inr _ \<Rightarrow> \<exists>m. look w' (at env p) = Some (FileNode m
        (if trunc then [] else (case look w (at env p) of Some (FileNode _ d) \<Rightarrow> d | _ \<Rightarrow> []))))) w"
proof (intro wp_keeps keeps_open_write wpI)
  fix r w'
  assume 1: "run_state (os_open_write env p trunc perm) w = (r, w')"
  show "case r of Inl _ \<Rightarrow> same_files w w' | Inr _ \<Rightarrow> \<exists>m. look w' (at env p) = Some (FileNode m
        (if trunc then [] else (case look w (at env p) of Some (FileNode _ d) \<Rightarrow> d | _ \<Rightarrow> [])))"
  proof (cases r)
    case (Inl e)
    with 1 show ?thesis
      by (auto simp: os_open_write_def run_state_fs_op Let_def t_open_write_def same_files_def
          split: option.splits sum.splits prod.splits)
  next
    case (Inr u)
    then show ?thesis using os_open_write_ok [of env p trunc perm w w'] 1 by simp
  qed
qed simp

lemma wp_os_append:
  "wp (os_append env p chunk) (\<lambda>r w'. frame {at env p} w w' \<and>
     (case r of
        Inl _ \<Rightarrow> (\<forall>m d. look w (at env p) = Some (FileNode m d) \<longrightarrow>
                   (\<exists>k. look w' (at env p) = Some (FileNode m (d @ take k chunk))))
      | Inr _ \<Rightarrow> \<exists>m d. look w (at env p) = Some (FileNode m d) \<and>
                   look w' (at env p) = Some (FileNode m (d @ chunk)))) w"
  by (intro wp_keeps keeps_append wpI) (auto split: sum.splits dest: os_append_ok os_append_err)

lemma wp_os_truncate:
  "wp (os_truncate env p n) (\<lambda>r w'. frame {at env p} w w' \<and>
     (case r of
        Inl _ \<Rightarrow> same_files w w'
      | Inr _ \<Rightarrow> \<exists>m d. look w (at env p) = Some (FileNode m d) \<and>
          look w' (at env p) = Some (FileNode m (take n (d @ replicate (n - length d) 0))))) w"
  by (intro wp_keeps keeps_truncate wpI)
    (auto split: sum.splits dest: os_truncate_ok os_truncate_err)

lemma wp_os_rename:
  "wp (os_rename env p q) (\<lambda>r w'. frame {at env p, at env q} w w' \<and> (case r of
     Inl _ \<Rightarrow> same_files w w'
   | Inr _ \<Rightarrow> \<exists>n. look w (at env p) = Some n \<and> n \<noteq> DirNode \<and> look w' (at env q) = Some n \<and>
       (at env p \<noteq> at env q \<longrightarrow> look w' (at env p) = None))) w"
  by (intro wp_keeps keeps_rename wpI)
    (auto split: sum.splits dest: os_rename_err os_rename_ok)

lemma os_remove_look:
  assumes "run_state (os_remove env p) w = (r, w')"
  shows "look w' (at env p) = look w (at env p) \<or> look w' (at env p) = None"
  using assms by (cases r) (auto dest: os_remove_err same_files_look os_remove_ok)

lemma wp_os_remove:
  "wp (os_remove env p) (\<lambda>r w'. frame {at env p} w w' \<and>
     (look w' (at env p) = look w (at env p) \<or> look w' (at env p) = None) \<and>
     (case r of Inl _ \<Rightarrow> same_files w w' | Inr _ \<Rightarrow> look w' (at env p) = None)) w"
  by (intro wp_keeps keeps_remove wpI conjI)
    (auto split: sum.splits dest: os_remove_err os_remove_ok os_remove_look)

lemma wp_os_symlink:
  "wp (os_symlink env target p) (\<lambda>r w'. frame {at env p} w w' \<and>
     (case r of
        Inl _ \<Rightarrow> same_files w w'
      | Inr _ \<Rightarrow> look w (at env p) = None \<and> look w' (at env p) = Some (LinkNode target))) w"
  by (intro wp_keeps keeps_symlink wpI)
    (auto split: sum.splits dest: os_symlink_err os_symlink_ok)


subsection \<open>Calls that do not fail\<close>

text \<open>What the calls do when nothing outside the program fails.\<close>

definition no_faults :: "env \<Rightarrow> bool" where
  "no_faults env \<longleftrightarrow> e_fault env = (\<lambda>_. None)"

lemma nf_remove:
  assumes "no_faults env" and "look w (at env p) \<noteq> Some DirNode"
  shows "wp (os_remove env p) (\<lambda>_ w'. frame {at env p} w w' \<and> look w' (at env p) = None) w"
proof (rule wp_mono [OF wp_conj [OF wp_os_remove]])
  have "at env p \<noteq> []" using assms(2) by auto
  with assms show "wp (os_remove env p) (\<lambda>_ w'. look w' (at env p) = None) w"
    by (auto intro!: wpI simp: no_faults_def os_remove_def run_state_fs_op Let_def t_remove_def
        look_def split: option.splits prod.splits if_splits)
qed auto

lemma nf_symlink:
  assumes "no_faults env" and "look w (at env p) = None" and "look w (butlast (at env p)) = Some DirNode"
  shows "wp (os_symlink env target p) (\<lambda>r w'. frame {at env p} w w' \<and>
     look w' (at env p) = Some (LinkNode target) \<and> r = Inr ()) w"
proof -
  have "at env p \<noteq> []" using assms(2) by auto
  with assms show ?thesis
    by (auto intro!: wpI simp: no_faults_def os_symlink_def run_state_fs_op Let_def t_symlink_def
        look_def frame_def)
qed

lemma nf_rename:
  assumes "no_faults env" and "look w (at env p) = Some n" and "n \<noteq> DirNode"
    and "look w (at env q) \<noteq> Some DirNode" and "look w (butlast (at env q)) = Some DirNode"
    and "at env p \<noteq> at env q"
  shows "wp (os_rename env p q) (\<lambda>r w'. frame {at env p, at env q} w w' \<and>
     look w' (at env q) = Some n \<and> look w' (at env p) = None \<and> r = Inr ()) w"
proof -
  have "at env p \<noteq> []" "at env q \<noteq> []" using assms by auto
  with assms show ?thesis
    by (cases n) (auto intro!: wpI simp: no_faults_def os_rename_def run_state_fs_op Let_def t_rename_def
        look_def frame_def)
qed

lemma nf_readlink:
  assumes "no_faults env"
  shows "wp (os_readlink env p) (\<lambda>r w'. same_files w w' \<and>
     (case look w (at env p) of Some (LinkNode t) \<Rightarrow> r = Inr t | _ \<Rightarrow> \<not> is_ok r)) w"
  using assms
  by (auto intro!: wpI simp: no_faults_def os_readlink_def run_state_fs_op Let_def t_readlink_def
        look_def same_files_def split: option.splits node.splits)

lemma nf_stat:
  assumes "no_faults env"
  shows "wp (os_stat env p) (\<lambda>r w'. same_files w w' \<and>
     (case look w (at env p) of
        Some DirNode \<Rightarrow> r = Inr DirNode | Some (FileNode m d) \<Rightarrow> r = Inr (FileNode m d)
      | _ \<Rightarrow> \<not> is_ok r)) w"
  using assms
  by (auto intro!: wpI simp: no_faults_def os_stat_def run_state_fs_op Let_def t_stat_def
        look_def same_files_def split: option.splits node.splits)

lemma nf_write_file:
  assumes "no_faults env" and "look w (butlast (at env p)) = Some DirNode"
    and "look w (at env p) = None \<or> (\<exists>m d. look w (at env p) = Some (FileNode m d))"
  shows "wp (os_write_file env p data perm) (\<lambda>r w'. frame {at env p} w w' \<and> r = Inr () \<and>
     (\<exists>m. look w' (at env p) = Some (FileNode m data))) w"
proof -
  have "at env p \<noteq> []" using assms(3) by auto
  with assms show ?thesis
    by (auto intro!: wpI simp: no_faults_def os_write_file_def run_state_fs_op Let_def t_write_file_def
        open_mode_def look_def frame_def split: option.splits node.splits)
qed

lemma nf_read_file:
  assumes "no_faults env" and "look w (at env p) = Some (FileNode m d)"
  shows "wp (os_read_file env p) (\<lambda>r w'. same_files w w' \<and> r = Inr d) w"
  using assms
  by (auto intro!: wpI simp: no_faults_def os_read_file_def run_state_fs_op Let_def t_read_file_def
        look_def same_files_def)

lemma nf_close: "no_faults env \<Longrightarrow> wp (os_close env p) (\<lambda>r w'. same_files w w' \<and> r = Inr ()) w"
  by (auto intro!: wpI simp: no_faults_def os_close_def run_state_fs_op Let_def same_files_def)

lemma nf_truncate:
  assumes "no_faults env" and "look w (at env p) = Some (FileNode m d)"
  shows "wp (os_truncate env p n) (\<lambda>r w'. frame {at env p} w w' \<and> r = Inr () \<and>
     look w' (at env p) = Some (FileNode m (take n (d @ replicate (n - length d) 0)))) w"
proof -
  have "at env p \<noteq> []" using assms(2) by auto
  with assms show ?thesis
    by (auto intro!: wpI simp: no_faults_def os_truncate_def run_state_fs_op Let_def t_truncate_def
        look_def frame_def)
qed

text \<open>Truncating a file that is not there, in a directory that is.\<close>

lemma nf_truncate_missing:
  assumes "no_faults env" and "look w (at env p) = None"
    and "\<forall>i < length (at env p). look w (take i (at env p)) = Some DirNode"
  shows "wp (os_truncate env p n) (\<lambda>r w'. same_files w w' \<and> (\<exists>e. r = Inl e \<and> is_not_exist e)) w"
proof -
  have "miss (w_tree w) (at env p) = ENOENT"
    using assms(3) by (simp add: miss_def list_ex_iff look_def)
  with assms(1,2) show ?thesis
    by (auto intro!: wpI simp: no_faults_def os_truncate_def run_state_fs_op Let_def t_truncate_def
        look_def same_files_def)
qed

lemma nf_open_write:
  assumes "no_faults env" and "look w (butlast (at env p)) = Some DirNode"
    and "look w (at env p) = None \<or> (\<exists>m d. look w (at env p) = Some (FileNode m d))"
  shows "wp (os_open_write env p trunc perm) (\<lambda>r w'. frame {at env p} w w' \<and> r = Inr () \<and>
     (\<exists>m. look w' (at env p) = Some (FileNode m
        (if trunc then [] else (case look w (at env p) of Some (FileNode _ d) \<Rightarrow> d | _ \<Rightarrow> []))))) w"
proof -
  have "at env p \<noteq> []" using assms(3) by auto
  with assms show ?thesis
    by (auto intro!: wpI simp: no_faults_def os_open_write_def run_state_fs_op Let_def t_open_write_def
        open_mode_def look_def frame_def)
qed

lemma nf_append:
  assumes "no_faults env" and "look w (at env p) = Some (FileNode m d)"
  shows "wp (os_append env p chunk) (\<lambda>r w'. frame {at env p} w w' \<and> r = Inr () \<and>
     look w' (at env p) = Some (FileNode m (d @ chunk))) w"
proof -
  have "at env p \<noteq> []" using assms(2) by auto
  with assms show ?thesis
    by (auto intro!: wpI simp: no_faults_def os_append_def run_state_fs_op Let_def t_append_def
        look_def frame_def)
qed

end
