(* ===== verification/Platform.thy ===== *)
theory Platform
  imports OS
begin

section \<open>client/internal/platform: the link to the active distribution\<close>

text \<open>
  Models \<^verbatim>\<open>client/internal/platform\<close>: the \<open>current\<close> link is a symbolic link or, where none
  can be made, a text file \<open><link>.path\<close> (the shim). The operations are the code's; the
  lemmas say what a successful call establishes, which locations each call can touch, and
  that no failure or crash leaves a target visible that was neither there before nor the
  requested one.
\<close>

definition shimSuffix :: string where
  "shimSuffix = ''.path''"

datatype kind = KindNone | KindSymlink | KindShim

fun Kind_String :: "kind \<Rightarrow> string" where
  "Kind_String KindSymlink = ''symlink''"
| "Kind_String KindShim = ''shim''"
| "Kind_String KindNone = ''none''"

definition newline :: string where
  "newline = [CHR 0x0A]"

definition writeShim :: "env \<Rightarrow> string \<Rightarrow> string \<Rightarrow> unit res act" where
  "writeShim env path target = do {
     let tmp = path @ ''.tmp'';
     attempt (os_write_file env tmp (bytes_of (target @ newline)) 420) (\<lambda>_. do {
       r \<leftarrow> os_rename env tmp path;
       case r of
         Inl e \<Rightarrow> do { _ \<leftarrow> os_remove env tmp; fail e }
       | Inr _ \<Rightarrow> ok () }) }"

definition SetCurrent :: "env \<Rightarrow> string \<Rightarrow> string \<Rightarrow> kind res act" where
  "SetCurrent env target link =
     (case Abs env target of
        Inl e \<Rightarrow> fail e
      | Inr dest \<Rightarrow> do {
          _ \<leftarrow> os_remove env link;
          _ \<leftarrow> os_remove env (link @ shimSuffix);
          let tmp = link @ ''.tmp'';
          _ \<leftarrow> os_remove env tmp;
          let shim = attempt (writeShim env (link @ shimSuffix) dest) (\<lambda>_. ok KindShim);
          r \<leftarrow> os_symlink env dest tmp;
          case r of
            Inl _ \<Rightarrow> shim
          | Inr _ \<Rightarrow> do {
              r' \<leftarrow> os_rename env tmp link;
              case r' of
                Inr _ \<Rightarrow> ok KindSymlink
              | Inl _ \<Rightarrow> do { _ \<leftarrow> os_remove env tmp; shim } } })"

definition shim_trim :: string where
  "shim_trim = [CHR 0x0D, CHR 0x0A, CHR 0x20, CHR 0x09]"

definition ReadCurrent :: "env \<Rightarrow> string \<Rightarrow> string res act" where
  "ReadCurrent env link = do {
     r \<leftarrow> os_readlink env link;
     case r of
       Inr t \<Rightarrow> ok t
     | Inl _ \<Rightarrow> do {
         d \<leftarrow> os_read_file env (link @ shimSuffix);
         case d of
           Inr data \<Rightarrow> ok (trimRight (string_of data) shim_trim)
         | Inl _ \<Rightarrow> fail ErrNotExist } }"

definition SwapCurrentToPrevious :: "env \<Rightarrow> string \<Rightarrow> string \<Rightarrow> unit res act" where
  "SwapCurrentToPrevious env currentLink previousLink = do {
     r \<leftarrow> os_readlink env currentLink;
     case r of
       Inr _ \<Rightarrow> do {
         _ \<leftarrow> os_remove env previousLink;
         _ \<leftarrow> os_remove env (previousLink @ shimSuffix);
         os_rename env currentLink previousLink }
     | Inl _ \<Rightarrow> do {
         let currentShim = currentLink @ shimSuffix;
         s \<leftarrow> os_stat env currentShim;
         case s of
           Inr _ \<Rightarrow> do {
             _ \<leftarrow> os_remove env previousLink;
             _ \<leftarrow> os_remove env (previousLink @ shimSuffix);
             os_rename env currentShim (previousLink @ shimSuffix) }
         | Inl _ \<Rightarrow> ok () } }"

definition isCaseInsensitiveFS :: "env \<Rightarrow> bool" where
  "isCaseInsensitiveFS env = e_darwin env"

text \<open>On Windows (\<^verbatim>\<open>platform_windows.go\<close>) paths are always compared without regard to case.\<close>

definition isCaseInsensitiveFS_windows :: "env \<Rightarrow> bool" where
  "isCaseInsensitiveFS_windows env = True"

definition PathEqual :: "env \<Rightarrow> string \<Rightarrow> string \<Rightarrow> bool" where
  "PathEqual env a b = (if isCaseInsensitiveFS env then equalFold a b else a = b)"

text \<open>\<^verbatim>\<open>platform_windows.go\<close>; the POSIX version is the identity.\<close>

definition backslash :: char where
  "backslash = CHR 0x5C"

definition LongPath :: "string \<Rightarrow> string" where
  "LongPath p =
     (if hasPrefix p [backslash, backslash, CHR ''?'', backslash] \<or>
         hasPrefix p [backslash, backslash, CHR ''.'', backslash] then p
      else if hasPrefix p [backslash, backslash]
      then [backslash, backslash, CHR ''?'', backslash] @ ''UNC'' @ [backslash]
             @ trimPrefix p [backslash, backslash]
      else if 2 \<le> length p \<and> p ! 1 = CHR '':''
      then [backslash, backslash, CHR ''?'', backslash] @ p
      else p)"

definition LongPath_unix :: "string \<Rightarrow> string" where
  "LongPath_unix p = p"


subsection \<open>Locations\<close>

lemma shimSuffix_no_slash [simp]: "slash \<notin> set shimSuffix"
  by (simp add: shimSuffix_def)

lemma shimSuffix_not_Nil [simp]: "shimSuffix \<noteq> []"
  by (simp add: shimSuffix_def)

text \<open>The locations that setting a link may touch.\<close>

definition link_locs :: "env \<Rightarrow> string \<Rightarrow> loc set" where
  "link_locs env link =
     {at env link, at env (link @ shimSuffix), at env (link @ ''.tmp''),
      at env (link @ shimSuffix @ ''.tmp'')}"

lemma keeps_writeShim [keeps_intros]:
  "at env p \<in> L \<Longrightarrow> at env (p @ ''.tmp'') \<in> L \<Longrightarrow> keeps (frame L) (writeShim env p target)"
  unfolding writeShim_def Let_def by (intro keeps_intros; assumption)

lemma keeps_SetCurrent [keeps_intros]:
  "link_locs env link \<subseteq> L \<Longrightarrow> keeps (frame L) (SetCurrent env target link)"
  unfolding SetCurrent_def Let_def link_locs_def by (intro keeps_intros; simp)

lemma keeps_ReadCurrent: "keeps same_files (ReadCurrent env link)"
  unfolding ReadCurrent_def by (intro sf.keeps_rules keeps_same_files)

lemma keeps_Swap [keeps_intros]:
  "{at env c, at env (c @ shimSuffix), at env p, at env (p @ shimSuffix)} \<subseteq> L \<Longrightarrow>
   keeps (frame L) (SwapCurrentToPrevious env c p)"
  unfolding SwapCurrentToPrevious_def Let_def by (intro keeps_intros; simp)


subsection \<open>What is visible through a link\<close>

text \<open>
  The target of the symbolic link and the one in the shim. \<open>ReadCurrent\<close> answers with one of
  \<open>targets\<close>; \<open>pointer\<close> is what it answers when no call fails.
\<close>

definition link_target :: "node option \<Rightarrow> string option" where
  "link_target n = (case n of Some (LinkNode t) \<Rightarrow> Some t | _ \<Rightarrow> None)"

definition shim_target :: "node option \<Rightarrow> string option" where
  "shim_target n =
     (case n of Some (FileNode _ d) \<Rightarrow> Some (trimRight (string_of d) shim_trim) | _ \<Rightarrow> None)"

definition targets :: "env \<Rightarrow> string \<Rightarrow> world \<Rightarrow> string set" where
  "targets env link w =
     set_option (link_target (look w (at env link))) \<union>
     set_option (shim_target (look w (at env (link @ shimSuffix))))"

definition pointer :: "env \<Rightarrow> string \<Rightarrow> world \<Rightarrow> string option" where
  "pointer env link w =
     (case link_target (look w (at env link)) of
        Some t \<Rightarrow> Some t
      | None \<Rightarrow> shim_target (look w (at env (link @ shimSuffix))))"

lemma pointer_in_targets: "pointer env link w = Some t \<Longrightarrow> t \<in> targets env link w"
  by (auto simp: pointer_def targets_def split: option.splits)

lemma targets_Nil_iff_pointer: "targets env link w = {} \<longleftrightarrow> pointer env link w = None"
  by (auto simp: pointer_def targets_def split: option.splits)

lemma targets_same:
  "look w' (at env link) = look w (at env link) \<Longrightarrow>
   look w' (at env (link @ shimSuffix)) = look w (at env (link @ shimSuffix)) \<Longrightarrow>
   targets env link w' = targets env link w"
  by (simp add: targets_def)

lemma pointer_same:
  "look w' (at env link) = look w (at env link) \<Longrightarrow>
   look w' (at env (link @ shimSuffix)) = look w (at env (link @ shimSuffix)) \<Longrightarrow>
   pointer env link w' = pointer env link w"
  by (simp add: pointer_def split: option.splits)

lemma shim_target_written [simp]:
  "shim_target (Some (FileNode m (bytes_of (t @ newline)))) = Some (trimRight t shim_trim)"
proof -
  have "trimRight (t @ newline) shim_trim = trimRight t shim_trim"
    by (rule trimRight_append_cut) (simp add: newline_def shim_trim_def)
  then show ?thesis by (simp add: shim_target_def del: bytes_of_append)
qed

lemma link_target_simps [simp]:
  "link_target (Some (LinkNode t)) = Some t" "link_target None = None"
  "link_target (Some (FileNode m d)) = None" "link_target (Some DirNode) = None"
  by (simp_all add: link_target_def)

lemma shim_target_simps [simp]:
  "shim_target (Some (LinkNode t)) = None" "shim_target None = None" "shim_target (Some DirNode) = None"
  by (simp_all add: shim_target_def)

lemma ReadCurrent_in_targets:
  assumes "run_state (ReadCurrent env link) w = (Inr t, w')"
  shows "t \<in> targets env link w"
proof -
  obtain r1 w1 where 1: "run_state (os_readlink env link) w = (r1, w1)" by fastforce
  show ?thesis
  proof (cases r1)
    case (Inr s)
    with 1 have "look w (at env link) = Some (LinkNode s)"
      by (auto dest: os_readlink_ok)
    moreover have "s = t"
      using assms 1 Inr by (simp add: ReadCurrent_def)
    ultimately show ?thesis by (simp add: targets_def)
  next
    case (Inl e)
    obtain r2 w2 where 2: "run_state (os_read_file env (link @ shimSuffix)) w1 = (r2, w2)"
      by fastforce
    with assms 1 Inl obtain d where d: "r2 = Inr d" "t = trimRight (string_of d) shim_trim"
      by (cases r2) (auto simp: ReadCurrent_def)
    have "same_files w w1"
      using keeps_same_files(5) 1 by (rule keepsD)
    moreover obtain m where "look w1 (at env (link @ shimSuffix)) = Some (FileNode m d)"
      using 2 d by (auto dest: os_read_file_ok)
    ultimately have "look w (at env (link @ shimSuffix)) = Some (FileNode m d)"
      by (simp add: same_files_look)
    with d show ?thesis by (simp add: targets_def shim_target_def)
  qed
qed

lemma ReadCurrent_pointer:
  assumes "\<forall>n. e_fault env n = None"
  shows "fst (run_state (ReadCurrent env link) w) =
    (case pointer env link w of Some t \<Rightarrow> Inr t | None \<Rightarrow> Inl ErrNotExist)"
  using assms
  by (simp add: ReadCurrent_def os_defs run_state_fs_op Let_def t_readlink_def t_read_file_def
      pointer_def link_target_def shim_target_def look_def split: option.splits node.splits)

subsection \<open>Specifications of the operations\<close>

lemma wp_writeShim:
  assumes "named p"
  shows "wp (writeShim env p target) (\<lambda>r w'. frame {at env p, at env (p @ ''.tmp'')} w w' \<and>
     (case r of
        Inr _ \<Rightarrow> \<exists>m. look w' (at env p) = Some (FileNode m (bytes_of (target @ newline)))
      | Inl _ \<Rightarrow> look w' (at env p) = look w (at env p))) w"
proof (rule wp_keeps)
  show "keeps (frame {at env p, at env (p @ ''.tmp'')}) (writeShim env p target)"
    by (intro keeps_intros) auto
  have ne [simp]: "at env (p @ ''.tmp'') \<noteq> at env p" "at env p \<noteq> at env (p @ ''.tmp'')"
    using assms by (simp_all add: loc_of_suffix_eq_self)
  show "wp (writeShim env p target) (\<lambda>r w'. case r of
        Inr _ \<Rightarrow> \<exists>m. look w' (at env p) = Some (FileNode m (bytes_of (target @ newline)))
      | Inl _ \<Rightarrow> look w' (at env p) = look w (at env p)) w"
    unfolding writeShim_def Let_def
    apply (rule wp_attemptI [OF wp_os_write_file])
     apply (simp add: frame_def)
    apply (rule wp_bindI [OF wp_os_rename])
    apply (simp split: sum.split add: wp_simps)
    apply (intro conjI allI impI)
     apply (rule wp_mono [OF wp_os_remove])
     apply (auto simp: frame_def same_files_look wp_simps)
    done
qed


lemma link_locs_distinct [simp]:
  assumes "named link"
  shows "at env link \<noteq> at env (link @ shimSuffix)" "at env (link @ shimSuffix) \<noteq> at env link"
    "at env link \<noteq> at env (link @ ''.tmp'')" "at env (link @ ''.tmp'') \<noteq> at env link"
    "at env (link @ shimSuffix) \<noteq> at env (link @ ''.tmp'')"
    "at env (link @ ''.tmp'') \<noteq> at env (link @ shimSuffix)"
    "at env (link @ shimSuffix @ ''.tmp'') \<noteq> at env link"
    "at env link \<noteq> at env (link @ shimSuffix @ ''.tmp'')"
    "at env (link @ shimSuffix @ ''.tmp'') \<noteq> at env (link @ shimSuffix)"
    "at env (link @ shimSuffix) \<noteq> at env (link @ shimSuffix @ ''.tmp'')"
  using assms
  by (simp_all add: loc_of_suffix_eq_iff loc_of_suffix_eq_self shimSuffix_def)

lemma wp_remove_targets:
  "wp (os_remove env p) (\<lambda>_ w'. targets env link w' \<subseteq> targets env link w) w"
proof (rule wp_mono [OF wp_os_remove])
  fix r :: "unit res" and w'
  assume *: "frame {at env p} w w' \<and>
     (look w' (at env p) = look w (at env p) \<or> look w' (at env p) = None) \<and>
     (case r of Inl _ \<Rightarrow> same_files w w' | Inr _ \<Rightarrow> look w' (at env p) = None)"
  have "look w' l = look w l \<or> look w' l = None" for l
    using * by (cases "l = at env p") (auto simp: frame_def)
  then have "look w' (at env link) = look w (at env link) \<or> look w' (at env link) = None"
    and "look w' (at env (link @ shimSuffix)) = look w (at env (link @ shimSuffix)) \<or>
         look w' (at env (link @ shimSuffix)) = None"
    by this+
  then show "targets env link w' \<subseteq> targets env link w"
    by (elim disjE) (simp_all add: targets_def subset_iff)
qed

text \<open>What a call to \<open>SetCurrent\<close> that starts in \<open>w\<close> and ends in \<open>w'\<close> may have done.\<close>

definition set_current_post :: "env \<Rightarrow> string \<Rightarrow> string \<Rightarrow> world \<Rightarrow> kind res \<Rightarrow> world \<Rightarrow> bool" where
  "set_current_post env link dest w r w' \<longleftrightarrow>
     targets env link w' \<subseteq> targets env link w \<union> {dest, trimRight dest shim_trim} \<and>
     (case r of
        Inl _ \<Rightarrow> True
      | Inr KindNone \<Rightarrow> False
      | Inr KindSymlink \<Rightarrow> look w' (at env link) = Some (LinkNode dest)
      | Inr KindShim \<Rightarrow> (\<exists>m. look w' (at env (link @ shimSuffix)) =
                              Some (FileNode m (bytes_of (dest @ newline)))))"

lemma set_current_post_mono:
  "set_current_post env link dest w1 r w' \<Longrightarrow> targets env link w1 \<subseteq> targets env link w \<Longrightarrow>
   set_current_post env link dest w r w'"
  unfolding set_current_post_def by blast

lemma wp_shim_fallback:
  assumes "named link"
  shows "wp (attempt (writeShim env (link @ shimSuffix) dest) (\<lambda>_. ok KindShim))
           (set_current_post env link dest w) w"
proof (rule wp_attemptI [OF wp_writeShim])
  show "named (link @ shimSuffix)"
    using assms by (simp add: named_append)
next
  fix e :: goerr and w'
  assume "frame {at env (link @ shimSuffix), at env ((link @ shimSuffix) @ ''.tmp'')} w w' \<and>
    (case (Inl e :: unit res) of
       Inr _ \<Rightarrow> \<exists>m. look w' (at env (link @ shimSuffix)) = Some (FileNode m (bytes_of (dest @ newline)))
     | Inl _ \<Rightarrow> look w' (at env (link @ shimSuffix)) = look w (at env (link @ shimSuffix)))"
  then have "targets env link w' = targets env link w"
    using assms by (intro targets_same) (auto simp: frame_def)
  then show "set_current_post env link dest w (Inl e) w'"
    by (auto simp add: set_current_post_def)
next
  fix u :: unit and w'
  assume *: "frame {at env (link @ shimSuffix), at env ((link @ shimSuffix) @ ''.tmp'')} w w' \<and>
    (case (Inr u :: unit res) of
       Inr _ \<Rightarrow> \<exists>m. look w' (at env (link @ shimSuffix)) = Some (FileNode m (bytes_of (dest @ newline)))
     | Inl _ \<Rightarrow> look w' (at env (link @ shimSuffix)) = look w (at env (link @ shimSuffix)))"
  then obtain m where m: "look w' (at env (link @ shimSuffix)) = Some (FileNode m (bytes_of (dest @ newline)))"
    by auto
  have "look w' (at env link) = look w (at env link)"
    using * assms by (auto simp: frame_def)
  with m have "targets env link w' \<subseteq> targets env link w \<union> {trimRight dest shim_trim}"
    unfolding targets_def by (auto simp del: bytes_of_append)
  with m show "wp (ok KindShim) (set_current_post env link dest w) w'"
    by (auto simp: wp_simps set_current_post_def)
qed

lemma wp_SetCurrent:
  assumes "named link" and dest: "Abs env target = Inr dest"
  shows "wp (SetCurrent env target link)
    (\<lambda>r w'. frame (link_locs env link) w w' \<and> set_current_post env link dest w r w') w"
proof (rule wp_keeps)
  show "keeps (frame (link_locs env link)) (SetCurrent env target link)"
    by (intro keeps_intros) auto
  show "wp (SetCurrent env target link) (set_current_post env link dest w) w"
    unfolding SetCurrent_def dest sum.case Let_def
  proof (rule wp_bindI [OF wp_remove_targets [where link = link]],
      rule wp_bindI [OF wp_remove_targets [where link = link]],
      rule wp_bindI [OF wp_remove_targets [where link = link]],
      rule wp_bindI [OF wp_os_symlink])
    fix w1 w2 w3 w4 and r :: "unit res"
    assume le: "targets env link w1 \<subseteq> targets env link w" "targets env link w2 \<subseteq> targets env link w1"
      "targets env link w3 \<subseteq> targets env link w2"
      and sym: "frame {at env (link @ ''.tmp'')} w3 w4 \<and> (case r of
          Inl _ \<Rightarrow> same_files w3 w4
        | Inr _ \<Rightarrow> look w3 (at env (link @ ''.tmp'')) = None \<and>
            look w4 (at env (link @ ''.tmp'')) = Some (LinkNode dest))"
    have eq4: "targets env link w4 = targets env link w3"
      using sym assms(1) by (intro targets_same) (auto simp: frame_def)
    let ?shim = "attempt (writeShim env (link @ shimSuffix) dest) (\<lambda>_. ok KindShim)"
    have fallback: "wp ?shim (set_current_post env link dest w) w'"
      if "targets env link w' \<subseteq> targets env link w4" for w'
      by (rule wp_mono [OF wp_shim_fallback [OF assms(1)]],
          rule set_current_post_mono [of env link dest w']) (use that le eq4 in auto)
    show "wp (case r of Inl _ \<Rightarrow> ?shim
        | Inr _ \<Rightarrow> do {
            r' \<leftarrow> os_rename env (link @ ''.tmp'') link;
            case r' of Inl _ \<Rightarrow> do { _ \<leftarrow> os_remove env (link @ ''.tmp''); ?shim }
            | Inr _ \<Rightarrow> ok KindSymlink }) (set_current_post env link dest w) w4"
    proof (cases r)
      case (Inl e)
      then show ?thesis by (simp add: fallback)
    next
      case (Inr u)
      have "wp (do {
            r' \<leftarrow> os_rename env (link @ ''.tmp'') link;
            case r' of Inl _ \<Rightarrow> do { _ \<leftarrow> os_remove env (link @ ''.tmp''); ?shim }
            | Inr _ \<Rightarrow> ok KindSymlink }) (set_current_post env link dest w) w4"
      proof (rule wp_bindI [OF wp_os_rename])
        fix r' :: "unit res" and w5
        assume ren: "frame {at env (link @ ''.tmp''), at env link} w4 w5 \<and> (case r' of
            Inl _ \<Rightarrow> same_files w4 w5
          | Inr _ \<Rightarrow> \<exists>n. look w4 (at env (link @ ''.tmp'')) = Some n \<and> n \<noteq> DirNode \<and>
              look w5 (at env link) = Some n \<and>
              (at env (link @ ''.tmp'') \<noteq> at env link \<longrightarrow> look w5 (at env (link @ ''.tmp'')) = None))"
        show "wp (case r' of Inl _ \<Rightarrow> do { _ \<leftarrow> os_remove env (link @ ''.tmp''); ?shim }
            | Inr _ \<Rightarrow> ok KindSymlink) (set_current_post env link dest w) w5"
        proof (cases r')
          case (Inl e)
          with ren have "targets env link w5 = targets env link w4"
            by (intro targets_same) (simp_all add: same_files_look)
          then have "wp (do { _ \<leftarrow> os_remove env (link @ ''.tmp''); ?shim })
              (set_current_post env link dest w) w5"
            by (intro wp_bindI [OF wp_remove_targets [where link = link]] fallback) auto
          with Inl show ?thesis by simp
        next
          case (Inr v)
          have l5: "look w5 (at env link) = Some (LinkNode dest)"
            using ren sym Inr \<open>r = Inr u\<close> by auto
          have "look w5 (at env (link @ shimSuffix)) = look w4 (at env (link @ shimSuffix))"
            using ren assms(1) by (auto simp: frame_def)
          with l5 have "targets env link w5 \<subseteq> targets env link w4 \<union> {dest}"
            unfolding targets_def by auto
          with le eq4 have "targets env link w5 \<subseteq> targets env link w \<union> {dest, trimRight dest shim_trim}"
            by blast
          with l5 Inr show ?thesis
            by (simp add: wp_simps set_current_post_def)
        qed
      qed
      with Inr show ?thesis by simp
    qed
  qed
qed


text \<open>
  Moving \<open>current\<close> to \<open>previous\<close>, on every branch: \<open>current\<close> only loses targets, \<open>previous\<close>
  only gains those of \<open>current\<close>.
\<close>

definition links_apart :: "env \<Rightarrow> string \<Rightarrow> string \<Rightarrow> bool" where
  "links_apart env c p \<longleftrightarrow> named c \<and> named p \<and>
     {at env c, at env (c @ shimSuffix)} \<inter> {at env p, at env (p @ shimSuffix)} = {}"

definition swap_post :: "env \<Rightarrow> string \<Rightarrow> string \<Rightarrow> world \<Rightarrow> world \<Rightarrow> bool" where
  "swap_post env c p w w' \<longleftrightarrow>
     targets env c w' \<subseteq> targets env c w \<and>
     targets env p w' \<subseteq> targets env p w \<union> targets env c w"

lemma swap_post_trans:
  "swap_post env c p w w1 \<Longrightarrow> swap_post env c p w1 w' \<Longrightarrow> swap_post env c p w w'"
  unfolding swap_post_def by blast

lemma swap_post_same_files: "same_files w w' \<Longrightarrow> swap_post env c p w w'"
  by (simp add: swap_post_def targets_def same_files_look)

interpretation sw: preorder_frame "swap_post env c p" for env c p
  by unfold_locales (auto simp: swap_post_def)

lemma keeps_swap_remove: "keeps (swap_post env c p) (os_remove env q)"
proof (rule keepsI)
  fix w r w'
  assume "run_state (os_remove env q) w = (r, w')"
  then have "targets env x w' \<subseteq> targets env x w" for x
    using wp_remove_targets [of env q x w] by (auto dest: wpD)
  then show "swap_post env c p w w'" unfolding swap_post_def by blast
qed

lemma rename_link_swap:
  assumes "links_apart env c p" and "run_state (os_rename env c p) w = (r, w')"
  shows "swap_post env c p w w'"
proof -
  have *: "frame {at env c, at env p} w w' \<and> (case r of
     Inl _ \<Rightarrow> same_files w w'
   | Inr _ \<Rightarrow> \<exists>n. look w (at env c) = Some n \<and> n \<noteq> DirNode \<and> look w' (at env p) = Some n \<and>
       (at env c \<noteq> at env p \<longrightarrow> look w' (at env c) = None))"
    by (rule wpD [OF wp_os_rename assms(2)])
  show ?thesis
  proof (cases r)
    case (Inl e)
    with * show ?thesis by (simp add: swap_post_same_files)
  next
    case (Inr u)
    with * assms(1) show ?thesis
      by (auto simp: swap_post_def targets_def links_apart_def frame_def)
  qed
qed

lemma rename_shim_swap:
  assumes "links_apart env c p"
    and "run_state (os_rename env (c @ shimSuffix) (p @ shimSuffix)) w = (r, w')"
  shows "swap_post env c p w w'"
proof -
  have *: "frame {at env (c @ shimSuffix), at env (p @ shimSuffix)} w w' \<and> (case r of
     Inl _ \<Rightarrow> same_files w w'
   | Inr _ \<Rightarrow> \<exists>n. look w (at env (c @ shimSuffix)) = Some n \<and> n \<noteq> DirNode \<and>
       look w' (at env (p @ shimSuffix)) = Some n \<and>
       (at env (c @ shimSuffix) \<noteq> at env (p @ shimSuffix) \<longrightarrow> look w' (at env (c @ shimSuffix)) = None))"
    by (rule wpD [OF wp_os_rename assms(2)])
  show ?thesis
  proof (cases r)
    case (Inl e)
    with * show ?thesis by (simp add: swap_post_same_files)
  next
    case (Inr u)
    with * assms(1) show ?thesis
      by (auto simp: swap_post_def targets_def links_apart_def frame_def)
  qed
qed

lemma keeps_swap_post:
  assumes "links_apart env c p"
  shows "keeps (swap_post env c p) (SwapCurrentToPrevious env c p)"
proof -
  have "keeps (swap_post env c p) (os_readlink env c)" "keeps (swap_post env c p) (os_stat env q)" for q
    by (auto intro: keeps_mono [OF keeps_same_files(5)] keeps_mono [OF keeps_same_files(2)]
        swap_post_same_files)
  moreover have "keeps (swap_post env c p) (os_rename env c p)"
    "keeps (swap_post env c p) (os_rename env (c @ shimSuffix) (p @ shimSuffix))"
    using assms by (auto intro: keepsI rename_link_swap rename_shim_swap)
  ultimately show ?thesis
    unfolding SwapCurrentToPrevious_def Let_def
    by (intro sw.keeps_rules keeps_swap_remove)
qed


subsection \<open>When no call fails\<close>

definition no_dirs :: "loc set \<Rightarrow> world \<Rightarrow> bool" where
  "no_dirs L w \<longleftrightarrow> (\<forall>l \<in> L. look w l \<noteq> Some DirNode)"

lemma parent_suffix: "named p \<Longrightarrow> slash \<notin> set s \<Longrightarrow> butlast (at env (p @ s)) = butlast (at env p)"
  by (simp add: loc_of_named_suffix)

lemma parent_not_self: "named p \<Longrightarrow> slash \<notin> set s \<Longrightarrow> butlast (at env p) \<noteq> at env (p @ s)"
  by (simp add: loc_of_named_suffix)

lemma nf_SetCurrent:
  assumes nf: "no_faults env" and n: "named link" and dest: "Abs env target = Inr dest"
    and dir: "look w (butlast (at env link)) = Some DirNode" and nd: "no_dirs (link_locs env link) w"
  shows "wp (SetCurrent env target link) (\<lambda>r w'. r = Inr KindSymlink \<and>
     pointer env link w' = Some dest \<and> targets env link w' = {dest}) w"
proof -
  let ?a = "at env link" and ?s = "at env (link @ shimSuffix)" and ?t = "at env (link @ ''.tmp'')"
  have ne: "?a \<noteq> ?s" "?a \<noteq> ?t" "?s \<noteq> ?t" using n by simp_all
  have par: "butlast ?t = butlast ?a" using n by (simp add: parent_suffix)
  have up: "butlast ?a \<noteq> ?a" "butlast ?a \<noteq> ?s" "butlast ?a \<noteq> ?t"
    using parent_not_self [OF n, of "[]"] parent_not_self [OF n, of shimSuffix]
      parent_not_self [OF n, of "''.tmp''"] by simp_all
  have nds: "look w ?a \<noteq> Some DirNode" "look w ?s \<noteq> Some DirNode" "look w ?t \<noteq> Some DirNode"
    using nd by (simp_all add: no_dirs_def link_locs_def)
  show ?thesis
    unfolding SetCurrent_def dest sum.case Let_def
    apply (rule wp_bindI [OF nf_remove [OF nf nds(1)]])
    apply (rule wp_bindI [OF nf_remove [OF nf]])
     apply (use nds ne in \<open>simp add: frame_def\<close>)
    apply (rule wp_bindI [OF nf_remove [OF nf]])
     apply (use nds ne in \<open>simp add: frame_def\<close>)
    apply (rule wp_bindI [OF nf_symlink [OF nf]])
      apply simp
     apply (use par dir up in \<open>simp add: frame_def\<close>)
    apply (elim conjE, simp only: sum.case)
    apply (rule wp_bindI [OF nf_rename [OF nf]])
         apply simp
        apply simp
       apply (use ne in \<open>simp add: frame_def\<close>)
      apply (use dir up in \<open>simp add: frame_def\<close>)
     apply (use ne in simp)
    apply (use ne in \<open>simp add: wp_simps pointer_def targets_def frame_def\<close>)
    done
qed

text \<open>What a swap is to do, and its second half: the link or the shim, whichever it is, is moved.\<close>

definition swapped :: "env \<Rightarrow> string \<Rightarrow> string \<Rightarrow> world \<Rightarrow> unit res \<Rightarrow> world \<Rightarrow> bool" where
  "swapped env c p w r w' \<longleftrightarrow> r = Inr () \<and>
     (\<forall>l. look w' l = Some DirNode \<longrightarrow> look w l = Some DirNode) \<and>
     pointer env p w' = (case pointer env c w of Some t \<Rightarrow> Some t | None \<Rightarrow> pointer env p w)"

lemma nf_Swap_move:
  assumes nf: "no_faults env" and ap: "links_apart env c p"
    and dir: "look w (butlast (at env p)) = Some DirNode"
    and nd: "no_dirs {at env c, at env (c @ shimSuffix), at env p, at env (p @ shimSuffix)} w"
    and same: "\<And>l. look w1 l = look w l"
    and x: "(x = c \<and> y = p \<and> look w (at env c) = Some (LinkNode t)) \<or>
        (x = c @ shimSuffix \<and> y = p @ shimSuffix \<and> link_target (look w (at env c)) = None \<and>
         look w (at env (c @ shimSuffix)) = Some nn \<and> shim_target (Some nn) = Some t)"
  shows "wp (do { _ \<leftarrow> os_remove env p; _ \<leftarrow> os_remove env (p @ shimSuffix); os_rename env x y }) (swapped env c p w) w1"
proof -
  let ?c = "at env c" and ?cs = "at env (c @ shimSuffix)"
    and ?p = "at env p" and ?ps = "at env (p @ shimSuffix)"
  have n: "named c" "named p" using ap by (simp_all add: links_apart_def)
  have ne: "?c \<noteq> ?cs" "?p \<noteq> ?ps" using n by simp_all
  have ne2: "?c \<noteq> ?p" "?c \<noteq> ?ps" "?cs \<noteq> ?p" "?cs \<noteq> ?ps" using ap by (auto simp: links_apart_def)
  have par: "butlast ?ps = butlast ?p" using n by (simp add: parent_suffix)
  have up: "butlast ?p \<noteq> ?p" "butlast ?p \<noteq> ?ps"
    using parent_not_self [OF n(2), of "[]"] parent_not_self [OF n(2), of shimSuffix] by simp_all
  have nds: "look w ?c \<noteq> Some DirNode" "look w ?cs \<noteq> Some DirNode"
    "look w ?p \<noteq> Some DirNode" "look w ?ps \<noteq> Some DirNode"
    using nd by (simp_all add: no_dirs_def)
  show ?thesis
    apply (rule wp_bindI [OF nf_remove [OF nf]])
     apply (use nds same in simp)
    apply (rule wp_bindI [OF nf_remove [OF nf]])
     apply (use nds same ne in \<open>simp add: frame_def\<close>)
    apply (rule wp_mono [OF nf_rename [OF nf, where n = "the (look w (at env x))"]])
        apply (use x same ne ne2 in \<open>auto simp: frame_def\<close>) [1]
       apply (use x nds in auto) [1]
      apply (use x ne in \<open>auto simp: frame_def\<close>) [1]
     apply (use x dir par up same in \<open>auto simp: frame_def\<close>) [1]
    apply (use x ne2 in auto) [1]
    subgoal premises h for _ w2 _ w3 r w4
    proof -
      have l4: "look w4 l = (if l = at env y then Some (the (look w (at env x)))
          else if l = at env x then None
          else if l = ?p \<or> l = ?ps then None else look w l)" for l
        using h same ne by (auto simp: frame_def)
      have "the (look w (at env x)) \<noteq> DirNode" using x nds by auto
      then have d: "look w l = Some DirNode" if "look w4 l = Some DirNode" for l
        using that unfolding l4 by (simp split: if_splits)
      show ?thesis
        using x h d ne ne2 by (elim disjE conjE) (simp_all add: swapped_def pointer_def l4)
    qed
    done
qed

lemma nf_Swap_stat:
  assumes "no_faults env" and same: "\<And>l. look w1 l = look w l"
    and "look w (at env (c @ shimSuffix)) \<noteq> Some DirNode" and "link_target (look w (at env c)) = None"
  shows "wp (os_stat env (c @ shimSuffix)) (\<lambda>s w2. (\<forall>l. look w2 l = look w l) \<and>
      (case s of Inl _ \<Rightarrow> pointer env c w = None
       | Inr _ \<Rightarrow> \<exists>m d. look w (at env (c @ shimSuffix)) = Some (FileNode m d))) w1"
  by (rule wp_mono [OF nf_stat [OF assms(1)]])
    (use assms(2-4) in \<open>auto simp: same_files_look pointer_def split: option.splits node.splits sum.splits\<close>)

lemma nf_Swap:
  assumes nf: "no_faults env" and ap: "links_apart env c p"
    and dir: "look w (butlast (at env p)) = Some DirNode"
    and nd: "no_dirs {at env c, at env (c @ shimSuffix), at env p, at env (p @ shimSuffix)} w"
  shows "wp (SwapCurrentToPrevious env c p) (\<lambda>r w'. r = Inr () \<and>
     (\<forall>l. look w' l = Some DirNode \<longrightarrow> look w l = Some DirNode) \<and>
     pointer env p w' = (case pointer env c w of Some t \<Rightarrow> Some t | None \<Rightarrow> pointer env p w)) w"
  unfolding swapped_def [symmetric] SwapCurrentToPrevious_def Let_def
proof (rule wp_bindI [OF nf_readlink [OF nf]], goal_cases)
  note move = nf_Swap_move [OF nf ap dir nd]
  case (1 r w1)
  then have same: "\<And>l. look w1 l = look w l" by (simp add: same_files_look)
  show ?case
  proof (cases r)
    case (Inr t)
    with 1 have "look w (at env c) = Some (LinkNode t)" by (auto split: option.splits node.splits)
    with move [OF same, of c p t] Inr show ?thesis by simp
  next
    case (Inl e)
    with 1 have nol: "link_target (look w (at env c)) = None"
      by (auto simp: link_target_def split: option.splits node.splits)
    have nds: "look w (at env (c @ shimSuffix)) \<noteq> Some DirNode" using nd by (simp add: no_dirs_def)
    have "wp (do {
        s \<leftarrow> os_stat env (c @ shimSuffix);
        case s of
          Inl _ \<Rightarrow> ok ()
        | Inr _ \<Rightarrow> do {
           _ \<leftarrow> os_remove env p; _ \<leftarrow> os_remove env (p @ shimSuffix);
           os_rename env (c @ shimSuffix) (p @ shimSuffix) } }) (swapped env c p w) w1"
    proof (rule wp_bindI [OF nf_Swap_stat [OF nf same nds nol]], goal_cases)
      case (1 s w2)
      then have same2: "\<And>l. look w2 l = look w l" by simp
      show ?case
      proof (cases s)
        case (Inl e)
        have "pointer env p w2 = pointer env p w" by (intro pointer_same same2)
        with 1 Inl show ?thesis by (simp add: wp_simps swapped_def)
      next
        case (Inr u)
        with 1 obtain m d where f: "look w (at env (c @ shimSuffix)) = Some (FileNode m d)" by auto
        then have "shim_target (Some (FileNode m d)) = Some (trimRight (string_of d) shim_trim)"
          by (simp add: shim_target_def)
        with move [OF same2, of "c @ shimSuffix" "p @ shimSuffix"] nol f Inr
        show ?thesis by simp
      qed
    qed
    with Inl show ?thesis by simp
  qed
qed


subsection \<open>Windows long paths\<close>

lemma LongPath_prefixed:
  "hasPrefix p [backslash, backslash, CHR ''?'', backslash] \<Longrightarrow> LongPath p = p"
  by (simp add: LongPath_def)

text \<open>\<open>C26\<close>. The long-path form: a path on a drive gets the prefix \<^verbatim>\<open>\\?\<close>, a share \<^verbatim>\<open>\\server\share\<close>
  becomes \<^verbatim>\<open>\\?\UNC\server\share\<close>, each with the whole rest of the path kept, a path that has one of
  the prefixes \<^verbatim>\<open>\\?\<close> and \<^verbatim>\<open>\\.\\<close>, and any other path, is left alone; and it is reached in one step.\<close>

theorem LongPath_normal_form:
  "LongPath (c # CHR '':'' # s) = [backslash, backslash, CHR ''?'', backslash] @ c # CHR '':'' # s \<and>
   LongPath ([backslash, backslash] @ s) =
     (if hasPrefix s [CHR ''?'', backslash] \<or> hasPrefix s [CHR ''.'', backslash]
      then [backslash, backslash] @ s
      else [backslash, backslash, CHR ''?'', backslash] @ ''UNC'' @ [backslash] @ s) \<and>
   LongPath (LongPath p) = LongPath p \<and>
   (if hasPrefix p [backslash, backslash] \<or> (2 \<le> length p \<and> p ! 1 = CHR '':'')
    then hasPrefix (LongPath p) [backslash, backslash, CHR ''?'', backslash] \<or>
         hasPrefix (LongPath p) [backslash, backslash, CHR ''.'', backslash]
    else LongPath p = p)"
  by (auto simp: LongPath_def trimPrefix_def backslash_def)

end
