(* ===== verification/JSON.thy ===== *)
theory JSON
  imports Go_Strings
begin

section \<open>encoding/json: values, printing and parsing\<close>

text \<open>
  What the client uses of \<^verbatim>\<open>encoding/json\<close>: \<open>marshal\<close> (\<^verbatim>\<open>json.Marshal\<close>), \<open>marshal_indent\<close>
  (\<^verbatim>\<open>MarshalIndent(v, "", "  ")\<close>), \<open>unmarshal\<close> (the syntax part of \<^verbatim>\<open>json.Unmarshal\<close>: the
  whole input is one value) and \<open>decode_first\<close> (\<^verbatim>\<open>Decoder.Decode\<close>: the first value of the
  input). Strings are escaped as Go does (HTML characters and control characters as
  \<^verbatim>\<open>\u00xx\<close>, invalid UTF-8 as \<^verbatim>\<open>\ufffd\<close>) and parsed with surrogate pairs; a number is kept as
  its literal. The parser recurses on a fuel that is the length of the input plus one; the
  round trip at the end shows that this is enough for everything the printer writes.
\<close>

datatype json = JNull | JBool bool | JNum string | JStr string
  | JArr "json list" | JObj "(string \<times> json) list"

abbreviation "dquote \<equiv> CHR 0x22"
abbreviation "bslash \<equiv> CHR 0x5C"
abbreviation "code c \<equiv> (of_char c :: nat)"


subsection \<open>UTF-8\<close>

definition cont :: "char \<Rightarrow> bool" where
  "cont c \<longleftrightarrow> 128 \<le> code c \<and> code c < 192"

text \<open>The length of the valid UTF-8 sequence at the start, 0 if there is none.\<close>

definition utf8_len :: "string \<Rightarrow> nat" where
  "utf8_len s =
     (case s of
        [] \<Rightarrow> 0
      | c # r \<Rightarrow>
          let n = code c; b = (\<lambda>lo hi. r \<noteq> [] \<and> lo \<le> code (hd r) \<and> code (hd r) \<le> hi);
              more = (\<lambda>k. k \<le> length r \<and> list_all cont (take k r)) in
          if n < 128 then 1
          else if 194 \<le> n \<and> n \<le> 223 \<and> more 1 then 2
          else if n = 224 \<and> b 160 191 \<and> more 2 then 3
          else if n = 237 \<and> b 128 159 \<and> more 2 then 3
          else if 225 \<le> n \<and> n \<le> 239 \<and> n \<noteq> 237 \<and> more 2 then 3
          else if n = 240 \<and> b 144 191 \<and> more 3 then 4
          else if 241 \<le> n \<and> n \<le> 243 \<and> more 3 then 4
          else if n = 244 \<and> b 128 143 \<and> more 3 then 4
          else 0)"

definition replacement :: string where
  "replacement = [CHR 0xEF, CHR 0xBF, CHR 0xBD]"

text \<open>Replaces every invalid byte by U+FFFD.\<close>

function utf8_fix :: "string \<Rightarrow> string" where
  "utf8_fix s =
     (if s = [] then []
      else if utf8_len s = 0 then replacement @ utf8_fix (tl s)
      else take (utf8_len s) s @ utf8_fix (drop (utf8_len s) s))"
  by pat_completeness auto
termination
  by (relation "measure length") auto

declare utf8_fix.simps [simp del]

definition utf8_encode :: "nat \<Rightarrow> string" where
  "utf8_encode n =
     (if n < 128 then [char_of n]
      else if n < 2048 then [char_of (192 + n div 64), char_of (128 + n mod 64)]
      else if 55296 \<le> n \<and> n < 57344 \<or> 1114112 \<le> n then replacement
      else if n < 65536 then
        [char_of (224 + n div 4096), char_of (128 + n div 64 mod 64), char_of (128 + n mod 64)]
      else [char_of (240 + n div 262144), char_of (128 + n div 4096 mod 64),
            char_of (128 + n div 64 mod 64), char_of (128 + n mod 64)])"


subsection \<open>Printing\<close>

definition esc_u :: "nat \<Rightarrow> string" where
  "esc_u n = [bslash, CHR ''u'', hex_digit (n div 4096), hex_digit (n div 256 mod 16),
              hex_digit (n div 16 mod 16), hex_digit (n mod 16)]"

definition esc_ascii :: "char \<Rightarrow> string" where
  "esc_ascii c =
     (if c = dquote \<or> c = bslash then [bslash, c]
      else if c = CHR 0x08 then [bslash, CHR ''b'']
      else if c = CHR 0x0C then [bslash, CHR ''f'']
      else if c = CHR 0x0A then [bslash, CHR ''n'']
      else if c = CHR 0x0D then [bslash, CHR ''r'']
      else if c = CHR 0x09 then [bslash, CHR ''t'']
      else if code c < 32 \<or> c = CHR ''<'' \<or> c = CHR ''>'' \<or> c = CHR ''&'' then esc_u (code c)
      else [c])"

function esc_string :: "string \<Rightarrow> string" where
  "esc_string s =
     (case s of
        [] \<Rightarrow> []
      | c # r \<Rightarrow>
          if code c < 128 then esc_ascii c @ esc_string r
          else if utf8_len s = 0 then esc_u 65533 @ esc_string r
          else if take 3 s = [CHR 0xE2, CHR 0x80, CHR 0xA8] then esc_u 8232 @ esc_string (drop 3 s)
          else if take 3 s = [CHR 0xE2, CHR 0x80, CHR 0xA9] then esc_u 8233 @ esc_string (drop 3 s)
          else take (utf8_len s) s @ esc_string (drop (utf8_len s) s))"
  by pat_completeness auto
termination
  by (relation "measure length") auto

declare esc_string.simps [simp del]

definition quote_string :: "string \<Rightarrow> string" where
  "quote_string s = dquote # esc_string s @ [dquote]"

text \<open>
  One printer for both layouts: \<open>nl d\<close> is what starts a line at depth \<open>d\<close> (nothing in the
  compact layout) and \<open>colon\<close> what follows a key.
\<close>

fun print_json :: "(nat \<Rightarrow> string) \<Rightarrow> string \<Rightarrow> nat \<Rightarrow> json \<Rightarrow> string"
  and print_elems :: "(nat \<Rightarrow> string) \<Rightarrow> string \<Rightarrow> nat \<Rightarrow> json list \<Rightarrow> string"
  and print_fields :: "(nat \<Rightarrow> string) \<Rightarrow> string \<Rightarrow> nat \<Rightarrow> (string \<times> json) list \<Rightarrow> string" where
  "print_json nl colon d JNull = ''null''"
| "print_json nl colon d (JBool b) = (if b then ''true'' else ''false'')"
| "print_json nl colon d (JNum n) = n"
| "print_json nl colon d (JStr s) = quote_string s"
| "print_json nl colon d (JArr vs) =
     (if vs = [] then ''[]'' else CHR ''['' # print_elems nl colon (Suc d) vs @ nl d @ '']'')"
| "print_json nl colon d (JObj kvs) =
     (if kvs = [] then ''{}'' else CHR ''{'' # print_fields nl colon (Suc d) kvs @ nl d @ ''}'')"
| "print_elems nl colon d [] = []"
| "print_elems nl colon d (v # vs) =
     nl d @ print_json nl colon d v @ (if vs = [] then [] else CHR '','' # print_elems nl colon d vs)"
| "print_fields nl colon d [] = []"
| "print_fields nl colon d ((k, v) # kvs) =
     nl d @ quote_string k @ colon @ print_json nl colon d v @
     (if kvs = [] then [] else CHR '','' # print_fields nl colon d kvs)"

definition marshal :: "json \<Rightarrow> string" where
  "marshal v = print_json (\<lambda>_. []) '':'' 0 v"

definition marshal_indent :: "json \<Rightarrow> string" where
  "marshal_indent v =
     print_json (\<lambda>d. CHR 0x0A # concat (replicate d ''  '')) '': '' 0 v"


subsection \<open>Parsing\<close>

definition ws_char :: "char \<Rightarrow> bool" where
  "ws_char c \<longleftrightarrow> c = CHR 0x20 \<or> c = CHR 0x0A \<or> c = CHR 0x0D \<or> c = CHR 0x09"

definition skip_ws :: "string \<Rightarrow> string" where
  "skip_ws s = dropWhile ws_char s"

definition digit :: "char \<Rightarrow> bool" where
  "digit c \<longleftrightarrow> 48 \<le> code c \<and> code c \<le> 57"

text \<open>The parts of a number: each returns what it took and the rest.\<close>

definition num_int :: "string \<Rightarrow> (string \<times> string) option" where
  "num_int s =
     (let ds = takeWhile digit s; r = dropWhile digit s in
      if ds = [] \<or> (hd ds = CHR ''0'' \<and> length ds > 1) then None else Some (ds, r))"

definition num_frac :: "string \<Rightarrow> (string \<times> string) option" where
  "num_frac s =
     (case s of
        c # r \<Rightarrow>
          if c = CHR ''.'' then
            (if takeWhile digit r = [] then None
             else Some (c # takeWhile digit r, dropWhile digit r))
          else Some ([], s)
      | [] \<Rightarrow> Some ([], s))"

definition num_exp :: "string \<Rightarrow> (string \<times> string) option" where
  "num_exp s =
     (case s of
        c # r \<Rightarrow>
          if c = CHR ''e'' \<or> c = CHR ''E'' then
            (let (sg, r') = (case r of x # r1 \<Rightarrow> if x = CHR ''+'' \<or> x = CHR ''-'' then ([x], r1) else ([], r)
                                     | [] \<Rightarrow> ([], r)) in
             if takeWhile digit r' = [] then None
             else Some (c # sg @ takeWhile digit r', dropWhile digit r'))
          else Some ([], s)
      | [] \<Rightarrow> Some ([], s))"

definition parse_num :: "string \<Rightarrow> (string \<times> string) option" where
  "parse_num s =
     (let (sg, s1) = (case s of c # r \<Rightarrow> if c = CHR ''-'' then ([c], r) else ([], s) | [] \<Rightarrow> ([], s)) in
      Option.bind (num_int s1) (\<lambda>(i, s2).
      Option.bind (num_frac s2) (\<lambda>(f, s3).
      Option.bind (num_exp s3) (\<lambda>(e, s4). Some (sg @ i @ f @ e, s4)))))"

definition hex4 :: "string \<Rightarrow> (nat \<times> string) option" where
  "hex4 s =
     (case s of
        a # b # c # d # r \<Rightarrow>
          (case (hex_value a, hex_value b, hex_value c, hex_value d) of
             (Some i, Some j, Some k, Some l) \<Rightarrow> Some (4096 * i + 256 * j + 16 * k + l, r)
           | _ \<Rightarrow> None)
      | _ \<Rightarrow> None)"

definition unescape :: "char \<Rightarrow> char option" where
  "unescape c =
     (if c = dquote \<or> c = bslash \<or> c = CHR ''/'' then Some c
      else if c = CHR ''b'' then Some (CHR 0x08)
      else if c = CHR ''f'' then Some (CHR 0x0C)
      else if c = CHR ''n'' then Some (CHR 0x0A)
      else if c = CHR ''r'' then Some (CHR 0x0D)
      else if c = CHR ''t'' then Some (CHR 0x09)
      else None)"

text \<open>After \<^verbatim>\<open>\u\<close>: the characters the escape stands for (a surrogate pair takes two escapes).\<close>

definition parse_u :: "string \<Rightarrow> (string \<times> string) option" where
  "parse_u s =
     (case hex4 s of
        None \<Rightarrow> None
      | Some (n, r) \<Rightarrow>
          if 55296 \<le> n \<and> n < 56320 then
            (case r of
               x # y # r1 \<Rightarrow>
                 (if x = bslash \<and> y = CHR ''u'' then
                    (case hex4 r1 of
                       Some (m, r2) \<Rightarrow>
                         if 56320 \<le> m \<and> m < 57344
                         then Some (utf8_encode (65536 + (n - 55296) * 1024 + (m - 56320)), r2)
                         else Some (replacement, r)
                     | None \<Rightarrow> Some (replacement, r))
                  else Some (replacement, r))
             | _ \<Rightarrow> Some (replacement, r))
          else Some (utf8_encode n, r))"

text \<open>The rest of a string after its opening quote, still without the UTF-8 repair.\<close>

function parse_string :: "string \<Rightarrow> (string \<times> string) option" where
  "parse_string s =
     (case s of
        [] \<Rightarrow> None
      | c # r \<Rightarrow>
          if c = dquote then Some ([], r)
          else if c = bslash then
            (case r of
               [] \<Rightarrow> None
             | e # r1 \<Rightarrow>
                 if e = CHR ''u'' then
                   (case parse_u r1 of
                      None \<Rightarrow> None
                    | Some (x, r2) \<Rightarrow>
                        if length r2 < length r1
                        then map_option (\<lambda>(a, b). (x @ a, b)) (parse_string r2) else None)
                 else
                   (case unescape e of
                      None \<Rightarrow> None
                    | Some x \<Rightarrow> map_option (\<lambda>(a, b). (x # a, b)) (parse_string r1)))
          else if code c < 32 then None
          else map_option (\<lambda>(a, b). (c # a, b)) (parse_string r))"
  by pat_completeness auto
termination
  by (relation "measure length") auto

declare parse_string.simps [simp del]

definition parse_quoted :: "string \<Rightarrow> (string \<times> string) option" where
  "parse_quoted s = map_option (\<lambda>(a, b). (utf8_fix a, b)) (parse_string s)"

fun parse_value :: "nat \<Rightarrow> string \<Rightarrow> (json \<times> string) option"
  and parse_elems :: "nat \<Rightarrow> string \<Rightarrow> (json list \<times> string) option"
  and parse_fields :: "nat \<Rightarrow> string \<Rightarrow> ((string \<times> json) list \<times> string) option" where
  "parse_value 0 s = None"
| "parse_value (Suc n) s =
     (case skip_ws s of
        [] \<Rightarrow> None
      | c # r \<Rightarrow>
          if c = dquote then map_option (\<lambda>(a, b). (JStr a, b)) (parse_quoted r)
          else if c = CHR ''['' then
            (if skip_ws r \<noteq> [] \<and> hd (skip_ws r) = CHR '']'' then Some (JArr [], tl (skip_ws r))
             else map_option (\<lambda>(a, b). (JArr a, b)) (parse_elems n r))
          else if c = CHR ''{'' then
            (if skip_ws r \<noteq> [] \<and> hd (skip_ws r) = CHR ''}'' then Some (JObj [], tl (skip_ws r))
             else map_option (\<lambda>(a, b). (JObj a, b)) (parse_fields n r))
          else if hasPrefix (c # r) ''null'' then Some (JNull, drop 4 (c # r))
          else if hasPrefix (c # r) ''true'' then Some (JBool True, drop 4 (c # r))
          else if hasPrefix (c # r) ''false'' then Some (JBool False, drop 5 (c # r))
          else map_option (\<lambda>(a, b). (JNum a, b)) (parse_num (c # r)))"
| "parse_elems 0 s = None"
| "parse_elems (Suc n) s =
     (case parse_value n s of
        None \<Rightarrow> None
      | Some (v, r) \<Rightarrow>
          (case skip_ws r of
             c # r' \<Rightarrow>
               if c = CHR '','' then map_option (\<lambda>(vs, b). (v # vs, b)) (parse_elems n r')
               else if c = CHR '']'' then Some ([v], r') else None
           | [] \<Rightarrow> None))"
| "parse_fields 0 s = None"
| "parse_fields (Suc n) s =
     (case skip_ws s of
        c # r \<Rightarrow>
          if c \<noteq> dquote then None
          else (case parse_quoted r of
             None \<Rightarrow> None
           | Some (k, r1) \<Rightarrow>
               (case skip_ws r1 of
                  x # r2 \<Rightarrow>
                    if x \<noteq> CHR '':'' then None
                    else (case parse_value n r2 of
                       None \<Rightarrow> None
                     | Some (v, r3) \<Rightarrow>
                         (case skip_ws r3 of
                            y # r4 \<Rightarrow>
                              if y = CHR '','' then
                                map_option (\<lambda>(kvs, b). ((k, v) # kvs, b)) (parse_fields n r4)
                              else if y = CHR ''}'' then Some ([(k, v)], r4) else None
                          | [] \<Rightarrow> None))
                | [] \<Rightarrow> None))
      | [] \<Rightarrow> None)"

definition unmarshal :: "string \<Rightarrow> json option" where
  "unmarshal s =
     (case parse_value (Suc (length s)) s of
        Some (v, r) \<Rightarrow> if skip_ws r = [] then Some v else None
      | None \<Rightarrow> None)"

definition decode_first :: "string \<Rightarrow> json option" where
  "decode_first s = map_option fst (parse_value (Suc (length s)) s)"


subsection \<open>Round trip\<close>

text \<open>
  ASCII strings without numbers: all the client prints. The parser gives back what was
  printed, in both layouts, and leaves what follows.
\<close>

definition ascii :: "string \<Rightarrow> bool" where
  "ascii s \<longleftrightarrow> list_all (\<lambda>c. code c < 128) s"

fun json_ok :: "json \<Rightarrow> bool" where
  "json_ok JNull = True"
| "json_ok (JBool b) = True"
| "json_ok (JNum n) = False"
| "json_ok (JStr s) = ascii s"
| "json_ok (JArr vs) = list_all json_ok vs"
| "json_ok (JObj kvs) = list_all (\<lambda>(k, v). ascii k \<and> json_ok v) kvs"

text \<open>The fuel the parser needs for a value.\<close>

fun need :: "json \<Rightarrow> nat" and needs :: "json list \<Rightarrow> nat" and needf :: "(string \<times> json) list \<Rightarrow> nat" where
  "need (JArr vs) = Suc (needs vs)"
| "need (JObj kvs) = Suc (needf kvs)"
| "need v = 1"
| "needs [] = 0"
| "needs (v # vs) = Suc (max (need v) (needs vs))"
| "needf [] = 0"
| "needf ((k, v) # kvs) = Suc (max (need v) (needf kvs))"

lemma utf8_fix_ascii: "ascii s \<Longrightarrow> utf8_fix s = s"
proof (induction s)
  case Nil
  then show ?case by (simp add: utf8_fix.simps [of "[]"])
next
  case (Cons c s)
  then have "code c < 128" and "ascii s" by (simp_all add: ascii_def)
  then have "utf8_len (c # s) = 1" by (simp add: utf8_len_def Let_def)
  then show ?case
    using Cons.IH [OF \<open>ascii s\<close>] by (subst utf8_fix.simps) simp
qed

lemma char_of_code_eq: "char_of (code c) = c"
  by simp

lemma hex4_esc:
  assumes "n < 65536"
  shows "hex4 (drop 2 (esc_u n) @ r) = Some (n, r)"
proof -
  have "n div 4096 < 16" "n div 256 mod 16 < 16" "n div 16 mod 16 < 16" "n mod 16 < 16"
    using assms by (simp_all add: less_mult_imp_div_less)
  moreover have "4096 * (n div 4096) + 256 * (n div 256 mod 16) + 16 * (n div 16 mod 16) + n mod 16 = n"
  proof -
    have 1: "n = 16 * (n div 16) + n mod 16" by simp
    have "n div 256 = n div 16 div 16" "n div 4096 = n div 256 div 16"
      using div_mult2_eq [of n 16 16] div_mult2_eq [of n 256 16] by simp_all
    then have 2: "n div 16 = 16 * (n div 256) + n div 16 mod 16"
      and 3: "n div 256 = 16 * (n div 4096) + n div 256 mod 16"
      by simp_all
    from 1 2 3 show ?thesis by linarith
  qed
  ultimately show ?thesis
    by (simp add: hex4_def esc_u_def hex_value_digit)
qed

lemma parse_string_esc_u:
  assumes "n < 128"
  shows "parse_string (esc_u n @ r) = map_option (\<lambda>(a, b). (char_of n # a, b)) (parse_string r)"
proof -
  have u: "esc_u n @ r = bslash # CHR ''u'' # (drop 2 (esc_u n) @ r)"
    by (simp add: esc_u_def)
  have p: "parse_u (drop 2 (esc_u n) @ r) = Some ([char_of n], r)"
    using hex4_esc [of n r] assms by (simp add: parse_u_def utf8_encode_def)
  have "length (esc_u n) = 6"
    by (simp add: esc_u_def)
  with p show ?thesis
    unfolding u by (subst parse_string.simps) (simp del: drop_append)
qed

lemma parse_string_esc_ascii:
  assumes "code c < 128"
  shows "parse_string (esc_ascii c @ r) = map_option (\<lambda>(a, b). (c # a, b)) (parse_string r)"
proof -
  let ?S = "{dquote, bslash, CHR 0x08, CHR 0x0C, CHR 0x0A, CHR 0x0D, CHR 0x09}"
  let ?U = "code c < 32 \<or> c = CHR ''<'' \<or> c = CHR ''>'' \<or> c = CHR ''&''"
  show ?thesis
  proof (cases "c \<in> ?S")
    case True
    then show ?thesis
      by (elim insertE emptyE; simp add: esc_ascii_def unescape_def parse_string.simps [of "bslash # _"])
  next
    case False
    then have e: "esc_ascii c = (if ?U then esc_u (code c) else [c])"
      unfolding esc_ascii_def by (simp only: insert_iff empty_iff if_False de_Morgan_disj simp_thms)
    show ?thesis
    proof (cases ?U)
      case True
      with e assms show ?thesis by (simp only: if_True parse_string_esc_u char_of_code_eq)
    next
      case False
      with e \<open>c \<notin> ?S\<close> show ?thesis
        by (simp add: parse_string.simps [of "c # _"])
    qed
  qed
qed

lemma parse_string_esc:
  "ascii s \<Longrightarrow> parse_string (esc_string s @ dquote # r) = Some (s, r)"
proof (induction s)
  case Nil
  then show ?case
    by (simp add: esc_string.simps [of "[]"] parse_string.simps [of "dquote # _"])
next
  case (Cons c s)
  then have c: "code c < 128" and "ascii s" by (simp_all add: ascii_def)
  then have "esc_string (c # s) = esc_ascii c @ esc_string s"
    by (simp add: esc_string.simps [of "c # s"])
  then show ?case
    using Cons.IH [OF \<open>ascii s\<close>] by (simp add: parse_string_esc_ascii [OF c])
qed

lemma parse_quoted_esc: "ascii s \<Longrightarrow> parse_quoted (esc_string s @ dquote # r) = Some (s, r)"
  by (simp add: parse_quoted_def parse_string_esc utf8_fix_ascii)

lemma skip_ws_append: "list_all ws_char u \<Longrightarrow> skip_ws (u @ s) = skip_ws s"
  by (simp add: skip_ws_def dropWhile_append list_all_iff)

lemma skip_ws_id: "s \<noteq> [] \<Longrightarrow> \<not> ws_char (hd s) \<Longrightarrow> skip_ws s = s"
  by (cases s) (simp_all add: skip_ws_def)

lemma skip_ws_Cons [simp]: "\<not> ws_char c \<Longrightarrow> skip_ws (c # s) = c # s"
  by (simp add: skip_ws_def)

lemma ws_char_punct [simp]:
  "\<not> ws_char dquote" "\<not> ws_char (CHR ''['')" "\<not> ws_char (CHR '']'')" "\<not> ws_char (CHR ''{'')"
  "\<not> ws_char (CHR ''}'')" "\<not> ws_char (CHR '','')" "\<not> ws_char (CHR '':'')" "\<not> ws_char (CHR ''n'')"
  "\<not> ws_char (CHR ''t'')" "\<not> ws_char (CHR ''f'')"
  by (simp_all add: ws_char_def)

text \<open>A layout: only white space before a value, and around the colon.\<close>

definition layout_ok :: "(nat \<Rightarrow> string) \<Rightarrow> string \<Rightarrow> bool" where
  "layout_ok nl colon \<longleftrightarrow> (\<forall>d. list_all ws_char (nl d)) \<and>
     (\<exists>u. colon = CHR '':'' # u \<and> list_all ws_char u)"

text \<open>The first character of a printed value is no white space and no closing bracket.\<close>

lemma print_json_head:
  "json_ok v \<Longrightarrow> \<exists>c r. print_json nl colon d v = c # r \<and> \<not> ws_char c \<and> c \<noteq> CHR '']'' \<and> c \<noteq> CHR ''}''"
  by (cases v) (auto simp: quote_string_def)

lemma skip_ws_print:
  "layout_ok nl colon \<Longrightarrow> json_ok v \<Longrightarrow>
   skip_ws (nl e @ print_json nl colon d v @ r) = print_json nl colon d v @ r"
  using print_json_head [of v nl colon d]
  by (auto simp: layout_ok_def skip_ws_append)

lemma parse_value_skip:
  "list_all ws_char u \<Longrightarrow> parse_value n (u @ s) = parse_value n s"
  by (cases n) (simp_all add: skip_ws_append)

lemma print_parse:
  assumes L: "layout_ok nl colon"
  shows "json_ok v \<Longrightarrow> need v \<le> n \<Longrightarrow> parse_value n (print_json nl colon d v @ r) = Some (v, r)"
    and "list_all json_ok vs \<Longrightarrow> vs \<noteq> [] \<Longrightarrow> needs vs \<le> n \<Longrightarrow> list_all ws_char u \<Longrightarrow>
      parse_elems n (print_elems nl colon d vs @ u @ CHR '']'' # r) = Some (vs, r)"
    and "list_all (\<lambda>(k, v). ascii k \<and> json_ok v) kvs \<Longrightarrow> kvs \<noteq> [] \<Longrightarrow> needf kvs \<le> n \<Longrightarrow>
      list_all ws_char u \<Longrightarrow>
      parse_fields n (print_fields nl colon d kvs @ u @ CHR ''}'' # r) = Some (kvs, r)"
proof (induction v and vs and kvs arbitrary: n d r and n d r u and n d r u rule: need_needs_needf.induct)
  case (1 vs)
  then obtain m where n: "n = Suc m" "needs vs \<le> m" by (cases n) auto
  show ?case
  proof (cases vs)
    case Nil
    with n show ?thesis by simp
  next
    case (Cons v vs')
    let ?body = "print_elems nl colon (Suc d) vs @ nl d @ CHR '']'' # r"
    have "skip_ws ?body = drop (length (nl (Suc d))) ?body"
      using 1 Cons skip_ws_print [OF L, of v "Suc d" "Suc d"] by simp
    moreover obtain c r' where "drop (length (nl (Suc d))) ?body = c # r'" "c \<noteq> CHR '']''"
      using 1 Cons print_json_head [of v nl colon "Suc d"] by auto
    moreover have "parse_elems m ?body = Some (vs, r)"
      using 1 Cons n L by (intro "1.IH") (auto simp: layout_ok_def)
    ultimately show ?thesis
      using Cons n by simp
  qed
next
  case (2 kvs)
  then obtain m where n: "n = Suc m" "needf kvs \<le> m" by (cases n) auto
  show ?case
  proof (cases kvs)
    case Nil
    with n show ?thesis by simp
  next
    case (Cons kv kvs')
    obtain k v where kv: "kv = (k, v)" by (cases kv)
    let ?body = "print_fields nl colon (Suc d) kvs @ nl d @ CHR ''}'' # r"
    have "skip_ws ?body = drop (length (nl (Suc d))) ?body"
      using L Cons kv by (simp add: layout_ok_def skip_ws_append quote_string_def)
    moreover obtain c r' where "drop (length (nl (Suc d))) ?body = c # r'" "c \<noteq> CHR ''}''"
      using Cons kv by (auto simp: quote_string_def)
    moreover have "parse_fields m ?body = Some (kvs, r)"
      using 2 Cons n L by (intro "2.IH") (auto simp: layout_ok_def)
    ultimately show ?thesis
      using Cons n by simp
  qed
next
  case "3_4"
  then show ?case by (cases n) (simp_all add: quote_string_def parse_quoted_esc)
next
  case (5 v vs)
  then obtain m where n: "n = Suc m" "need v \<le> m" "needs vs \<le> m" by (cases n) auto
  have w: "list_all ws_char (nl d)" using L by (simp add: layout_ok_def)
  show ?case
  proof (cases vs)
    case Nil
    with 5 n w show ?thesis by (simp add: parse_value_skip skip_ws_append)
  next
    case (Cons v' vs')
    with 5 n w show ?thesis by (simp add: parse_value_skip skip_ws_append)
  qed
next
  case (7 k v kvs)
  then obtain m where n: "n = Suc m" "need v \<le> m" "needf kvs \<le> m" by (cases n) auto
  have w: "list_all ws_char (nl d)" using L by (simp add: layout_ok_def)
  obtain c where c: "colon = CHR '':'' # c" "list_all ws_char c" using L by (auto simp: layout_ok_def)
  show ?case
  proof (cases kvs)
    case Nil
    with 7 n w c show ?thesis
      by (simp add: parse_value_skip skip_ws_append quote_string_def parse_quoted_esc)
  next
    case (Cons kv kvs')
    with 7 n w c show ?thesis
      by (simp add: parse_value_skip skip_ws_append quote_string_def parse_quoted_esc)
  qed
qed (auto simp: neq_Nil_conv Suc_le_eq gr0_conv_Suc)


text \<open>The length of what was printed is fuel enough.\<close>

lemma need_le_length:
  "json_ok v \<Longrightarrow> need v \<le> length (print_json nl colon d v)"
  "list_all json_ok vs \<Longrightarrow> vs \<noteq> [] \<Longrightarrow> needs vs \<le> Suc (length (print_elems nl colon d vs))"
  "list_all (\<lambda>(k, v). ascii k \<and> json_ok v) kvs \<Longrightarrow> kvs \<noteq> [] \<Longrightarrow>
     needf kvs \<le> Suc (length (print_fields nl colon d kvs))"
proof (induction v and vs and kvs arbitrary: d and d and d rule: need_needs_needf.induct)
  case (1 vs)
  have "vs \<noteq> [] \<Longrightarrow> needs vs \<le> Suc (length (print_elems nl colon (Suc d) vs))" using 1 by simp
  then show ?case by (cases "vs = []") auto
next
  case (2 kvs)
  have "kvs \<noteq> [] \<Longrightarrow> needf kvs \<le> Suc (length (print_fields nl colon (Suc d) kvs))" using 2 by simp
  then show ?case by (cases "kvs = []") auto
next
  case (5 v vs)
  have "need v \<le> length (print_json nl colon d v)" using 5 by simp
  moreover have "vs \<noteq> [] \<Longrightarrow> needs vs \<le> Suc (length (print_elems nl colon d vs))" using 5 by simp
  ultimately show ?case by (cases "vs = []") auto
next
  case (7 k v kvs)
  have "need v \<le> length (print_json nl colon d v)" using 7 by simp
  moreover have "kvs \<noteq> [] \<Longrightarrow> needf kvs \<le> Suc (length (print_fields nl colon d kvs))" using 7 by simp
  ultimately show ?case by (cases "kvs = []") auto
qed (auto simp: quote_string_def)

lemma unmarshal_print:
  assumes "layout_ok nl colon" and "json_ok v"
  shows "unmarshal (print_json nl colon 0 v) = Some v"
proof -
  have "need v \<le> Suc (length (print_json nl colon 0 v))"
    using need_le_length(1) [OF assms(2), of nl colon 0] by simp
  then have "parse_value (Suc (length (print_json nl colon 0 v))) (print_json nl colon 0 v @ []) = Some (v, [])"
    by (rule print_parse(1) [OF assms])
  then show ?thesis
    by (simp add: unmarshal_def skip_ws_def del: parse_value.simps)
qed

lemma layout_compact: "layout_ok (\<lambda>_. []) '':''"
  by (simp add: layout_ok_def)

lemma layout_indent: "layout_ok (\<lambda>d. CHR 0x0A # concat (replicate d ''  '')) '': ''"
  by (auto simp: layout_ok_def list_all_iff ws_char_def)

interpretation compact: codec marshal unmarshal json_ok
  by unfold_locales (simp add: marshal_def unmarshal_print [OF layout_compact])

interpretation indented: codec marshal_indent unmarshal json_ok
  by unfold_locales (simp add: marshal_indent_def unmarshal_print [OF layout_indent])

end
