(* ===== verification/JSON_Decode.thy ===== *)
theory JSON_Decode
  imports JSON
begin

section \<open>encoding/json: decoding a JSON value into Go values\<close>

text \<open>
  How \<^verbatim>\<open>json.Unmarshal\<close> fills a Go value from a parsed JSON value: one decoder per Go type
  (\<open>dec_string\<close>, \<open>dec_int\<close>, \<open>dec_bool\<close>, \<open>dec_list\<close>), which takes the value already there, and
  \<open>dec_struct\<close>, which applies a per-field decoder to the members of an object in order.
  \<open>None\<close> is a decoding error.
\<close>

definition json_err :: goerr where
  "json_err = NewErr ''invalid JSON''"

text \<open>
  Decoding into Go values: \<^verbatim>\<open>null\<close> leaves the field as it is, a value of another JSON type is
  an error, a key matches a field without regard to case, unknown keys are skipped and of
  repeated keys the last wins.
\<close>

definition key_is :: "string \<Rightarrow> string \<Rightarrow> bool" where
  "key_is k name \<longleftrightarrow> equalFold k name"

fun dec_string :: "json \<Rightarrow> string \<Rightarrow> string option" where
  "dec_string (JStr s) old = Some s"
| "dec_string JNull old = Some old"
| "dec_string _ old = None"

fun dec_strings_in :: "json list \<Rightarrow> string list option" where
  "dec_strings_in [] = Some []"
| "dec_strings_in (v # vs) =
     (case (dec_string v [], dec_strings_in vs) of
        (Some x, Some xs) \<Rightarrow> Some (x # xs) | _ \<Rightarrow> None)"

fun dec_strings :: "json \<Rightarrow> string list \<Rightarrow> string list option" where
  "dec_strings (JArr vs) old = dec_strings_in vs"
| "dec_strings JNull old = Some []"
| "dec_strings _ old = None"

text \<open>
  An integer field: the literal must be an integer (no fraction or exponent) in the range of
  \<^verbatim>\<open>int64\<close>.
\<close>

definition num_of_digits :: "string \<Rightarrow> int" where
  "num_of_digits ds = foldl (\<lambda>n c. 10 * n + int (code c - 48)) 0 ds"

definition int_literal :: "string \<Rightarrow> int option" where
  "int_literal s =
     (if list_all digit s \<and> s \<noteq> [] then Some (num_of_digits s)
      else if s \<noteq> [] \<and> hd s = CHR ''-'' \<and> tl s \<noteq> [] \<and> list_all digit (tl s)
      then Some (- num_of_digits (tl s))
      else None)"

fun dec_int :: "json \<Rightarrow> int \<Rightarrow> int option" where
  "dec_int (JNum n) old =
     (case int_literal n of
        Some i \<Rightarrow> if - (2 ^ 63) \<le> i \<and> i < 2 ^ 63 then Some i else None
      | None \<Rightarrow> None)"
| "dec_int JNull old = Some old"
| "dec_int _ old = None"

fun dec_bool :: "json \<Rightarrow> bool \<Rightarrow> bool option" where
  "dec_bool (JBool b) old = Some b"
| "dec_bool JNull old = Some old"
| "dec_bool _ old = None"

fun dec_elems :: "(json \<Rightarrow> 'a option) \<Rightarrow> json list \<Rightarrow> 'a list option" where
  "dec_elems f [] = Some []"
| "dec_elems f (v # vs) =
     (case (f v, dec_elems f vs) of (Some x, Some xs) \<Rightarrow> Some (x # xs) | _ \<Rightarrow> None)"

text \<open>A slice: every element is decoded into a zero value; \<^verbatim>\<open>null\<close> makes the slice nil.\<close>

definition dec_list :: "(json \<Rightarrow> 'a option) \<Rightarrow> json \<Rightarrow> 'a list option" where
  "dec_list f v = (case v of JArr vs \<Rightarrow> dec_elems f vs | JNull \<Rightarrow> Some [] | _ \<Rightarrow> None)"

text \<open>The fields of a JSON object, applied in order.\<close>

fun dec_fields :: "(string \<Rightarrow> json \<Rightarrow> 'a \<Rightarrow> 'a option) \<Rightarrow> (string \<times> json) list \<Rightarrow> 'a \<Rightarrow> 'a option" where
  "dec_fields f [] x = Some x"
| "dec_fields f ((k, v) # kvs) x =
     (case f k v x of None \<Rightarrow> None | Some y \<Rightarrow> dec_fields f kvs y)"

definition dec_struct :: "(string \<Rightarrow> json \<Rightarrow> 'a \<Rightarrow> 'a option) \<Rightarrow> 'a \<Rightarrow> json \<Rightarrow> 'a option" where
  "dec_struct f x v =
     (case v of JObj kvs \<Rightarrow> dec_fields f kvs x | JNull \<Rightarrow> Some x | _ \<Rightarrow> None)"

text \<open>
  \<^verbatim>\<open>json.NewDecoder(body).Decode\<close>: the first value of what the body delivers. When the body
  breaks off with a read error the value must be complete by then: an object or an array is
  with its bracket, \<^verbatim>\<open>null\<close> only when something follows.
\<close>

definition decode_stream :: "string \<Rightarrow> bool \<Rightarrow> json option" where
  "decode_stream s eof =
     (case parse_value (Suc (length s)) s of
        None \<Rightarrow> None
      | Some (v, r) \<Rightarrow>
          (case v of
             JObj _ \<Rightarrow> Some v
           | JArr _ \<Rightarrow> Some v
           | _ \<Rightarrow> if eof \<or> r \<noteq> [] then Some v else None))"

lemma dec_strings_in_map [simp]: "dec_strings_in (map JStr xs) = Some xs"
  by (induction xs) simp_all

lemma dec_fields_append:
  "dec_fields f (a @ b) x = (case dec_fields f a x of None \<Rightarrow> None | Some y \<Rightarrow> dec_fields f b y)"
  by (induction a arbitrary: x) (auto split: option.splits)

lemma dec_int_range:
  "dec_int v old = Some i \<Longrightarrow> v \<noteq> JNull \<Longrightarrow> - (2 ^ 63) \<le> i \<and> i < 2 ^ 63"
  by (cases v) (auto split: option.splits if_splits)

lemma dec_fields_preserve:
  assumes "dec_fields f kvs x = Some y" and "P x"
    and "\<And>k v x y. f k v x = Some y \<Longrightarrow> P x \<Longrightarrow> P y"
  shows "P y"
  using assms(1,2)
  by (induction kvs arbitrary: x) (auto split: option.splits, metis assms(3))

lemma dec_struct_preserve:
  assumes "dec_struct f x v = Some y" and "P x"
    and "\<And>k v x y. f k v x = Some y \<Longrightarrow> P x \<Longrightarrow> P y"
  shows "P y"
  using assms by (auto simp: dec_struct_def split: json.splits intro: dec_fields_preserve)

end
