(* ===== verification/Samples.thy ===== *)
theory Samples
  imports OS
begin

section \<open>Concrete environments\<close>

text \<open>
  The environments the examples of the other theories run in: \<open>calm\<close>, where no call fails,
  the network is down and the working directory is the root; \<open>cut_at n\<close>, the same machine
  losing power at its \<open>n\<close>-th file-system call; \<open>serving rs\<close>, a server that answers with
  \<open>rs\<close> in turn. The hash of these machines keeps the first 32 bytes of its padded input and
  their signature check compares the signature with the padded message; both stand in for
  SHA-256 and Ed25519, and stored blocks for bzip2; the three are parameters of the model.
\<close>

definition sample_hash :: "bytes \<Rightarrow> bytes" where
  "sample_hash b = take 32 (b @ replicate 32 0)"

definition sample_sign :: "bytes \<Rightarrow> bytes" where
  "sample_sign m = take 64 (m @ replicate 64 0)"

text \<open>A stored-block stand-in for bzip2: the length of the block in one byte, then the block.\<close>

definition sample_bunzip2 :: "bytes \<Rightarrow> bytes \<times> goerr" where
  "sample_bunzip2 b =
     (case b of [] \<Rightarrow> ([], NewErr ''EOF'') | n # r \<Rightarrow> (take (unat n) r, NewErr ''EOF''))"

definition sample_bzip2 :: "bytes \<Rightarrow> bytes" where
  "sample_bzip2 x = of_nat (length x) # x"

text \<open>A stand-in for tar: an archive is a sequence of entries, each the length of the name, the
  name, the length of the contents, the contents.\<close>

fun untar_entries :: "nat \<Rightarrow> bytes \<Rightarrow> tar_entry list \<times> goerr option" where
  "untar_entries 0 b = ([], Some (NewErr ''archive/tar: invalid tar header''))"
| "untar_entries (Suc n) [] = ([], None)"
| "untar_entries (Suc n) (k # b) =
     (let name = string_of (take (unat k) b); r = drop (unat k) b in
      case r of
        [] \<Rightarrow> ([], Some (NewErr ''unexpected EOF''))
      | l # r' \<Rightarrow>
          (case untar_entries n (drop (unat l) r') of (es, e) \<Rightarrow>
             (\<lparr> h_regular = True, h_name = name, h_mode = 0,
                h_body = Body [take (unat l) r'] True \<rparr> # es, e)))"

definition sample_untar :: "bytes \<Rightarrow> tar_entry list \<times> goerr option" where
  "sample_untar b = untar_entries (Suc (length b)) b"

definition calm :: env where
  "calm = \<lparr> e_fault = (\<lambda>_. None), e_http = (\<lambda>_ _. NetErr (NewErr ''offline'')),
     e_badurl = (\<lambda>_. None), e_now = (\<lambda>_. ''2026-01-01T00:00:00Z''), e_getenv = (\<lambda>_. []),
     e_homedir = Some ''/home'', e_hostname = Some ''host'',
     e_cwd = [], e_getwd_ok = True, e_mtime = (\<lambda>_. 0), e_darwin = False,
     e_sha256 = sample_hash, e_ed25519 = (\<lambda>_ m s. s = sample_sign m),
     e_bunzip2 = sample_bunzip2, e_untar = sample_untar \<rparr>"

definition cut_at :: "nat \<Rightarrow> env" where
  "cut_at n = calm\<lparr>e_fault := (\<lambda>i. if i < n then None else Some 0)\<rparr>"

definition serving :: "http_result list \<Rightarrow> env" where
  "serving rs = calm\<lparr>e_http :=
     (\<lambda>n _. if n < length rs then rs ! n else NetErr (NewErr ''offline''))\<rparr>"

definition world_of :: "tree \<Rightarrow> world" where
  "world_of t = \<lparr> w_tree = t, w_ops = 0, w_reqs = [] \<rparr>"

definition empty_world :: world where
  "empty_world = world_of []"

lemma calm_no_faults [simp]: "no_faults calm" "no_faults (serving rs)"
  by (simp_all add: no_faults_def calm_def serving_def)

lemma calm_cwd [simp]: "e_cwd calm = []" "e_cwd (cut_at n) = []" "e_cwd (serving rs) = []"
  by (simp_all add: calm_def cut_at_def serving_def)

end
