(* ===== verification/Client_State.thy ===== *)
theory Client_State
  imports Platform JSON_Decode Samples
begin

section \<open>client/internal/state: the layout, state.json and the flip\<close>

text \<open>
  Models \<^verbatim>\<open>client/internal/state/state.go\<close>: the paths of one software product
  (\<open>layout\<close>), the record kept in \<^verbatim>\<open>state.json\<close> (\<open>cstate\<close>) with its JSON form, \<open>Load\<close> and
  \<open>Save\<close>, and \<open>FlipCurrent\<close>, which moves \<open>current\<close> to \<open>previous\<close> and points \<open>current\<close> at
  a distribution. The lemmas: \<open>state.json\<close> is at every moment the old or the new file; what
  was saved is what is loaded; a flip that succeeds has its effect, and one that fails or is
  cut leaves no target visible but old ones and the requested one.
\<close>

subsection \<open>Layout\<close>

record layout =
  Root :: string
  StateFile :: string
  BlobsDir :: string
  PatchesDir :: string
  ArchivedDir :: string
  CurrentSymlink :: string
  PreviousSymlink :: string

definition New :: "string \<Rightarrow> string \<Rightarrow> layout" where
  "New otaHome software =
     (let root = Join [otaHome, software] in
      \<lparr> Root = root,
        StateFile = Join [root, ''state.json''],
        BlobsDir = Join [root, ''blobs''],
        PatchesDir = Join [root, ''patches''],
        ArchivedDir = Join [root, ''archived''],
        CurrentSymlink = Join [root, ''current''],
        PreviousSymlink = Join [root, ''previous''] \<rparr>)"

fun mkdir_each :: "env \<Rightarrow> string list \<Rightarrow> unit res act" where
  "mkdir_each env [] = ok ()"
| "mkdir_each env (d # ds) = attempt (os_mkdir_all env d) (\<lambda>_. mkdir_each env ds)"

definition Ensure :: "env \<Rightarrow> layout \<Rightarrow> unit res act" where
  "Ensure env l = mkdir_each env [Root l, BlobsDir l, PatchesDir l, ArchivedDir l]"

definition DistributionDir :: "layout \<Rightarrow> string \<Rightarrow> string" where
  "DistributionDir l version = Join [Root l, ''distribution-'' @ version]"

definition absDistributionDir :: "env \<Rightarrow> layout \<Rightarrow> string \<Rightarrow> string" where
  "absDistributionDir env l version =
     (case Abs env (DistributionDir l version) of
        Inl _ \<Rightarrow> DistributionDir l version
      | Inr p \<Rightarrow> p)"

definition BlobPath :: "layout \<Rightarrow> string \<Rightarrow> string" where
  "BlobPath l version = Join [BlobsDir l, version @ ''.blob'']"


subsection \<open>The state record and its JSON form\<close>

record cstate =
  s_Software :: string
  s_Current :: string
  s_Previous :: string
  s_History :: "string list"
  s_UpdatedAt :: string
  s_ServerURL :: string
  s_ServerPubKeyHX :: string
  s_ClientID :: string
  s_BearerToken :: string
  s_OS :: string
  s_Arch :: string

text \<open>\<^verbatim>\<open>&State{}\<close>; the zero \<^verbatim>\<open>time.Time\<close> prints as the year 1.\<close>

definition zero_time :: string where
  "zero_time = ''0001-01-01T00:00:00Z''"

definition zero_state :: cstate where
  "zero_state = \<lparr> s_Software = [], s_Current = [], s_Previous = [], s_History = [],
     s_UpdatedAt = zero_time, s_ServerURL = [], s_ServerPubKeyHX = [], s_ClientID = [],
     s_BearerToken = [], s_OS = [], s_Arch = [] \<rparr>"

text \<open>\<^verbatim>\<open>omitempty\<close>: an empty string has no field.\<close>

definition omitempty :: "string \<Rightarrow> string \<Rightarrow> (string \<times> json) list" where
  "omitempty k v = (if v = [] then [] else [(k, JStr v)])"

definition state_json :: "cstate \<Rightarrow> json" where
  "state_json s = JObj (
     [(''software'', JStr (s_Software s))] @
     omitempty ''current'' (s_Current s) @
     omitempty ''previous'' (s_Previous s) @
     (if s_History s = [] then [] else [(''history'', JArr (map JStr (s_History s)))]) @
     [(''updated_at'', JStr (s_UpdatedAt s))] @
     omitempty ''server_url'' (s_ServerURL s) @
     omitempty ''server_pubkey_hex'' (s_ServerPubKeyHX s) @
     omitempty ''client_id'' (s_ClientID s) @
     omitempty ''bearer_token'' (s_BearerToken s) @
     omitempty ''os'' (s_OS s) @
     omitempty ''arch'' (s_Arch s))"

text \<open>The RFC 3339 texts \<^verbatim>\<open>time.Time\<close> accepts.\<close>

definition num2 :: "string \<Rightarrow> nat \<Rightarrow> nat" where
  "num2 s i = 10 * (code (s ! i) - 48) + (code (s ! Suc i) - 48)"

definition days_in :: "nat \<Rightarrow> nat \<Rightarrow> nat" where
  "days_in y m =
     (if m = 2 then (if y mod 4 = 0 \<and> (y mod 100 \<noteq> 0 \<or> y mod 400 = 0) then 29 else 28)
      else if m = 4 \<or> m = 6 \<or> m = 9 \<or> m = 11 then 30 else 31)"

definition zone_ok :: "string \<Rightarrow> bool" where
  "zone_ok z \<longleftrightarrow> z = ''Z'' \<or>
     (length z = 6 \<and> (z ! 0 = CHR ''+'' \<or> z ! 0 = CHR ''-'') \<and> z ! 3 = CHR '':'' \<and>
      list_all (\<lambda>i. digit (z ! i)) [1, 2, 4, 5] \<and> num2 z 1 < 24 \<and> num2 z 4 < 60)"

definition frac_zone_ok :: "string \<Rightarrow> bool" where
  "frac_zone_ok s \<longleftrightarrow>
     (if s \<noteq> [] \<and> hd s = CHR ''.''
      then takeWhile digit (tl s) \<noteq> [] \<and> zone_ok (dropWhile digit (tl s))
      else zone_ok s)"

definition rfc3339_ok :: "string \<Rightarrow> bool" where
  "rfc3339_ok s \<longleftrightarrow>
     20 \<le> length s \<and>
     list_all (\<lambda>i. digit (s ! i)) [0, 1, 2, 3, 5, 6, 8, 9, 11, 12, 14, 15, 17, 18] \<and>
     s ! 4 = CHR ''-'' \<and> s ! 7 = CHR ''-'' \<and> s ! 10 = CHR ''T'' \<and> s ! 13 = CHR '':'' \<and>
     s ! 16 = CHR '':'' \<and>
     1 \<le> num2 s 5 \<and> num2 s 5 \<le> 12 \<and>
     1 \<le> num2 s 8 \<and> num2 s 8 \<le> days_in (100 * num2 s 0 + num2 s 2) (num2 s 5) \<and>
     num2 s 11 < 24 \<and> num2 s 14 < 60 \<and> num2 s 17 < 60 \<and>
     frac_zone_ok (drop 19 s)"

fun dec_time :: "json \<Rightarrow> string \<Rightarrow> string option" where
  "dec_time (JStr s) old = (if rfc3339_ok s then Some s else None)"
| "dec_time JNull old = Some old"
| "dec_time _ old = None"

definition dec_state_field :: "string \<Rightarrow> json \<Rightarrow> cstate \<Rightarrow> cstate option" where
  "dec_state_field k v s =
     (if key_is k ''software'' then map_option (\<lambda>x. s\<lparr>s_Software := x\<rparr>) (dec_string v (s_Software s))
      else if key_is k ''current'' then map_option (\<lambda>x. s\<lparr>s_Current := x\<rparr>) (dec_string v (s_Current s))
      else if key_is k ''previous'' then map_option (\<lambda>x. s\<lparr>s_Previous := x\<rparr>) (dec_string v (s_Previous s))
      else if key_is k ''history'' then map_option (\<lambda>x. s\<lparr>s_History := x\<rparr>) (dec_strings v (s_History s))
      else if key_is k ''updated_at'' then map_option (\<lambda>x. s\<lparr>s_UpdatedAt := x\<rparr>) (dec_time v (s_UpdatedAt s))
      else if key_is k ''server_url'' then map_option (\<lambda>x. s\<lparr>s_ServerURL := x\<rparr>) (dec_string v (s_ServerURL s))
      else if key_is k ''server_pubkey_hex''
      then map_option (\<lambda>x. s\<lparr>s_ServerPubKeyHX := x\<rparr>) (dec_string v (s_ServerPubKeyHX s))
      else if key_is k ''client_id'' then map_option (\<lambda>x. s\<lparr>s_ClientID := x\<rparr>) (dec_string v (s_ClientID s))
      else if key_is k ''bearer_token''
      then map_option (\<lambda>x. s\<lparr>s_BearerToken := x\<rparr>) (dec_string v (s_BearerToken s))
      else if key_is k ''os'' then map_option (\<lambda>x. s\<lparr>s_OS := x\<rparr>) (dec_string v (s_OS s))
      else if key_is k ''arch'' then map_option (\<lambda>x. s\<lparr>s_Arch := x\<rparr>) (dec_string v (s_Arch s))
      else Some s)"

definition enc_state :: "cstate \<Rightarrow> bytes" where
  "enc_state s = bytes_of (marshal_indent (state_json s))"

definition dec_state :: "bytes \<Rightarrow> cstate option" where
  "dec_state b =
     (case unmarshal (string_of b) of
        None \<Rightarrow> None | Some v \<Rightarrow> dec_struct dec_state_field zero_state v)"


subsection \<open>Load, Save, FlipCurrent\<close>

definition Load :: "env \<Rightarrow> layout \<Rightarrow> cstate res act" where
  "Load env l = do {
     r \<leftarrow> os_read_file env (StateFile l);
     case r of
       Inl e \<Rightarrow> if is_not_exist e then ok zero_state else fail (WrapErr ''state read'' e)
     | Inr data \<Rightarrow> (case dec_state data of
         None \<Rightarrow> fail (WrapErr ''state parse'' json_err)
       | Some s \<Rightarrow> ok s) }"

definition Save :: "env \<Rightarrow> layout \<Rightarrow> cstate \<Rightarrow> unit res act" where
  "Save env l s = do {
     now \<leftarrow> time_now env;
     let data = enc_state (s\<lparr>s_UpdatedAt := now\<rparr>);
     let tmp = StateFile l @ ''.tmp'';
     attempt (os_write_file env tmp data 420) (\<lambda>_. os_rename env tmp (StateFile l)) }"

definition FlipCurrent :: "env \<Rightarrow> layout \<Rightarrow> string \<Rightarrow> unit res act" where
  "FlipCurrent env l version = do {
     let target = absDistributionDir env l version;
     attempt_as ''state: swap current->previous''
       (SwapCurrentToPrevious env (CurrentSymlink l) (PreviousSymlink l)) (\<lambda>_.
     attempt_as ''state: set current'' (SetCurrent env target (CurrentSymlink l)) (\<lambda>_. ok ())) }"

definition CurrentTarget :: "env \<Rightarrow> layout \<Rightarrow> string res act" where
  "CurrentTarget env l = do {
     r \<leftarrow> ReadCurrent env (CurrentSymlink l);
     case r of
       Inl e \<Rightarrow> if is_not_exist e then fail ErrNotExist else fail e
     | Inr t \<Rightarrow> ok t }"


subsection \<open>state.json round trip\<close>

definition state_ok :: "cstate \<Rightarrow> bool" where
  "state_ok s \<longleftrightarrow>
     list_all ascii [s_Software s, s_Current s, s_Previous s, s_UpdatedAt s, s_ServerURL s,
       s_ServerPubKeyHX s, s_ClientID s, s_BearerToken s, s_OS s, s_Arch s] \<and>
     list_all ascii (s_History s) \<and> rfc3339_ok (s_UpdatedAt s)"

lemma toUpper_keys [simp]:
  "toUpper ''software'' = ''SOFTWARE''" "toUpper ''current'' = ''CURRENT''"
  "toUpper ''previous'' = ''PREVIOUS''" "toUpper ''history'' = ''HISTORY''"
  "toUpper ''updated_at'' = ''UPDATED_AT''" "toUpper ''server_url'' = ''SERVER_URL''"
  "toUpper ''server_pubkey_hex'' = ''SERVER_PUBKEY_HEX''" "toUpper ''client_id'' = ''CLIENT_ID''"
  "toUpper ''bearer_token'' = ''BEARER_TOKEN''" "toUpper ''os'' = ''OS''" "toUpper ''arch'' = ''ARCH''"
  by code_simp+

lemmas dec_state_keys = dec_state_field_def key_is_def equalFold_iff omitempty_def

text \<open>Decoding one optional field into a record where it is still empty.\<close>

lemma dec_optional_fields:
  "s_Current s = [] \<Longrightarrow>
     dec_fields dec_state_field (omitempty ''current'' c) s = Some (s\<lparr>s_Current := c\<rparr>)"
  "s_Previous s = [] \<Longrightarrow>
     dec_fields dec_state_field (omitempty ''previous'' c) s = Some (s\<lparr>s_Previous := c\<rparr>)"
  "s_ServerURL s = [] \<Longrightarrow>
     dec_fields dec_state_field (omitempty ''server_url'' c) s = Some (s\<lparr>s_ServerURL := c\<rparr>)"
  "s_ServerPubKeyHX s = [] \<Longrightarrow>
     dec_fields dec_state_field (omitempty ''server_pubkey_hex'' c) s = Some (s\<lparr>s_ServerPubKeyHX := c\<rparr>)"
  "s_ClientID s = [] \<Longrightarrow>
     dec_fields dec_state_field (omitempty ''client_id'' c) s = Some (s\<lparr>s_ClientID := c\<rparr>)"
  "s_BearerToken s = [] \<Longrightarrow>
     dec_fields dec_state_field (omitempty ''bearer_token'' c) s = Some (s\<lparr>s_BearerToken := c\<rparr>)"
  "s_OS s = [] \<Longrightarrow>
     dec_fields dec_state_field (omitempty ''os'' c) s = Some (s\<lparr>s_OS := c\<rparr>)"
  "s_Arch s = [] \<Longrightarrow>
     dec_fields dec_state_field (omitempty ''arch'' c) s = Some (s\<lparr>s_Arch := c\<rparr>)"
  "s_History s = [] \<Longrightarrow>
     dec_fields dec_state_field (if h = [] then [] else [(''history'', JArr (map JStr h))]) s =
       Some (s\<lparr>s_History := h\<rparr>)"
  by (simp_all add: dec_state_keys)

lemma dec_required_fields:
  "dec_fields dec_state_field [(''software'', JStr c)] s = Some (s\<lparr>s_Software := c\<rparr>)"
  "rfc3339_ok t \<Longrightarrow>
     dec_fields dec_state_field [(''updated_at'', JStr t)] s = Some (s\<lparr>s_UpdatedAt := t\<rparr>)"
  by (simp_all add: dec_state_keys)

lemma dec_state_json:
  assumes "state_ok s"
  shows "dec_struct dec_state_field zero_state (state_json s) = Some s"
proof -
  have "rfc3339_ok (s_UpdatedAt s)" using assms by (simp add: state_ok_def)
  then show ?thesis
    unfolding dec_struct_def state_json_def json.case zero_state_def
    by (simp add: dec_fields_append dec_optional_fields dec_required_fields
        del: dec_fields.simps append.simps)
qed

lemma state_json_ok: "state_ok s \<Longrightarrow> json_ok (state_json s)"
proof -
  assume "state_ok s"
  moreover have "ascii ''software''" "ascii ''current''" "ascii ''previous''" "ascii ''history''"
    "ascii ''updated_at''" "ascii ''server_url''" "ascii ''server_pubkey_hex''" "ascii ''client_id''"
    "ascii ''bearer_token''" "ascii ''os''" "ascii ''arch''"
    by code_simp+
  ultimately show ?thesis
    by (simp add: state_ok_def state_json_def omitempty_def list_all_iff)
qed

interpretation state_file: codec enc_state dec_state state_ok
  by unfold_locales
    (simp add: enc_state_def dec_state_def indented.dec_enc state_json_ok dec_state_json)


subsection \<open>Locations of the layout\<close>

text \<open>A layout whose paths are made as \<open>New\<close> makes them.\<close>

definition layout_at :: "env \<Rightarrow> layout \<Rightarrow> loc \<Rightarrow> bool" where
  "layout_at env l r \<longleftrightarrow> Root l \<noteq> [] \<and> at env (Root l) = r \<and>
     StateFile l = Join [Root l, ''state.json''] \<and>
     BlobsDir l = Join [Root l, ''blobs''] \<and>
     PatchesDir l = Join [Root l, ''patches''] \<and>
     ArchivedDir l = Join [Root l, ''archived''] \<and>
     CurrentSymlink l = Join [Root l, ''current''] \<and>
     PreviousSymlink l = Join [Root l, ''previous'']"

lemma layout_at_New:
  "otaHome \<noteq> [] \<Longrightarrow> plain software \<Longrightarrow>
   layout_at env (New otaHome software) (at env otaHome @ [software])"
  by (simp add: layout_at_def New_def Let_def loc_of_Join_plain Join_pair_not_Nil del: Join.simps)

lemma plain_literals [simp]:
  "plain ''state.json''" "plain ''blobs''" "plain ''patches''" "plain ''archived''"
  "plain ''current''" "plain ''previous''"
  by (simp_all add: plain_def)

lemma layout_named:
  assumes "layout_at env l r"
  shows "named (StateFile l)" "named (CurrentSymlink l)" "named (PreviousSymlink l)"
  using assms by (simp_all add: layout_at_def named_Join del: Join.simps)

lemma layout_locs:
  assumes "layout_at env l r" and "slash \<notin> set x"
  shows "at env (StateFile l @ x) = r @ [''state.json'' @ x]"
    "at env (CurrentSymlink l @ x) = r @ [''current'' @ x]"
    "at env (PreviousSymlink l @ x) = r @ [''previous'' @ x]"
  using assms by (simp_all add: layout_at_def loc_of_Join_suffix plain_append del: Join.simps append.simps)

lemma layout_locs0:
  assumes "layout_at env l r"
  shows "at env (StateFile l) = r @ [''state.json'']"
    "at env (CurrentSymlink l) = r @ [''current'']"
    "at env (PreviousSymlink l) = r @ [''previous'']"
    "at env (BlobsDir l) = r @ [''blobs'']"
    "at env (PatchesDir l) = r @ [''patches'']"
    "at env (ArchivedDir l) = r @ [''archived'']"
  using assms by (simp_all add: layout_at_def loc_of_Join_plain del: Join.simps)

lemma plain_distribution: "slash \<notin> set v \<Longrightarrow> plain (''distribution-'' @ v)"
  by (simp add: plain_def)

lemma plain_blob: "slash \<notin> set v \<Longrightarrow> plain (v @ ''.blob'')"
  by (cases v) (auto simp: plain_def)

lemma at_DistributionDir:
  "layout_at env l r \<Longrightarrow> slash \<notin> set v \<Longrightarrow>
   at env (DistributionDir l v) = r @ [''distribution-'' @ v]"
  unfolding DistributionDir_def layout_at_def
  by (simp add: loc_of_Join_plain plain_distribution del: Join.simps append.simps)

lemma at_BlobPath:
  "layout_at env l r \<Longrightarrow> slash \<notin> set v \<Longrightarrow> at env (BlobPath l v) = r @ [''blobs'', v @ ''.blob'']"
  unfolding BlobPath_def layout_at_def
  by (simp add: loc_of_Join_plain plain_blob Join_pair_not_Nil del: Join.simps)


subsection \<open>Save and Load\<close>

lemma wp_time_now: "wp (time_now env) (\<lambda>t w'. w' = w \<and> t = e_now env (w_ops w)) w"
  by (simp add: wp_def time_now_def)

text \<open>After \<open>Save\<close>, whatever failed, \<^verbatim>\<open>state.json\<close> is the old file or holds the whole new record.\<close>

lemma wp_Save:
  assumes "named (StateFile l)"
  shows "wp (Save env l s) (\<lambda>r w'.
     frame {at env (StateFile l), at env (StateFile l @ ''.tmp'')} w w' \<and>
     (case r of
        Inl _ \<Rightarrow> look w' (at env (StateFile l)) = look w (at env (StateFile l))
      | Inr _ \<Rightarrow> \<exists>m. look w' (at env (StateFile l)) =
          Some (FileNode m (enc_state (s\<lparr>s_UpdatedAt := e_now env (w_ops w)\<rparr>))))) w"
proof (rule wp_keeps)
  show "keeps (frame {at env (StateFile l), at env (StateFile l @ ''.tmp'')}) (Save env l s)"
    unfolding Save_def Let_def by (intro keeps_intros) auto
  have ne [simp]: "at env (StateFile l @ ''.tmp'') \<noteq> at env (StateFile l)"
    "at env (StateFile l) \<noteq> at env (StateFile l @ ''.tmp'')"
    using assms by (simp_all add: loc_of_suffix_eq_self)
  show "wp (Save env l s) (\<lambda>r w'. case r of
        Inl _ \<Rightarrow> look w' (at env (StateFile l)) = look w (at env (StateFile l))
      | Inr _ \<Rightarrow> \<exists>m. look w' (at env (StateFile l)) =
          Some (FileNode m (enc_state (s\<lparr>s_UpdatedAt := e_now env (w_ops w)\<rparr>)))) w"
    unfolding Save_def Let_def
    apply (rule wp_bindI [OF wp_time_now])
    apply (rule wp_attemptI [OF wp_os_write_file])
     apply (simp add: frame_def)
    apply (rule wp_mono [OF wp_os_rename])
    apply (auto simp: frame_def same_files_look split: sum.splits)
    done
qed

text \<open>The record in \<^verbatim>\<open>state.json\<close>: the empty one where there is no such file.\<close>

definition recorded :: "env \<Rightarrow> layout \<Rightarrow> world \<Rightarrow> cstate \<Rightarrow> bool" where
  "recorded env l w st \<longleftrightarrow>
     (case look w (at env (StateFile l)) of
        None \<Rightarrow> st = zero_state
      | Some (FileNode m d) \<Rightarrow> dec_state d = Some st
      | Some _ \<Rightarrow> False)"

lemma recorded_same: "look w' (at env (StateFile l)) = look w (at env (StateFile l)) \<Longrightarrow>
    recorded env l w' st = recorded env l w st"
  by (simp add: recorded_def)

lemma recorded_unique: "recorded env l w st \<Longrightarrow> recorded env l w st' \<Longrightarrow> st' = st"
  by (auto simp: recorded_def split: option.splits node.splits)

lemma wp_Load:
  "wp (Load env l) (\<lambda>r w'. same_files w w' \<and>
     (case r of Inl _ \<Rightarrow> True | Inr s \<Rightarrow> recorded env l w s)) w"
proof (intro wp_keeps wpI)
  show "keeps same_files (Load env l)"
    unfolding Load_def by (intro sf.keeps_rules keeps_same_files)
  fix r w'
  assume run: "run_state (Load env l) w = (r, w')"
  obtain x w1 where x: "run_state (os_read_file env (StateFile l)) w = (x, w1)" by (metis prod.exhaust)
  have "case x of Inl e \<Rightarrow> is_not_exist e \<longrightarrow> look w (at env (StateFile l)) = None
      | Inr d \<Rightarrow> \<exists>m. look w (at env (StateFile l)) = Some (FileNode m d)"
    using x by (auto simp: os_read_file_def run_state_fs_op Let_def t_read_file_def look_def
        split: option.splits node.splits)
  with run x show "case r of Inl _ \<Rightarrow> True | Inr s \<Rightarrow> recorded env l w s"
    by (auto simp: Load_def recorded_def split: sum.splits option.splits if_splits)
qed

text \<open>With no faulty call \<open>Load\<close> reads what the file says.\<close>

lemma Load_no_fault:
  assumes "e_fault env (w_ops w) = None"
    and "look w (at env (StateFile l)) = Some (FileNode m (enc_state s))" and "state_ok s"
  shows "fst (run_state (Load env l) w) = Inr s"
  using assms
  by (simp add: Load_def os_read_file_def run_state_fs_op Let_def t_read_file_def look_def
      state_file.dec_enc)


subsection \<open>The flip\<close>

lemma layout_links_apart:
  assumes "layout_at env l r"
  shows "links_apart env (CurrentSymlink l) (PreviousSymlink l)"
proof -
  have "slash \<notin> set shimSuffix" by simp
  then show ?thesis
    using layout_named [OF assms] layout_locs0 [OF assms] layout_locs [OF assms, of shimSuffix]
    by (simp add: links_apart_def shimSuffix_def)
qed

definition flip_locs :: "loc \<Rightarrow> loc set" where
  "flip_locs r = (\<lambda>n. r @ [n]) `
     {''current'', ''current.path'', ''current.tmp'', ''current.path.tmp'', ''previous'', ''previous.path''}"

lemma flip_locs_cover:
  assumes "layout_at env l r"
  shows "link_locs env (CurrentSymlink l) \<union>
     {at env (PreviousSymlink l), at env (PreviousSymlink l @ shimSuffix)} = flip_locs r"
proof -
  have "slash \<notin> set shimSuffix" "slash \<notin> set ''.tmp''" "slash \<notin> set (shimSuffix @ ''.tmp'')"
    by (simp_all add: shimSuffix_def)
  then show ?thesis
    using layout_locs0 [OF assms] layout_locs [OF assms, of shimSuffix]
      layout_locs [OF assms, of "''.tmp''"] layout_locs [OF assms, of "shimSuffix @ ''.tmp''"]
    by (auto simp: link_locs_def flip_locs_def shimSuffix_def)
qed

lemma keeps_FlipCurrent:
  assumes "layout_at env l r" and "flip_locs r \<subseteq> L"
  shows "keeps (frame L) (FlipCurrent env l v)"
  unfolding FlipCurrent_def Let_def
  using flip_locs_cover [OF assms(1)] assms(2)
  by (intro keeps_intros) (auto simp: link_locs_def)

text \<open>
  The targets visible after a flip, whatever failed: through \<open>current\<close> an old one or the
  distribution asked for, through \<open>previous\<close> an old one of either link.
\<close>

definition flip_post :: "env \<Rightarrow> layout \<Rightarrow> string \<Rightarrow> world \<Rightarrow> unit res \<Rightarrow> world \<Rightarrow> bool" where
  "flip_post env l dest w r w' \<longleftrightarrow>
     targets env (CurrentSymlink l) w' \<subseteq>
       targets env (CurrentSymlink l) w \<union> {dest, trimRight dest shim_trim} \<and>
     targets env (PreviousSymlink l) w' \<subseteq>
       targets env (PreviousSymlink l) w \<union> targets env (CurrentSymlink l) w \<and>
     (is_ok r \<longrightarrow>
       look w' (at env (CurrentSymlink l)) = Some (LinkNode dest) \<or>
       (\<exists>m. look w' (at env (CurrentSymlink l @ shimSuffix)) =
          Some (FileNode m (bytes_of (dest @ newline)))))"

lemma wp_FlipCurrent:
  assumes l: "layout_at env l r" and dest: "Abs env (absDistributionDir env l v) = Inr dest"
  shows "wp (FlipCurrent env l v) (\<lambda>res w'. frame (flip_locs r) w w' \<and> flip_post env l dest w res w') w"
proof (rule wp_keeps)
  let ?c = "CurrentSymlink l" and ?p = "PreviousSymlink l"
  show "keeps (frame (flip_locs r)) (FlipCurrent env l v)"
    by (rule keeps_FlipCurrent [OF l]) simp
  have apart: "links_apart env ?c ?p" by (rule layout_links_apart [OF l])
  have nc: "named ?c" using l by (rule layout_named)
  have pdisj: "at env ?p \<notin> link_locs env ?c" "at env (?p @ shimSuffix) \<notin> link_locs env ?c"
  proof -
    have "slash \<notin> set shimSuffix" "slash \<notin> set ''.tmp''" "slash \<notin> set (shimSuffix @ ''.tmp'')"
      by (simp_all add: shimSuffix_def)
    then show "at env ?p \<notin> link_locs env ?c" "at env (?p @ shimSuffix) \<notin> link_locs env ?c"
      using layout_locs0 [OF l] layout_locs [OF l, of shimSuffix]
        layout_locs [OF l, of "''.tmp''"] layout_locs [OF l, of "shimSuffix @ ''.tmp''"]
      by (simp_all add: link_locs_def shimSuffix_def)
  qed
  have swap: "wp (SwapCurrentToPrevious env ?c ?p) (\<lambda>_. swap_post env ?c ?p w) w"
    using keeps_swap_post [OF apart] by (rule keeps_wp)
  have step: "flip_post env l dest w (map_sum (WrapErr t) (\<lambda>_. ()) x) w2"
    if "swap_post env ?c ?p w w1" "frame (link_locs env ?c) w1 w2"
      "set_current_post env ?c dest w1 x w2" for x w1 w2 t
  proof -
    have "targets env ?p w2 = targets env ?p w1"
      using that(2) pdisj by (intro targets_same) (auto dest: frameD)
    moreover have "targets env ?c w2 \<subseteq> targets env ?c w1 \<union> {dest, trimRight dest shim_trim}"
      using that(3) by (simp add: set_current_post_def)
    moreover have "is_ok x \<longrightarrow> look w2 (at env ?c) = Some (LinkNode dest) \<or>
       (\<exists>m. look w2 (at env (?c @ shimSuffix)) = Some (FileNode m (bytes_of (dest @ newline))))"
      using that(3) by (auto simp: set_current_post_def is_ok_def split: sum.splits kind.splits)
    ultimately show ?thesis
      using that(1) unfolding flip_post_def swap_post_def by (auto simp: is_ok_def split: sum.splits)
  qed
  show "wp (FlipCurrent env l v) (flip_post env l dest w) w"
    unfolding FlipCurrent_def Let_def
  proof (rule wp_attempt_asI [OF swap])
    fix e w1
    assume "swap_post env ?c ?p w w1"
    then show "flip_post env l dest w (Inl (WrapErr ''state: swap current->previous'' e)) w1"
      by (auto simp: swap_post_def flip_post_def)
  next
    fix x w1
    assume sp: "swap_post env ?c ?p w w1"
    show "wp (attempt_as ''state: set current'' (SetCurrent env (absDistributionDir env l v) ?c) (\<lambda>_. ok ()))
        (flip_post env l dest w) w1"
      by (rule wp_attempt_asI [OF wp_SetCurrent [OF nc dest]])
        (use step [OF sp] in \<open>force simp: wp_simps\<close>)+
  qed
qed


subsection \<open>A flip in which nothing fails\<close>

lemma flip_locs_parent:
  assumes "layout_at env l r"
  shows "butlast (at env (CurrentSymlink l)) = r" "butlast (at env (PreviousSymlink l)) = r"
  using layout_locs0 [OF assms] by simp_all

text \<open>\<open>C10\<close>. A flip during which no call fails makes \<^verbatim>\<open>current\<close> name the distribution asked for
  and \<^verbatim>\<open>previous\<close> what \<^verbatim>\<open>current\<close> named; on a first install \<^verbatim>\<open>previous\<close> stays as it was. The
  links may be symbolic links or shims before.\<close>

theorem flip_switches:
  assumes "no_faults env" and "layout_at env l r" and "look w r = Some DirNode"
    and "no_dirs (flip_locs r) w" and "Abs env (absDistributionDir env l v) = Inr dest"
    and "run_state (FlipCurrent env l v) w = (res, w')"
  shows "res = Inr () \<and> pointer env (CurrentSymlink l) w' = Some dest \<and>
     pointer env (PreviousSymlink l) w' =
       (case pointer env (CurrentSymlink l) w of
          Some t \<Rightarrow> Some t | None \<Rightarrow> pointer env (PreviousSymlink l) w)"
proof -
  let ?c = "CurrentSymlink l" and ?p = "PreviousSymlink l"
  note l = assms(2)
  have n: "named ?c" using l by (rule layout_named)
  have cover: "link_locs env ?c \<union> {at env ?p, at env (?p @ shimSuffix)} = flip_locs r"
    by (rule flip_locs_cover [OF l])
  have nd: "no_dirs {at env ?c, at env (?c @ shimSuffix), at env ?p, at env (?p @ shimSuffix)} w"
    using assms(4) cover unfolding no_dirs_def link_locs_def by blast
  have disj: "at env ?p \<notin> link_locs env ?c" "at env (?p @ shimSuffix) \<notin> link_locs env ?c"
    using layout_locs0 [OF l] layout_locs [OF l, of shimSuffix] layout_locs [OF l, of "''.tmp''"]
      layout_locs [OF l, of "shimSuffix @ ''.tmp''"]
    by (simp_all add: link_locs_def shimSuffix_def)
  have r_out: "r \<notin> flip_locs r" by (auto simp: flip_locs_def)
  have swap_frame: "keeps (frame (flip_locs r)) (SwapCurrentToPrevious env ?c ?p)"
    using cover by (intro keeps_intros) (auto simp: link_locs_def)
  have "wp (FlipCurrent env l v) (\<lambda>res w'. res = Inr () \<and> pointer env ?c w' = Some dest \<and>
     pointer env ?p w' = (case pointer env ?c w of Some t \<Rightarrow> Some t | None \<Rightarrow> pointer env ?p w)) w"
    unfolding FlipCurrent_def Let_def
  proof (rule wp_attempt_asI [OF wp_keeps [OF swap_frame nf_Swap [OF assms(1) layout_links_apart [OF l] _ nd]]],
      goal_cases)
    case 1
    then show ?case using flip_locs_parent [OF l] assms(3) by simp
  next
    case (3 u w1)
    have dir1: "look w1 (butlast (at env ?c)) = Some DirNode"
      using 3 assms(3) r_out by (simp add: flip_locs_parent [OF l] frame_def)
    have nd1: "no_dirs (link_locs env ?c) w1"
      using 3 assms(4) cover unfolding no_dirs_def by blast
    have sc: "wp (SetCurrent env (absDistributionDir env l v) ?c) (\<lambda>x w2. frame (link_locs env ?c) w1 w2 \<and>
        x = Inr KindSymlink \<and> pointer env ?c w2 = Some dest \<and> targets env ?c w2 = {dest}) w1"
      by (intro wp_keeps nf_SetCurrent assms n dir1 nd1 keeps_SetCurrent) simp
    show ?case
    proof (rule wp_attempt_asI [OF sc], goal_cases)
      case (2 x w2)
      then have "pointer env ?p w2 = pointer env ?p w1"
        using disj by (intro pointer_same) (auto dest: frameD)
      with 2 3 show ?case by (simp add: wp_simps)
    qed simp
  qed simp
  then show ?thesis using assms(6) by (rule wpD)
qed


text \<open>The product \<^verbatim>\<open>app\<close> with version 1 installed, as the examples have it.\<close>

definition demo_layout :: layout where
  "demo_layout = New ''/home'' ''app''"

definition demo_world :: world where
  "demo_world = world_of
     [([''home''], DirNode), ([''home'', ''app''], DirNode),
      ([''home'', ''app'', ''current''], LinkNode ''/home/app/distribution-1'')]"

lemma demo_layout_at:
  "e_cwd env = [] \<Longrightarrow> layout_at env demo_layout [''home'', ''app'']"
  unfolding demo_layout_def
  using layout_at_New [of "''/home''" "''app''" env]
  by (simp add: plain_def loc_of_def IsAbs_def rstep_def)

lemma demo_world_look:
  "look demo_world [''home'', ''app''] = Some DirNode"
  "no_dirs (flip_locs [''home'', ''app'']) demo_world"
  by (simp_all add: demo_world_def world_of_def look_def node_at_def no_dirs_def flip_locs_def)

lemma demo_dist:
  "Abs calm (absDistributionDir calm demo_layout ''2'') = Inr ''/home/app/distribution-2''"
  by code_simp

theorem flip_switches_witness:
  "\<exists>res w'. run_state (FlipCurrent calm demo_layout ''2'') demo_world = (res, w') \<and> res = Inr () \<and>
     pointer calm (CurrentSymlink demo_layout) w' = Some ''/home/app/distribution-2'' \<and>
     pointer calm (PreviousSymlink demo_layout) w' = Some ''/home/app/distribution-1''"
proof -
  obtain res w' where 1: "run_state (FlipCurrent calm demo_layout ''2'') demo_world = (res, w')"
    by fastforce
  have "pointer calm (CurrentSymlink demo_layout) demo_world = Some ''/home/app/distribution-1''"
    by code_simp
  with flip_switches [OF calm_no_faults(1) demo_layout_at demo_world_look demo_dist 1] 1
  show ?thesis by simp
qed

text \<open>\<open>C11\<close>. Whatever call of a flip fails, and wherever it is cut by a crash, a process that
  later reads \<^verbatim>\<open>current\<close> finds a target that \<^verbatim>\<open>current\<close> had before or the distribution asked for,
  and one that reads \<^verbatim>\<open>previous\<close> a target one of the two had before: never a torn path. No
  file but the two links, their shims and temporaries changes.\<close>

theorem flip_never_torn:
  assumes "layout_at env l r" and "Abs env (absDistributionDir env l v) = Inr dest"
    and "run_state (FlipCurrent env l v) w = (res, w')" and "e_cwd env' = e_cwd env"
  shows "frame (flip_locs r) w w' \<and>
    (\<forall>t. fst (run_state (ReadCurrent env' (CurrentSymlink l)) w') = Inr t \<longrightarrow>
       t \<in> targets env (CurrentSymlink l) w \<union> {dest, trimRight dest shim_trim}) \<and>
    (\<forall>t. fst (run_state (ReadCurrent env' (PreviousSymlink l)) w') = Inr t \<longrightarrow>
       t \<in> targets env (PreviousSymlink l) w \<union> targets env (CurrentSymlink l) w)"
proof -
  have fp: "frame (flip_locs r) w w' \<and> flip_post env l dest w res w'"
    by (rule wpD [OF wp_FlipCurrent [OF assms(1,2)] assms(3)])
  have same: "targets env' x w' = targets env x w'" for x
    by (simp add: targets_def assms(4))
  have read: "t \<in> targets env x w'" if "fst (run_state (ReadCurrent env' x) w') = Inr t" for x t
    using that ReadCurrent_in_targets [of env' x w' t "snd (run_state (ReadCurrent env' x) w')"]
    by (simp add: same prod_eq_iff)
  show ?thesis
    using fp read unfolding flip_post_def by blast
qed

text \<open>The example's flip cut at its seventh call, with an ordinary process reading afterwards.\<close>

theorem flip_never_torn_witness:
  "let w' = snd (run_state (FlipCurrent (cut_at 7) demo_layout ''2'') demo_world) in
   frame (flip_locs [''home'', ''app'']) demo_world w' \<and>
   fst (run_state (ReadCurrent calm (PreviousSymlink demo_layout)) w') = Inr ''/home/app/distribution-1'' \<and>
   ''/home/app/distribution-1'' \<in>
     targets (cut_at 7) (PreviousSymlink demo_layout) demo_world \<union>
     targets (cut_at 7) (CurrentSymlink demo_layout) demo_world"
proof -
  let ?w = "snd (run_state (FlipCurrent (cut_at 7) demo_layout ''2'') demo_world)"
  obtain res where 1: "run_state (FlipCurrent (cut_at 7) demo_layout ''2'') demo_world = (res, ?w)"
    by (metis prod.collapse)
  have d: "Abs (cut_at 7) (absDistributionDir (cut_at 7) demo_layout ''2'') = Inr ''/home/app/distribution-2''"
    by code_simp
  have "fst (run_state (ReadCurrent calm (PreviousSymlink demo_layout)) ?w) = Inr ''/home/app/distribution-1''"
    by code_simp
  with flip_never_torn [OF demo_layout_at d 1, of calm] show ?thesis
    by (simp add: Let_def)
qed

subsection \<open>A flip that stops between its steps\<close>

text \<open>Single calls that do not fail, by the number of the call; each call counts one.\<close>

lemma wp_one_op:
  "wp (os_remove env p) (\<lambda>_ w'. w_ops w' = Suc (w_ops w)) w"
  "wp (os_symlink env t p) (\<lambda>_ w'. w_ops w' = Suc (w_ops w)) w"
  by (auto intro!: wpI simp: os_defs run_state_fs_op Let_def split: prod.splits)

lemma one_remove: "wp (os_remove env p) (\<lambda>_ w'. frame {at env p} w w' \<and>
    (look w' (at env p) = look w (at env p) \<or> look w' (at env p) = None) \<and> w_ops w' = Suc (w_ops w)) w"
  by (rule wp_mono [OF wp_conj [OF wp_os_remove wp_one_op(1)]]) auto

lemma calm_remove:
  assumes "e_fault env (w_ops w) = None" and "look w (at env p) \<noteq> Some DirNode"
  shows "wp (os_remove env p) (\<lambda>_ w'. frame {at env p} w w' \<and> look w' (at env p) = None \<and>
     w_ops w' = Suc (w_ops w)) w"
proof -
  have "at env p \<noteq> []" using assms(2) by auto
  with assms have "wp (os_remove env p) (\<lambda>_ w'. look w' (at env p) = None) w"
    by (auto intro!: wpI simp: os_remove_def run_state_fs_op Let_def t_remove_def
        look_def split: option.splits prod.splits if_splits)
  from wp_mono [OF wp_conj [OF one_remove this]] show ?thesis by (rule wp_mono) auto
qed

lemma calm_readlink:
  "e_fault env (w_ops w) = None \<Longrightarrow> look w (at env p) = Some (LinkNode t) \<Longrightarrow>
   wp (os_readlink env p) (\<lambda>r w'. same_files w w' \<and> r = Inr t \<and> w_ops w' = Suc (w_ops w)) w"
  by (auto intro!: wpI simp: os_readlink_def run_state_fs_op Let_def t_readlink_def look_def same_files_def)

lemma calm_rename:
  assumes "e_fault env (w_ops w) = None" and "look w (at env p) = Some (LinkNode t)"
    and "look w (at env q) = None" and "look w (butlast (at env q)) = Some DirNode" and "at env p \<noteq> at env q"
  shows "wp (os_rename env p q) (\<lambda>r w'. frame {at env p, at env q} w w' \<and>
     look w' (at env q) = Some (LinkNode t) \<and> look w' (at env p) = None \<and> r = Inr () \<and>
     w_ops w' = Suc (w_ops w)) w"
proof -
  have "at env p \<noteq> []" "at env q \<noteq> []" using assms by auto
  with assms show ?thesis
    by (auto intro!: wpI simp: os_rename_def run_state_fs_op Let_def t_rename_def look_def frame_def)
qed

lemma cut_call:
  "e_fault env (w_ops w) = Some 0 \<Longrightarrow>
     wp (os_rename env p q) (\<lambda>r w'. (\<forall>k. look w' k = look w k) \<and> \<not> is_ok r \<and> w_ops w' = Suc (w_ops w)) w"
  "e_fault env (w_ops w) = Some 0 \<Longrightarrow>
     wp (os_write_file env p d perm) (\<lambda>r w'. same_files w w' \<and> \<not> is_ok r) w"
  by (auto intro!: wpI simp: os_rename_def os_write_file_def run_state_fs_op Let_def t_rename_def
      t_write_file_def same_files_def look_def split: sum.splits)

lemma swap_of_link:
  assumes ap: "links_apart env c p" and dir: "look w (butlast (at env p)) = Some DirNode"
    and nd: "no_dirs {at env p, at env (p @ shimSuffix)} w" and t: "look w (at env c) = Some (LinkNode t)"
    and ok: "\<forall>i<4. e_fault env (w_ops w + i) = None"
  shows "wp (SwapCurrentToPrevious env c p) (\<lambda>r w'. r = Inr () \<and> look w' (at env c) = None \<and>
     look w' (at env p) = Some (LinkNode t) \<and>
     look w' (at env (c @ shimSuffix)) = look w (at env (c @ shimSuffix)) \<and> w_ops w' = w_ops w + 4) w"
proof -
  have n: "named c" "named p" using ap by (simp_all add: links_apart_def)
  have ne: "at env c \<noteq> at env (c @ shimSuffix)" "at env p \<noteq> at env (p @ shimSuffix)" using n by simp_all
  have ne2: "at env c \<noteq> at env p" "at env c \<noteq> at env (p @ shimSuffix)" "at env (c @ shimSuffix) \<noteq> at env p"
    "at env (c @ shimSuffix) \<noteq> at env (p @ shimSuffix)"
    using ap by (auto simp: links_apart_def)
  have up: "butlast (at env p) \<noteq> at env p" "butlast (at env p) \<noteq> at env (p @ shimSuffix)"
    using parent_not_self [OF n(2), of "[]"] parent_not_self [OF n(2), of shimSuffix] by simp_all
  have o: "e_fault env (w_ops w) = None" "e_fault env (Suc (w_ops w)) = None"
    "e_fault env (Suc (Suc (w_ops w))) = None" "e_fault env (Suc (Suc (Suc (w_ops w)))) = None"
    using ok [rule_format, of 0] ok [rule_format, of 1] ok [rule_format, of 2] ok [rule_format, of 3]
    by (simp_all add: numeral_eq_Suc)
  show ?thesis
    unfolding SwapCurrentToPrevious_def
    apply (rule wp_bindI [OF calm_readlink [OF o(1) t]])
    apply (elim conjE, simp only: sum.case)
    apply (rule wp_bindI [OF calm_remove])
      apply (use o(2) in simp)
     apply (use nd in \<open>simp add: no_dirs_def same_files_look\<close>)
    apply (rule wp_bindI [OF calm_remove])
      apply (use o(3) in simp)
     apply (use nd ne in \<open>simp add: no_dirs_def same_files_look frame_def\<close>)
    apply (rule wp_mono [OF calm_rename [where t = t]])
         apply (use o(4) in simp)
        apply (use t ne2 in \<open>simp add: same_files_look frame_def\<close>)
       apply (use ne in \<open>simp add: frame_def\<close>)
      apply (use dir up in \<open>simp add: same_files_look frame_def\<close>)
     apply (rule ne2(1))
    apply (use ne ne2 in \<open>simp add: same_files_look frame_def\<close>)
    done
qed

lemma still_none:
  "frame {q} v v' \<and> (look v' q = look v q \<or> look v' q = None) \<and> x \<Longrightarrow> look v k = None \<Longrightarrow> look v' k = None"
  by (cases "k = q") (auto simp: frame_def)

text \<open>Setting the link, when the machine stops before the new link is in place.\<close>

lemma shim_cut:
  "e_fault env (w_ops w) = Some 0 \<Longrightarrow>
   wp (attempt (writeShim env p d) (\<lambda>_. ok k)) (\<lambda>r w'. same_files w w' \<and> \<not> is_ok r) w"
proof -
  assume f: "e_fault env (w_ops w) = Some 0"
  have "wp (writeShim env p d) (\<lambda>r w'. same_files w w' \<and> \<not> is_ok r) w"
    unfolding writeShim_def Let_def by (rule wp_attemptI [OF cut_call(2) [OF f]]) simp_all
  then show ?thesis by (rule wp_attemptI) simp_all
qed

lemma set_current_cut:
  assumes n: "named link" and dest: "Abs env target = Inr dest"
    and none: "look w (at env link) = None" "look w (at env (link @ shimSuffix)) = None"
    and cut: "\<forall>i\<ge>4. e_fault env (w_ops w + i) = Some 0"
  shows "wp (SetCurrent env target link) (\<lambda>r w'. \<not> is_ok r \<and> look w' (at env link) = None \<and>
     look w' (at env (link @ shimSuffix)) = None) w"
proof -
  let ?Q = "\<lambda>r w'. \<not> is_ok r \<and> look w' (at env link) = None \<and> look w' (at env (link @ shimSuffix)) = None"
  let ?shim = "attempt (writeShim env (link @ shimSuffix) dest) (\<lambda>_. ok KindShim)"
  have c: "e_fault env (w_ops v) = Some 0" if "w_ops w + 4 \<le> w_ops v" for v :: world
    using cut [rule_format, of "w_ops v - w_ops w"] that by simp
  have shim: "wp ?shim ?Q v" if "w_ops w + 4 \<le> w_ops v" "look v (at env link) = None"
    "look v (at env (link @ shimSuffix)) = None" for v
    by (rule wp_mono [OF shim_cut [OF c [OF that(1)]]]) (use that in \<open>auto simp: same_files_look\<close>)
  have rem: "wp (os_remove env p) (\<lambda>_ v'. w_ops v' = Suc (w_ops v) \<and> look v' (at env link) = None \<and>
      look v' (at env (link @ shimSuffix)) = None) v"
    if "look v (at env link) = None" "look v (at env (link @ shimSuffix)) = None" for p v
    by (rule wp_mono [OF one_remove]) (use that still_none in \<open>blast\<close>)
  have sym: "wp (os_symlink env dest (link @ ''.tmp'')) (\<lambda>_ v'. w_ops v' = Suc (w_ops v) \<and>
      look v' (at env link) = None \<and> look v' (at env (link @ shimSuffix)) = None) v"
    if "look v (at env link) = None" "look v (at env (link @ shimSuffix)) = None" for v
    by (rule wp_mono [OF wp_conj [OF wp_os_symlink wp_one_op(2)]])
      (use that link_locs_distinct [OF n] in \<open>auto simp: frame_def\<close>)
  have fallback: "wp (do { _ \<leftarrow> os_remove env (link @ ''.tmp''); ?shim }) ?Q v"
    if "w_ops w + 4 \<le> w_ops v" "look v (at env link) = None" "look v (at env (link @ shimSuffix)) = None" for v
    by (rule wp_bindI [OF rem [OF that(2,3)]]) (use that in \<open>auto intro!: shim\<close>)
  show ?thesis
    unfolding SetCurrent_def dest sum.case Let_def
    apply (rule wp_bindI [OF rem [OF none]])
    apply (rule wp_bindI [OF rem], simp, simp)
    apply (rule wp_bindI [OF rem], simp, simp)
    apply (rule wp_bindI [OF sym], simp, simp)
    subgoal for _ w1 _ w2 _ w3 r w4
      apply (cases r)
       apply (simp add: shim)
      apply simp
      apply (rule wp_bindI [OF cut_call(1)])
       apply (rule c, simp)
      subgoal for r' w5 by (cases r') (simp_all add: fallback)
      done
    done
qed

text \<open>\<open>C21\<close>. The flip is two steps, and between them \<^verbatim>\<open>current\<close> does not exist. Whatever the links
  name: when the four calls of the swap succeed and the machine stops before the new link is renamed
  into place, which is the ninth call (so at the fifth to the ninth, whatever the ones between do),
  \<^verbatim>\<open>previous\<close> names what \<^verbatim>\<open>current\<close> named, and nothing can be read from \<^verbatim>\<open>current\<close> afterwards.\<close>

theorem flip_gap:
  assumes "layout_at env l r" and "look w r = Some DirNode" and "no_dirs (flip_locs r) w"
    and "look w (at env (CurrentSymlink l)) = Some (LinkNode t)"
    and "look w (at env (CurrentSymlink l @ shimSuffix)) = None"
    and "Abs env (absDistributionDir env l v) = Inr dest"
    and "\<forall>i<4. e_fault env (w_ops w + i) = None" and "\<forall>i\<ge>8. e_fault env (w_ops w + i) = Some 0"
    and "run_state (FlipCurrent env l v) w = (res, w')"
    and "no_faults env'" and "e_cwd env' = e_cwd env"
  shows "\<not> is_ok res \<and> fst (run_state (ReadCurrent env' (CurrentSymlink l)) w') = Inl ErrNotExist \<and>
    fst (run_state (ReadCurrent env' (PreviousSymlink l)) w') = Inr t"
proof -
  let ?c = "CurrentSymlink l" and ?p = "PreviousSymlink l"
  note l = assms(1)
  have cover: "link_locs env ?c \<union> {at env ?p, at env (?p @ shimSuffix)} = flip_locs r"
    by (rule flip_locs_cover [OF l])
  have nd: "no_dirs {at env ?p, at env (?p @ shimSuffix)} w"
    using assms(3) cover unfolding no_dirs_def by blast
  have p: "at env ?p \<notin> link_locs env ?c"
    using layout_locs0 [OF l] layout_locs [OF l, of shimSuffix] layout_locs [OF l, of "''.tmp''"]
      layout_locs [OF l, of "shimSuffix @ ''.tmp''"]
    by (simp add: link_locs_def shimSuffix_def)
  have dir: "look w (butlast (at env ?p)) = Some DirNode"
    using assms(2) by (simp add: flip_locs_parent [OF l])
  have "wp (FlipCurrent env l v) (\<lambda>res w'. \<not> is_ok res \<and> look w' (at env ?c) = None \<and>
     look w' (at env (?c @ shimSuffix)) = None \<and> look w' (at env ?p) = Some (LinkNode t)) w"
    unfolding FlipCurrent_def Let_def
  proof (rule wp_attempt_asI [OF swap_of_link [OF layout_links_apart [OF l] dir nd assms(4,7)]], goal_cases)
    case (2 u w1)
    have k: "keeps (frame (link_locs env ?c)) (SetCurrent env (absDistributionDir env l v) ?c)"
      by (rule keeps_SetCurrent) simp
    have cut: "\<forall>i\<ge>4. e_fault env (w_ops w1 + i) = Some 0"
    proof (intro allI impI)
      fix i :: nat
      assume "4 \<le> i"
      then show "e_fault env (w_ops w1 + i) = Some 0"
        using 2 assms(8) [rule_format, of "4 + i"] by (simp add: add.assoc)
    qed
    show ?case
      by (rule wp_attempt_asI [OF wp_keeps [OF k set_current_cut [OF layout_named(2) [OF l] assms(6) _ _ cut]]])
        (use 2 assms(5) p in \<open>auto simp: is_ok_def frame_def split: sum.splits\<close>)
  qed simp
  from wpD [OF this assms(9)] show ?thesis
    using ReadCurrent_pointer [of env' _ w'] assms(10,11)
    by (simp add: no_faults_def pointer_def)
qed

theorem flip_gap_witness:
  "let w' = snd (run_state (FlipCurrent (cut_at 6) demo_layout ''2'') demo_world) in
   fst (run_state (ReadCurrent calm (CurrentSymlink demo_layout)) w') = Inl ErrNotExist \<and>
   fst (run_state (ReadCurrent calm (PreviousSymlink demo_layout)) w') = Inr ''/home/app/distribution-1''"
proof -
  let ?m = "run_state (FlipCurrent (cut_at 6) demo_layout ''2'') demo_world"
  have 1: "?m = (fst ?m, snd ?m)" by simp
  have d: "Abs (cut_at 6) (absDistributionDir (cut_at 6) demo_layout ''2'') = Inr ''/home/app/distribution-2''"
    by code_simp
  have c: "look demo_world (at (cut_at 6) (CurrentSymlink demo_layout)) = Some (LinkNode ''/home/app/distribution-1'')"
    "look demo_world (at (cut_at 6) (CurrentSymlink demo_layout @ shimSuffix)) = None"
    by code_simp+
  have f: "\<forall>i<4. e_fault (cut_at 6) (w_ops demo_world + i) = None" "\<forall>i\<ge>8. e_fault (cut_at 6) (w_ops demo_world + i) = Some 0"
    by (simp_all add: cut_at_def demo_world_def world_of_def calm_def)
  from flip_gap [OF demo_layout_at demo_world_look c d f 1 calm_no_faults(1)] show ?thesis
    by (simp add: Let_def cut_at_def)
qed


subsection \<open>state.json, saved and loaded\<close>

text \<open>\<open>C17\<close>. \<open>Save\<close> replaces \<^verbatim>\<open>state.json\<close> at once: if it returns an error, or the machine stops
  during it, the file is the old one; if it succeeds the file is the whole encoding of the new
  record with the time of the call. Only \<^verbatim>\<open>state.json\<close> and \<^verbatim>\<open>state.json.tmp\<close> can change.\<close>

theorem save_all_or_nothing:
  assumes "layout_at env l r" and "run_state (Save env l s) w = (res, w')"
  shows "frame {r @ [''state.json''], r @ [''state.json.tmp'']} w w' \<and>
    (case res of
       Inl _ \<Rightarrow> look w' (r @ [''state.json'']) = look w (r @ [''state.json''])
     | Inr _ \<Rightarrow> \<exists>m. look w' (r @ [''state.json'']) =
         Some (FileNode m (enc_state (s\<lparr>s_UpdatedAt := e_now env (w_ops w)\<rparr>))))"
  using wpD [OF wp_Save [OF layout_named(1) [OF assms(1)]] assms(2)]
    layout_locs0 [OF assms(1)] layout_locs [OF assms(1), of "''.tmp''"]
  by (cases res) simp_all

theorem save_all_or_nothing_witness:
  "let w' = snd (run_state (Save (cut_at 1) demo_layout zero_state) demo_world) in
     look w' [''home'', ''app'', ''state.json''] = look demo_world [''home'', ''app'', ''state.json'']"
proof -
  let ?m = "run_state (Save (cut_at 1) demo_layout zero_state) demo_world"
  have 1: "?m = (fst ?m, snd ?m)" by simp
  have e: "\<not> is_ok (fst ?m)" by code_simp
  show ?thesis
    using save_all_or_nothing [OF demo_layout_at 1] e
    by (cases "fst ?m") (simp_all add: Let_def)
qed

text \<open>\<open>C19\<close>. What \<open>Save\<close> wrote is what \<open>Load\<close> reads, with the time of the save: for every record
  of ASCII strings, in any later process whose read of the file does not fail.\<close>

theorem load_after_save:
  assumes "layout_at env l r" and "run_state (Save env l s) w = (Inr (), w')"
    and "state_ok (s\<lparr>s_UpdatedAt := e_now env (w_ops w)\<rparr>)"
    and "e_cwd env' = e_cwd env" and "e_fault env' (w_ops w') = None"
  shows "fst (run_state (Load env' l) w') = Inr (s\<lparr>s_UpdatedAt := e_now env (w_ops w)\<rparr>)"
proof -
  obtain m where "look w' (at env (StateFile l)) =
      Some (FileNode m (enc_state (s\<lparr>s_UpdatedAt := e_now env (w_ops w)\<rparr>)))"
    using wpD [OF wp_Save [OF layout_named(1) [OF assms(1)]] assms(2)] by auto
  then show ?thesis
    using assms by (intro Load_no_fault) simp_all
qed

definition demo_state :: cstate where
  "demo_state = zero_state\<lparr>s_Software := ''app'', s_Current := ''1.0'', s_History := [''1.0'', ''0.9'']\<rparr>"

theorem load_after_save_witness:
  "\<exists>w'. run_state (Save calm demo_layout demo_state) demo_world = (Inr (), w') \<and>
     fst (run_state (Load calm demo_layout) w') =
       Inr (demo_state\<lparr>s_UpdatedAt := ''2026-01-01T00:00:00Z''\<rparr>)"
proof -
  let ?m = "run_state (Save calm demo_layout demo_state) demo_world"
  have f: "fst ?m = Inr ()" by code_simp
  then have 1: "?m = (Inr (), snd ?m)" by (metis prod.collapse)
  have ok: "state_ok (demo_state\<lparr>s_UpdatedAt := e_now calm (w_ops demo_world)\<rparr>)" by code_simp
  have "e_now calm (w_ops demo_world) = ''2026-01-01T00:00:00Z''" "e_fault calm (w_ops (snd ?m)) = None"
    by (simp_all add: calm_def)
  with load_after_save [OF demo_layout_at 1 ok] 1 show ?thesis by auto
qed


subsection \<open>The directories of a layout\<close>

text \<open>\<open>C25\<close>. In a product's directory every version without a slash has a distribution directory
  of its own, directly below the root, which is none of the links, of \<^verbatim>\<open>state.json\<close> and of the
  three other directories, and a blob of its own below \<^verbatim>\<open>blobs\<close>.\<close>

theorem layout_separate:
  assumes "layout_at env l r" and "slash \<notin> set v" and "slash \<notin> set v'"
  shows "butlast (at env (DistributionDir l v)) = r \<and>
    at env (DistributionDir l v) \<notin> flip_locs r \<union> {at env (StateFile l), at env (StateFile l @ ''.tmp''),
      at env (BlobsDir l), at env (PatchesDir l), at env (ArchivedDir l)} \<and>
    (at env (DistributionDir l v) = at env (DistributionDir l v') \<longleftrightarrow> v = v') \<and>
    butlast (at env (BlobPath l v)) = at env (BlobsDir l) \<and>
    (at env (BlobPath l v) = at env (BlobPath l v') \<longleftrightarrow> v = v')"
  using at_DistributionDir [OF assms(1,2)] at_DistributionDir [OF assms(1,3)]
    at_BlobPath [OF assms(1,2)] at_BlobPath [OF assms(1,3)] layout_locs0 [OF assms(1)]
    layout_locs [OF assms(1), of "''.tmp''"]
  by (auto simp: flip_locs_def butlast_append)

theorem layout_separate_witness:
  "butlast (at calm (DistributionDir demo_layout ''1'')) = [''home'', ''app''] \<and>
   at calm (DistributionDir demo_layout ''1'') \<noteq> at calm (DistributionDir demo_layout ''2'')"
  using layout_separate [OF demo_layout_at [OF calm_cwd(1)], of "''1''" "''2''"] by simp

text \<open>A version with a slash can leave it: this one's directory is next to the product's.\<close>

theorem version_can_escape:
  "at calm (DistributionDir demo_layout ''/../../other'') = [''home'', ''other'']"
  by code_simp

end
