(* ===== verification/Manifest.thy ===== *)
theory Manifest
  imports JSON_Decode Samples
begin

section \<open>client/internal/manifest: release manifests and their signature\<close>

text \<open>
  Models \<^verbatim>\<open>client/internal/manifest/manifest.go\<close>: the structs, \<open>Parse\<close> (which accepts schema
  version 1 only) and \<open>Verify\<close>, the Ed25519 check over the raw bytes. SHA-256 and Ed25519 are
  functions of the environment, so every theorem holds for the real ones.
\<close>

record Blob =
  b_SHA256 :: string
  b_Size :: int
  b_URL :: string

record PatchRef =
  p_From :: string
  p_To :: string
  p_Patcher :: string
  p_SHA256 :: string
  p_Size :: int
  p_URL :: string

record Manifest =
  SchemaVersion :: int
  ReleaseID :: string
  Software :: string
  m_OS :: string
  m_Arch :: string
  OSVersions :: "string list"
  Version :: string
  PublishedAt :: string
  PublishedBy :: string
  m_Blob :: Blob
  PatchesIn :: "PatchRef list"
  PatchesOut :: "PatchRef list"
  Channels :: "string list"
  Classifications :: "string list"
  Deprecated :: bool
  Uncollectable :: bool
  Notes :: string

definition zero_blob :: Blob where
  "zero_blob = \<lparr> b_SHA256 = [], b_Size = 0, b_URL = [] \<rparr>"

definition zero_patch :: PatchRef where
  "zero_patch = \<lparr> p_From = [], p_To = [], p_Patcher = [], p_SHA256 = [], p_Size = 0, p_URL = [] \<rparr>"

definition zero_manifest :: Manifest where
  "zero_manifest = \<lparr> SchemaVersion = 0, ReleaseID = [], Software = [], m_OS = [], m_Arch = [],
     OSVersions = [], Version = [], PublishedAt = [], PublishedBy = [], m_Blob = zero_blob,
     PatchesIn = [], PatchesOut = [], Channels = [], Classifications = [], Deprecated = False,
     Uncollectable = False, Notes = [] \<rparr>"

definition dec_blob_field :: "string \<Rightarrow> json \<Rightarrow> Blob \<Rightarrow> Blob option" where
  "dec_blob_field k v b =
     (if key_is k ''sha256'' then map_option (\<lambda>x. b\<lparr>b_SHA256 := x\<rparr>) (dec_string v (b_SHA256 b))
      else if key_is k ''size'' then map_option (\<lambda>x. b\<lparr>b_Size := x\<rparr>) (dec_int v (b_Size b))
      else if key_is k ''url'' then map_option (\<lambda>x. b\<lparr>b_URL := x\<rparr>) (dec_string v (b_URL b))
      else Some b)"

definition dec_patch_field :: "string \<Rightarrow> json \<Rightarrow> PatchRef \<Rightarrow> PatchRef option" where
  "dec_patch_field k v p =
     (if key_is k ''from'' then map_option (\<lambda>x. p\<lparr>p_From := x\<rparr>) (dec_string v (p_From p))
      else if key_is k ''to'' then map_option (\<lambda>x. p\<lparr>p_To := x\<rparr>) (dec_string v (p_To p))
      else if key_is k ''patcher'' then map_option (\<lambda>x. p\<lparr>p_Patcher := x\<rparr>) (dec_string v (p_Patcher p))
      else if key_is k ''sha256'' then map_option (\<lambda>x. p\<lparr>p_SHA256 := x\<rparr>) (dec_string v (p_SHA256 p))
      else if key_is k ''size'' then map_option (\<lambda>x. p\<lparr>p_Size := x\<rparr>) (dec_int v (p_Size p))
      else if key_is k ''url'' then map_option (\<lambda>x. p\<lparr>p_URL := x\<rparr>) (dec_string v (p_URL p))
      else Some p)"

definition dec_manifest_field :: "string \<Rightarrow> json \<Rightarrow> Manifest \<Rightarrow> Manifest option" where
  "dec_manifest_field k v m =
     (if key_is k ''schema_version''
      then map_option (\<lambda>x. m\<lparr>SchemaVersion := x\<rparr>) (dec_int v (SchemaVersion m))
      else if key_is k ''release_id'' then map_option (\<lambda>x. m\<lparr>ReleaseID := x\<rparr>) (dec_string v (ReleaseID m))
      else if key_is k ''software'' then map_option (\<lambda>x. m\<lparr>Software := x\<rparr>) (dec_string v (Software m))
      else if key_is k ''os'' then map_option (\<lambda>x. m\<lparr>m_OS := x\<rparr>) (dec_string v (m_OS m))
      else if key_is k ''arch'' then map_option (\<lambda>x. m\<lparr>m_Arch := x\<rparr>) (dec_string v (m_Arch m))
      else if key_is k ''os_versions''
      then map_option (\<lambda>x. m\<lparr>OSVersions := x\<rparr>) (dec_strings v (OSVersions m))
      else if key_is k ''version'' then map_option (\<lambda>x. m\<lparr>Version := x\<rparr>) (dec_string v (Version m))
      else if key_is k ''published_at''
      then map_option (\<lambda>x. m\<lparr>PublishedAt := x\<rparr>) (dec_string v (PublishedAt m))
      else if key_is k ''published_by''
      then map_option (\<lambda>x. m\<lparr>PublishedBy := x\<rparr>) (dec_string v (PublishedBy m))
      else if key_is k ''blob''
      then map_option (\<lambda>x. m\<lparr>m_Blob := x\<rparr>) (dec_struct dec_blob_field (m_Blob m) v)
      else if key_is k ''patches_in''
      then map_option (\<lambda>x. m\<lparr>PatchesIn := x\<rparr>) (dec_list (dec_struct dec_patch_field zero_patch) v)
      else if key_is k ''patches_out''
      then map_option (\<lambda>x. m\<lparr>PatchesOut := x\<rparr>) (dec_list (dec_struct dec_patch_field zero_patch) v)
      else if key_is k ''channels'' then map_option (\<lambda>x. m\<lparr>Channels := x\<rparr>) (dec_strings v (Channels m))
      else if key_is k ''classifications''
      then map_option (\<lambda>x. m\<lparr>Classifications := x\<rparr>) (dec_strings v (Classifications m))
      else if key_is k ''deprecated'' then map_option (\<lambda>x. m\<lparr>Deprecated := x\<rparr>) (dec_bool v (Deprecated m))
      else if key_is k ''uncollectable''
      then map_option (\<lambda>x. m\<lparr>Uncollectable := x\<rparr>) (dec_bool v (Uncollectable m))
      else if key_is k ''notes'' then map_option (\<lambda>x. m\<lparr>Notes := x\<rparr>) (dec_string v (Notes m))
      else Some m)"

definition Parse :: "bytes \<Rightarrow> Manifest res" where
  "Parse data =
     (case Option.bind (unmarshal (string_of data)) (dec_struct dec_manifest_field zero_manifest) of
        None \<Rightarrow> Inl (WrapErr ''manifest parse'' json_err)
      | Some m \<Rightarrow>
          if SchemaVersion m \<noteq> 1
          then Inl (NewErr (''manifest: unsupported schema_version '' @ itoa (SchemaVersion m)))
          else Inr m)"

text \<open>The errors of \<^verbatim>\<open>hex.DecodeString\<close>, whose text is not kept apart.\<close>

definition hex_err :: goerr where
  "hex_err = NewErr ''encoding/hex: invalid input''"

text \<open>\<^verbatim>\<open>ed25519.Verify\<close>: a signature that is not 64 bytes long is refused before the curve check.\<close>

definition ed25519_verify :: "env \<Rightarrow> bytes \<Rightarrow> bytes \<Rightarrow> bytes \<Rightarrow> bool" where
  "ed25519_verify env pub data sig \<longleftrightarrow> length sig = 64 \<and> e_ed25519 env pub data sig"

definition Verify :: "env \<Rightarrow> bytes \<Rightarrow> string \<Rightarrow> string \<Rightarrow> unit res" where
  "Verify env data hexSig hexPubKey =
     (case hex_decode hexSig of
        None \<Rightarrow> Inl (WrapErr ''manifest: signature is not hex'' hex_err)
      | Some sig \<Rightarrow>
          (case hex_decode hexPubKey of
             None \<Rightarrow> Inl (WrapErr ''manifest: public key is not hex'' hex_err)
           | Some pub \<Rightarrow>
               if length pub \<noteq> 32
               then Inl (NewErr (''manifest: public key wrong size: '' @ itoa (int (length pub))))
               else if \<not> ed25519_verify env pub data sig
               then Inl (NewErr ''manifest: signature does not verify'')
               else Inr ()))"


subsection \<open>What a parsed manifest satisfies\<close>

definition int64 :: "int \<Rightarrow> bool" where
  "int64 i \<longleftrightarrow> - (2 ^ 63) \<le> i \<and> i < 2 ^ 63"

definition sizes_ok :: "Manifest \<Rightarrow> bool" where
  "sizes_ok m \<longleftrightarrow> int64 (SchemaVersion m) \<and> int64 (b_Size (m_Blob m)) \<and>
     list_all (\<lambda>p. int64 (p_Size p)) (PatchesIn m) \<and> list_all (\<lambda>p. int64 (p_Size p)) (PatchesOut m)"

lemma dec_int_int64: "dec_int v old = Some i \<Longrightarrow> int64 old \<Longrightarrow> int64 i"
  by (cases v) (auto simp: int64_def split: option.splits if_splits)

lemma dec_blob_field_int64: "dec_blob_field k v b = Some b' \<Longrightarrow> int64 (b_Size b) \<Longrightarrow> int64 (b_Size b')"
  by (auto simp: dec_blob_field_def dec_int_int64 split: if_splits)

lemma dec_patch_field_int64: "dec_patch_field k v p = Some p' \<Longrightarrow> int64 (p_Size p) \<Longrightarrow> int64 (p_Size p')"
  by (auto simp: dec_patch_field_def dec_int_int64 split: if_splits)

lemma dec_patch_int64: "dec_struct dec_patch_field zero_patch v = Some p \<Longrightarrow> int64 (p_Size p)"
  by (erule dec_struct_preserve [where P = "\<lambda>p. int64 (p_Size p)"])
    (simp add: zero_patch_def int64_def, erule (1) dec_patch_field_int64)

lemma dec_elems_all:
  "dec_elems f vs = Some xs \<Longrightarrow> (\<And>v x. f v = Some x \<Longrightarrow> P x) \<Longrightarrow> list_all P xs"
  by (induction vs arbitrary: xs) (auto split: option.splits)

lemma dec_list_all:
  "dec_list f v = Some xs \<Longrightarrow> (\<And>v x. f v = Some x \<Longrightarrow> P x) \<Longrightarrow> list_all P xs"
  by (auto simp: dec_list_def split: json.splits intro: dec_elems_all)

lemma dec_manifest_field_sizes:
  "dec_manifest_field k v m = Some m' \<Longrightarrow> sizes_ok m \<Longrightarrow> sizes_ok m'"
  unfolding dec_manifest_field_def
  by (auto simp: sizes_ok_def dec_int_int64 split: if_splits
      intro: dec_list_all dec_patch_int64 dec_struct_preserve [where P = "\<lambda>b. int64 (b_Size b)"]
        dec_blob_field_int64)

lemma zero_manifest_sizes: "sizes_ok zero_manifest"
  by (simp add: sizes_ok_def zero_manifest_def zero_blob_def int64_def)

text \<open>\<open>C20\<close>. Every manifest \<open>Parse\<close> returns has schema version 1 and sizes in the range of \<^verbatim>\<open>int64\<close>,
  whatever the bytes were.\<close>

theorem Parse_well_typed:
  assumes "Parse data = Inr m"
  shows "SchemaVersion m = 1 \<and> sizes_ok m"
proof -
  obtain v where v: "dec_struct dec_manifest_field zero_manifest v = Some m" and "SchemaVersion m = 1"
    using assms by (auto simp: Parse_def split: option.splits if_splits bind_splits)
  moreover have "sizes_ok m"
    using v zero_manifest_sizes by (rule dec_struct_preserve) (rule dec_manifest_field_sizes)
  ultimately show ?thesis by simp
qed

definition demo_manifest_json :: string where
  "demo_manifest_json =
     ''{ \"schema_version\": 1, \"version\": \"2\", \"os\": \"linux\", \"arch\": \"x86_64\",
         \"release_id\": \"app/linux-x86_64/2\",
         \"blob\": {\"sha256\": \"ab\", \"size\": 9223372036854775807}}''"

theorem Parse_well_typed_witness:
  "\<exists>m. Parse (bytes_of demo_manifest_json) = Inr m \<and> Version m = ''2'' \<and> SchemaVersion m = 1 \<and>
     sizes_ok m"
proof -
  obtain m where m: "Parse (bytes_of demo_manifest_json) = Inr m" "Version m = ''2''"
  proof -
    have "case Parse (bytes_of demo_manifest_json) of Inl _ \<Rightarrow> False | Inr m \<Rightarrow> Version m = ''2''"
      by code_simp
    then show thesis
      using that by (cases "Parse (bytes_of demo_manifest_json)") auto
  qed
  with Parse_well_typed [OF m(1)] show ?thesis by blast
qed

lemma Verify_ok_iff:
  "Verify env data hexSig hexPub = Inr () \<longleftrightarrow>
   (\<exists>sig pub. hex_decode hexSig = Some sig \<and> hex_decode hexPub = Some pub \<and> length pub = 32 \<and>
      length sig = 64 \<and> e_ed25519 env pub data sig)"
  by (auto simp: Verify_def ed25519_verify_def split: option.splits if_splits)

end
