(* ===== verification/Hashed_File.thy ===== *)
theory Hashed_File
  imports Samples
begin

section \<open>Files that must have a given hash\<close>

text \<open>
  The contract shared by the three routines that put a file of known SHA-256 in place
  (\<open>DownloadBlob\<close>, \<open>DownloadPatch\<close> and \<open>Apply\<close>), as a locale: a call that succeeds leaves at
  its destination a file with that hash, one that fails leaves the destination as it was, and
  nothing but the destination and its \<^verbatim>\<open>.part\<close> file changes. Each routine's theory interprets
  it.
\<close>

definition has_hash :: "env \<Rightarrow> world \<Rightarrow> loc \<Rightarrow> string \<Rightarrow> bool" where
  "has_hash env w l sha \<longleftrightarrow>
     (\<exists>m d. look w l = Some (FileNode m d) \<and> hex_encode (e_sha256 env d) = sha)"

lemma has_hash_same: "look w' l = look w l \<Longrightarrow> has_hash env w' l sha = has_hash env w l sha"
  by (simp add: has_hash_def)

locale hashed_file =
  fixes produce :: "env \<Rightarrow> string \<Rightarrow> string \<Rightarrow> 'r res act"
  assumes touches: "{at env dst, at env (dst @ ''.part'')} \<subseteq> L \<Longrightarrow> keeps (frame L) (produce env sha dst)"
    and produces: "named dst \<Longrightarrow> wp (produce env sha dst) (\<lambda>r w'.
      case r of Inl _ \<Rightarrow> look w' (at env dst) = look w (at env dst)
              | Inr _ \<Rightarrow> has_hash env w' (at env dst) sha) w"
begin

lemma spec:
  assumes "named dst"
  shows "wp (produce env sha dst) (\<lambda>r w'. frame {at env dst, at env (dst @ ''.part'')} w w' \<and>
    (case r of Inl _ \<Rightarrow> look w' (at env dst) = look w (at env dst)
             | Inr _ \<Rightarrow> has_hash env w' (at env dst) sha)) w"
proof -
  have "keeps (frame {at env dst, at env (dst @ ''.part'')}) (produce env sha dst)"
    by (rule touches) simp
  from wp_keeps [OF this produces [OF assms]] show ?thesis .
qed

text \<open>A destination that already had the hash still has it, whatever happened.\<close>

lemma keeps_good:
  assumes "named dst" and "has_hash env w (at env dst) sha"
    and "run_state (produce env sha dst) w = (r, w')"
  shows "has_hash env w' (at env dst) sha"
  using wpD [OF produces [OF assms(1)] assms(3)] assms(2)
  by (cases r) (simp_all add: has_hash_def)

text \<open>Other files stay as they are.\<close>

lemma other_files:
  assumes "run_state (produce env sha dst) w = (r, w')"
    and "l \<noteq> at env dst" and "l \<noteq> at env (dst @ ''.part'')"
  shows "look w' l = look w l"
  using frameD [OF keepsD [OF touches [OF subset_refl] assms(1)], of l] assms(2,3) by simp

end

end
