(* ===== verification/Transport.thy ===== *)
theory Transport
  imports Hashed_File JSON_Decode
begin

section \<open>client/internal/transport: requests to the server and resumable downloads\<close>

text \<open>
  Models \<^verbatim>\<open>client/internal/transport/transport.go\<close>: one operation per endpoint of the server
  and \<open>downloadHashed\<close>, the resumable download under \<open>DownloadBlob\<close> and \<open>DownloadPatch\<close>.
  The server is the function \<open>e_http\<close> of the environment: it answers the \<open>n\<close>-th request with
  any status, headers and body, or not at all, and a body may end in a read error. Not kept:
  the progress callback, and the byte count returned beside an error, which no caller reads.
\<close>

record client =
  BaseURL :: string
  Auth :: string

definition New_client :: "string \<Rightarrow> client" where
  "New_client baseURL = \<lparr> BaseURL = baseURL, Auth = [] \<rparr>"


subsection \<open>Requests\<close>

text \<open>\<^verbatim>\<open>http.NewRequestWithContext\<close>, which fails on a URL that does not parse.\<close>

definition newRequest :: "env \<Rightarrow> string \<Rightarrow> string \<Rightarrow> bytes \<Rightarrow> request res" where
  "newRequest env method url bdy =
     (case e_badurl env url of
        Some e \<Rightarrow> Inl e
      | None \<Rightarrow> Inr \<lparr> rq_method = method, rq_url = url, rq_auth = None, rq_ctype = None,
                     rq_range = None, rq_body = bdy \<rparr>)"

definition withAuth :: "client \<Rightarrow> request \<Rightarrow> request" where
  "withAuth c req = (if Auth c \<noteq> [] then req\<lparr>rq_auth := Some (''Bearer '' @ Auth c)\<rparr> else req)"

definition authedRequest :: "env \<Rightarrow> client \<Rightarrow> string \<Rightarrow> string \<Rightarrow> request res" where
  "authedRequest env c method url =
     (case newRequest env method url [] of Inl e \<Rightarrow> Inl e | Inr req \<Rightarrow> Inr (withAuth c req))"

text \<open>\<^verbatim>\<open>c.HTTP.Do(req)\<close> with its error labelled, and the rest of the function on the response.\<close>

definition http_send ::
  "env \<Rightarrow> string \<Rightarrow> request res \<Rightarrow> (nat \<Rightarrow> string \<Rightarrow> (string \<times> string) list \<Rightarrow> body \<Rightarrow> 'a res act) \<Rightarrow> 'a res act"
where
  "http_send env label req k =
     (case req of
        Inl e \<Rightarrow> fail e
      | Inr rq \<Rightarrow> do {
          resp \<leftarrow> http_do env rq;
          case resp of
            NetErr e \<Rightarrow> fail (WrapErr label e)
          | Resp st status hdrs bdy \<Rightarrow> k st status hdrs bdy })"

definition read_err :: goerr where
  "read_err = NewErr ''unexpected EOF''"

fun read_all :: "body \<Rightarrow> bytes res" where
  "read_all (Body cs eof) = (if eof then Inr (concat cs) else Inl read_err)"

fun read_some :: "body \<Rightarrow> bytes" where
  "read_some (Body cs eof) = concat cs"

fun decode_body :: "body \<Rightarrow> json option" where
  "decode_body (Body cs eof) = decode_stream (string_of (concat cs)) eof"

definition header_get :: "(string \<times> string) list \<Rightarrow> string \<Rightarrow> string" where
  "header_get hs k = (case find (\<lambda>(n, v). equalFold n k) hs of None \<Rightarrow> [] | Some (n, v) \<Rightarrow> v)"

text \<open>\<^verbatim>\<open>json.NewDecoder(resp.Body).Decode(&out)\<close> with the error labelled.\<close>

definition decode_as :: "string \<Rightarrow> (json \<Rightarrow> 'a option) \<Rightarrow> body \<Rightarrow> 'a res" where
  "decode_as label f bdy =
     (case Option.bind (decode_body bdy) f of
        None \<Rightarrow> Inl (WrapErr label json_err) | Some x \<Rightarrow> Inr x)"

definition GetManifest :: "env \<Rightarrow> client \<Rightarrow> string \<Rightarrow> string \<Rightarrow> (bytes \<times> string \<times> string) res act" where
  "GetManifest env c sw version =
     (let url = BaseURL c @ ''/v1/software/'' @ sw @ ''/releases/'' @ version @ ''/manifest'' in
      http_send env ''manifest fetch'' (authedRequest env c ''GET'' url)
        (\<lambda>st status hdrs bdy.
           if st \<noteq> 200 then fail (NewErr (''manifest fetch: '' @ status))
           else (case read_all bdy of
             Inl e \<Rightarrow> fail (WrapErr ''manifest read'' e)
           | Inr data \<Rightarrow>
               ok (data, header_get hdrs ''X-Ota-Signature'', header_get hdrs ''X-Ota-Public-Key''))))"

record ExchangeResult =
  x_ClientID :: string
  x_BearerToken :: string
  x_Classifications :: "string list"

definition dec_exchange_field :: "string \<Rightarrow> json \<Rightarrow> ExchangeResult \<Rightarrow> ExchangeResult option" where
  "dec_exchange_field k v x =
     (if key_is k ''client_id'' then map_option (\<lambda>y. x\<lparr>x_ClientID := y\<rparr>) (dec_string v (x_ClientID x))
      else if key_is k ''bearer_token''
      then map_option (\<lambda>y. x\<lparr>x_BearerToken := y\<rparr>) (dec_string v (x_BearerToken x))
      else if key_is k ''classifications''
      then map_option (\<lambda>y. x\<lparr>x_Classifications := y\<rparr>) (dec_strings v (x_Classifications x))
      else Some x)"

text \<open>\<^verbatim>\<open>json.Marshal\<close> of a map prints the keys in sorted order.\<close>

definition ExchangeInstallToken :: "env \<Rightarrow> client \<Rightarrow> string \<Rightarrow> string \<Rightarrow> ExchangeResult res act" where
  "ExchangeInstallToken env c installToken hwinfo =
     (let bdy = bytes_of (marshal (JObj [(''hwinfo'', JStr hwinfo), (''install_token'', JStr installToken)]));
          req = (case newRequest env ''POST'' (BaseURL c @ ''/v1/exchange-token'') bdy of
                   Inl e \<Rightarrow> Inl e | Inr r \<Rightarrow> Inr (r\<lparr>rq_ctype := Some ''application/json''\<rparr>)) in
      http_send env ''exchange'' req (\<lambda>st status hdrs b.
        if st \<noteq> 200
        then fail (NewErr (''exchange: '' @ status @ '': '' @ string_of (read_some b)))
        else State_Monad.return (decode_as ''exchange decode''
          (dec_struct dec_exchange_field \<lparr> x_ClientID = [], x_BearerToken = [], x_Classifications = [] \<rparr>) b)))"

record Anchor =
  a_Version :: string
  a_ReleaseID :: string
  a_Channel :: string
  a_Reason :: string
  a_BlobSize :: int

definition dec_anchor_field :: "string \<Rightarrow> json \<Rightarrow> Anchor \<Rightarrow> Anchor option" where
  "dec_anchor_field k v a =
     (if key_is k ''version'' then map_option (\<lambda>y. a\<lparr>a_Version := y\<rparr>) (dec_string v (a_Version a))
      else if key_is k ''release_id'' then map_option (\<lambda>y. a\<lparr>a_ReleaseID := y\<rparr>) (dec_string v (a_ReleaseID a))
      else if key_is k ''channel'' then map_option (\<lambda>y. a\<lparr>a_Channel := y\<rparr>) (dec_string v (a_Channel a))
      else if key_is k ''reason'' then map_option (\<lambda>y. a\<lparr>a_Reason := y\<rparr>) (dec_string v (a_Reason a))
      else if key_is k ''blob_size'' then map_option (\<lambda>y. a\<lparr>a_BlobSize := y\<rparr>) (dec_int v (a_BlobSize a))
      else Some a)"

definition zero_anchor :: Anchor where
  "zero_anchor = \<lparr> a_Version = [], a_ReleaseID = [], a_Channel = [], a_Reason = [], a_BlobSize = 0 \<rparr>"

definition Anchors :: "env \<Rightarrow> client \<Rightarrow> string \<Rightarrow> Anchor list res act" where
  "Anchors env c sw =
     (let url = BaseURL c @ ''/v1/software/'' @ sw @ ''/anchors'' in
      http_send env ''anchors'' (authedRequest env c ''GET'' url) (\<lambda>st status hdrs b.
        if st \<noteq> 200 then fail (NewErr (''anchors: '' @ status))
        else State_Monad.return
          (decode_as ''anchors decode'' (dec_list (dec_struct dec_anchor_field zero_anchor)) b)))"

definition LatestRelease :: "env \<Rightarrow> client \<Rightarrow> string \<Rightarrow> bytes res act" where
  "LatestRelease env c sw =
     (let url = BaseURL c @ ''/v1/software/'' @ sw @ ''/releases/latest'' in
      http_send env ''latest'' (authedRequest env c ''GET'' url) (\<lambda>st status hdrs b.
        if st \<noteq> 200 then fail (NewErr (''latest: '' @ status))
        else State_Monad.return (read_all b)))"

record SoftwareRow =
  sw_Name :: string
  sw_DisplayName :: string
  sw_DefaultPatcher :: string
  sw_CreatedAt :: string

definition dec_software_field :: "string \<Rightarrow> json \<Rightarrow> SoftwareRow \<Rightarrow> SoftwareRow option" where
  "dec_software_field k v s =
     (if key_is k ''name'' then map_option (\<lambda>y. s\<lparr>sw_Name := y\<rparr>) (dec_string v (sw_Name s))
      else if key_is k ''display_name''
      then map_option (\<lambda>y. s\<lparr>sw_DisplayName := y\<rparr>) (dec_string v (sw_DisplayName s))
      else if key_is k ''default_patcher''
      then map_option (\<lambda>y. s\<lparr>sw_DefaultPatcher := y\<rparr>) (dec_string v (sw_DefaultPatcher s))
      else if key_is k ''created_at''
      then map_option (\<lambda>y. s\<lparr>sw_CreatedAt := y\<rparr>) (dec_string v (sw_CreatedAt s))
      else Some s)"

record Release =
  r_ReleaseID :: string
  r_Software :: string
  r_OS :: string
  r_Arch :: string
  r_Version :: string
  r_BlobSize :: int
  r_PublishedAt :: string
  r_Channels :: "string list"
  r_Classifications :: "string list"
  r_Deprecated :: bool
  r_Uncollectable :: bool

definition zero_release :: Release where
  "zero_release = \<lparr> r_ReleaseID = [], r_Software = [], r_OS = [], r_Arch = [], r_Version = [],
     r_BlobSize = 0, r_PublishedAt = [], r_Channels = [], r_Classifications = [],
     r_Deprecated = False, r_Uncollectable = False \<rparr>"

definition dec_release_field :: "string \<Rightarrow> json \<Rightarrow> Release \<Rightarrow> Release option" where
  "dec_release_field k v r =
     (if key_is k ''release_id'' then map_option (\<lambda>y. r\<lparr>r_ReleaseID := y\<rparr>) (dec_string v (r_ReleaseID r))
      else if key_is k ''software'' then map_option (\<lambda>y. r\<lparr>r_Software := y\<rparr>) (dec_string v (r_Software r))
      else if key_is k ''os'' then map_option (\<lambda>y. r\<lparr>r_OS := y\<rparr>) (dec_string v (r_OS r))
      else if key_is k ''arch'' then map_option (\<lambda>y. r\<lparr>r_Arch := y\<rparr>) (dec_string v (r_Arch r))
      else if key_is k ''version'' then map_option (\<lambda>y. r\<lparr>r_Version := y\<rparr>) (dec_string v (r_Version r))
      else if key_is k ''blob_size'' then map_option (\<lambda>y. r\<lparr>r_BlobSize := y\<rparr>) (dec_int v (r_BlobSize r))
      else if key_is k ''published_at''
      then map_option (\<lambda>y. r\<lparr>r_PublishedAt := y\<rparr>) (dec_string v (r_PublishedAt r))
      else if key_is k ''channels'' then map_option (\<lambda>y. r\<lparr>r_Channels := y\<rparr>) (dec_strings v (r_Channels r))
      else if key_is k ''classifications''
      then map_option (\<lambda>y. r\<lparr>r_Classifications := y\<rparr>) (dec_strings v (r_Classifications r))
      else if key_is k ''deprecated''
      then map_option (\<lambda>y. r\<lparr>r_Deprecated := y\<rparr>) (dec_bool v (r_Deprecated r))
      else if key_is k ''uncollectable''
      then map_option (\<lambda>y. r\<lparr>r_Uncollectable := y\<rparr>) (dec_bool v (r_Uncollectable r))
      else Some r)"

definition ListReleases :: "env \<Rightarrow> client \<Rightarrow> string \<Rightarrow> Release list res act" where
  "ListReleases env c sw =
     (let url = BaseURL c @ ''/v1/software/'' @ sw @ ''/releases'' in
      http_send env ''list-releases'' (authedRequest env c ''GET'' url) (\<lambda>st status hdrs b.
        if st \<noteq> 200 then fail (NewErr (''list-releases: '' @ status))
        else State_Monad.return
          (decode_as ''list-releases decode'' (dec_list (dec_struct dec_release_field zero_release)) b)))"

definition ListSoftware :: "env \<Rightarrow> client \<Rightarrow> SoftwareRow list res act" where
  "ListSoftware env c =
     (let url = BaseURL c @ ''/v1/software'' in
      http_send env ''list-software'' (authedRequest env c ''GET'' url) (\<lambda>st status hdrs b.
        if st \<noteq> 200 then fail (NewErr (''list-software: '' @ status))
        else State_Monad.return
          (decode_as ''list-software decode'' (dec_list (dec_struct dec_software_field
             \<lparr> sw_Name = [], sw_DisplayName = [], sw_DefaultPatcher = [], sw_CreatedAt = [] \<rparr>)) b)))"

record SetEmailResult =
  se_ClientID :: string
  se_Email :: string
  se_Verified :: bool

definition dec_setemail_field :: "string \<Rightarrow> json \<Rightarrow> SetEmailResult \<Rightarrow> SetEmailResult option" where
  "dec_setemail_field k v s =
     (if key_is k ''client_id'' then map_option (\<lambda>y. s\<lparr>se_ClientID := y\<rparr>) (dec_string v (se_ClientID s))
      else if key_is k ''email'' then map_option (\<lambda>y. s\<lparr>se_Email := y\<rparr>) (dec_string v (se_Email s))
      else if key_is k ''verified'' then map_option (\<lambda>y. s\<lparr>se_Verified := y\<rparr>) (dec_bool v (se_Verified s))
      else Some s)"

definition SetClientEmail :: "env \<Rightarrow> client \<Rightarrow> string \<Rightarrow> SetEmailResult res act" where
  "SetClientEmail env c email =
     (let bdy = bytes_of (marshal (JObj [(''email'', JStr email)]));
          url = BaseURL c @ ''/v1/clients/me/email'';
          req = (case newRequest env ''PUT'' url bdy of
                   Inl e \<Rightarrow> Inl e
                 | Inr r \<Rightarrow> Inr ((withAuth c r)\<lparr>rq_ctype := Some ''application/json''\<rparr>)) in
      http_send env ''set-email'' req (\<lambda>st status hdrs b.
        if st div 100 \<noteq> 2 then fail (NewErr (''set-email: '' @ status))
        else State_Monad.return (decode_as ''set-email parse''
          (dec_struct dec_setemail_field \<lparr> se_ClientID = [], se_Email = [], se_Verified = False \<rparr>) b)))"

record ClientEmail =
  ce_Email :: string
  ce_VerifiedAt :: string
  ce_OptedInAt :: string

definition dec_email_field :: "string \<Rightarrow> json \<Rightarrow> ClientEmail \<Rightarrow> ClientEmail option" where
  "dec_email_field k v e =
     (if key_is k ''email'' then map_option (\<lambda>y. e\<lparr>ce_Email := y\<rparr>) (dec_string v (ce_Email e))
      else if key_is k ''verified_at''
      then map_option (\<lambda>y. e\<lparr>ce_VerifiedAt := y\<rparr>) (dec_string v (ce_VerifiedAt e))
      else if key_is k ''opted_in_at''
      then map_option (\<lambda>y. e\<lparr>ce_OptedInAt := y\<rparr>) (dec_string v (ce_OptedInAt e))
      else Some e)"

definition ListClientEmails :: "env \<Rightarrow> client \<Rightarrow> ClientEmail list res act" where
  "ListClientEmails env c =
     (let url = BaseURL c @ ''/v1/clients/me/email'';
          req = (case newRequest env ''GET'' url [] of Inl e \<Rightarrow> Inl e | Inr r \<Rightarrow> Inr (withAuth c r)) in
      http_send env ''list-emails'' req (\<lambda>st status hdrs b.
        if st div 100 \<noteq> 2 then fail (NewErr (''list-emails: '' @ status))
        else State_Monad.return (decode_as ''list-emails parse'' (dec_list
          (dec_struct dec_email_field \<lparr> ce_Email = [], ce_VerifiedAt = [], ce_OptedInAt = [] \<rparr>)) b)))"

definition dec_deleted_field :: "string \<Rightarrow> json \<Rightarrow> int \<Rightarrow> int option" where
  "dec_deleted_field k v n = (if key_is k ''deleted'' then dec_int v n else Some n)"

definition DeleteClientEmail :: "env \<Rightarrow> client \<Rightarrow> string \<Rightarrow> int res act" where
  "DeleteClientEmail env c address =
     (let url0 = BaseURL c @ ''/v1/clients/me/email'';
          url = (if address \<noteq> [] then url0 @ ''?address='' @ address else url0);
          req = (case newRequest env ''DELETE'' url [] of Inl e \<Rightarrow> Inl e | Inr r \<Rightarrow> Inr (withAuth c r)) in
      http_send env ''delete-email'' req (\<lambda>st status hdrs b.
        if st div 100 \<noteq> 2 then fail (NewErr (''delete-email: '' @ status))
        else State_Monad.return (decode_as ''delete-email parse'' (dec_struct dec_deleted_field 0) b)))"

definition report_json :: "string \<Rightarrow> string \<Rightarrow> string \<Rightarrow> json" where
  "report_json currentReleaseID previousReleaseID kind = JObj (
     [(''current_release_id'', if currentReleaseID \<noteq> [] then JStr currentReleaseID else JNull),
      (''kind'', JStr kind)] @
     (if previousReleaseID \<noteq> [] then [(''previous_release_id'', JStr previousReleaseID)] else []))"

definition ReportClientState ::
  "env \<Rightarrow> client \<Rightarrow> string \<Rightarrow> string \<Rightarrow> string \<Rightarrow> string \<Rightarrow> unit res act"
where
  "ReportClientState env c sw currentReleaseID previousReleaseID kind =
     (if e_getenv env ''OTA_DISABLE_REPORTING'' = ''1'' then ok ()
      else
        let enc = bytes_of (marshal (report_json currentReleaseID previousReleaseID kind));
            url = BaseURL c @ ''/v1/clients/me/software/'' @ sw;
            req = (case newRequest env ''PUT'' url enc of
                     Inl e \<Rightarrow> Inl e
                   | Inr r \<Rightarrow> Inr ((withAuth c r)\<lparr>rq_ctype := Some ''application/json''\<rparr>)) in
        http_send env ''report-state'' req (\<lambda>st status hdrs b.
          if st div 100 \<noteq> 2 then fail (NewErr (''report-state: '' @ status)) else ok ()))"


subsection \<open>Resuming a partial download\<close>

definition node_size :: "node \<Rightarrow> int" where
  "node_size n = (case n of FileNode m d \<Rightarrow> int (length d) | _ \<Rightarrow> 4096)"

definition safeScanWindowBytes :: int where
  "safeScanWindowBytes = 16 * 1024 * 1024"

text \<open>The loop from the end of the buffer: one past the last byte that is not zero.\<close>

fun scan_back :: "bytes \<Rightarrow> nat \<Rightarrow> nat option" where
  "scan_back buf 0 = None"
| "scan_back buf (Suc i) = (if buf ! i \<noteq> 0 then Some (Suc i) else scan_back buf i)"

text \<open>\<^verbatim>\<open>f.ReadAt(buf, off)\<close> into a fresh buffer of \<open>n\<close> bytes.\<close>

definition read_at :: "bytes \<Rightarrow> int \<Rightarrow> int \<Rightarrow> bytes" where
  "read_at d n off =
     (let got = take (nat n) (drop (nat off) d) in got @ replicate (nat n - length got) 0)"

definition safe_offset :: "bytes \<Rightarrow> int \<Rightarrow> int" where
  "safe_offset d fileSize =
     (let bufSize = (if safeScanWindowBytes > fileSize then fileSize else safeScanWindowBytes);
          offset = fileSize - bufSize;
          buf = read_at d bufSize offset in
      (case scan_back buf (length buf) of
         Some i \<Rightarrow> offset + int i
       | None \<Rightarrow> offset))"

definition safeResumeSize :: "env \<Rightarrow> string \<Rightarrow> int \<Rightarrow> int res act" where
  "safeResumeSize env path fileSize =
     (if fileSize = 0 then ok 0
      else attempt (os_read_file env path) (\<lambda>d. ok (safe_offset d fileSize)))"

text \<open>The hash state is the list of the bytes fed so far.\<close>

definition hashPrefix :: "env \<Rightarrow> string \<Rightarrow> int \<Rightarrow> bytes res act" where
  "hashPrefix env path size' =
     attempt (os_read_file env path) (\<lambda>d.
       if int (length d) < size' then fail (NewErr ''EOF'') else ok (take (nat size') d))"

definition openResumeState :: "env \<Rightarrow> string \<Rightarrow> (int \<times> bytes option) res act" where
  "openResumeState env partPath = do {
     info \<leftarrow> os_stat env partPath;
     case info of
       Inl _ \<Rightarrow> ok (0, None)
     | Inr n \<Rightarrow>
         if node_size n = 0 then ok (0, None)
         else attempt (safeResumeSize env partPath (node_size n)) (\<lambda>safe.
           attempt (if safe < node_size n then os_truncate env partPath (nat safe) else ok ()) (\<lambda>_.
             if safe = 0 then ok (0, None)
             else attempt (hashPrefix env partPath safe) (\<lambda>h. ok (safe, Some h)))) }"

text \<open>
  \<open>copyWithProgress\<close> into the file and the hash: the error, the number of bytes written and
  the bytes hashed. A chunk goes to the file first and is hashed only when it was written.
\<close>

fun copyWithProgress ::
  "env \<Rightarrow> string \<Rightarrow> bytes list \<Rightarrow> bool \<Rightarrow> int \<Rightarrow> bytes \<Rightarrow> (goerr option \<times> int \<times> bytes) act"
where
  "copyWithProgress env out [] eof n h =
     State_Monad.return (if eof then None else Some read_err, n, h)"
| "copyWithProgress env out (b # bs) eof n h =
     (if b = [] then copyWithProgress env out bs eof n h
      else do {
        r \<leftarrow> os_append env out b;
        case r of
          Inl e \<Rightarrow> State_Monad.return (Some e, n, h)
        | Inr _ \<Rightarrow> copyWithProgress env out bs eof (n + int (length b)) (h @ b) })"

text \<open>Steps 4 to 6: open the partial file, copy the body into it, check the hash, rename.\<close>

definition receive ::
  "env \<Rightarrow> string \<Rightarrow> string \<Rightarrow> string \<Rightarrow> int \<Rightarrow> bytes option \<Rightarrow> body \<Rightarrow> int res act"
where
  "receive env tmp sha256Hex dstPath startOffset hasher bdy =
     attempt_as ''download open'' (os_open_write env tmp (startOffset = 0) 420) (\<lambda>_. do {
       res \<leftarrow> (case bdy of Body cs eof \<Rightarrow>
         copyWithProgress env tmp cs eof 0 (case hasher of None \<Rightarrow> [] | Some h \<Rightarrow> h));
       cerr \<leftarrow> os_close env tmp;
       case res of (err, bodyWritten, h) \<Rightarrow>
         (case (case err of Some e \<Rightarrow> Some e | None \<Rightarrow> (case cerr of Inl e \<Rightarrow> Some e | Inr _ \<Rightarrow> None)) of
            Some e \<Rightarrow> fail (WrapErr ''download copy'' e)
          | None \<Rightarrow>
              let got = hex_encode (e_sha256 env h) in
              if got \<noteq> sha256Hex then do {
                _ \<leftarrow> os_remove env tmp;
                fail (NewErr (''download sha mismatch: want '' @ sha256Hex @ '' got '' @ got)) }
              else attempt_as ''download rename'' (os_rename env tmp dstPath)
                     (\<lambda>_. ok (startOffset + bodyWritten))) })"

text \<open>Step 3: whether the server honoured the range.\<close>

definition accept_response ::
  "env \<Rightarrow> string \<Rightarrow> string \<Rightarrow> string \<Rightarrow> int \<Rightarrow> bytes option \<Rightarrow> nat \<Rightarrow> string \<Rightarrow> body \<Rightarrow> int res act"
where
  "accept_response env tmp sha256Hex dstPath resumeFrom prefixHasher st status bdy =
     (if resumeFrom > 0 \<and> st = 206
      then receive env tmp sha256Hex dstPath resumeFrom prefixHasher bdy
      else if st = 200 then do {
        t \<leftarrow> os_truncate env tmp 0;
        case t of
          Inl e \<Rightarrow>
            if is_not_exist e then receive env tmp sha256Hex dstPath 0 (Some []) bdy
            else fail (WrapErr ''download truncate'' e)
        | Inr _ \<Rightarrow> receive env tmp sha256Hex dstPath 0 (Some []) bdy }
      else fail (NewErr (''download: '' @ status)))"

definition downloadHashed :: "env \<Rightarrow> client \<Rightarrow> string \<Rightarrow> string \<Rightarrow> string \<Rightarrow> int res act" where
  "downloadHashed env c url sha256Hex dstPath = do {
     let tmp = dstPath @ ''.part'';
     rs \<leftarrow> openResumeState env tmp;
     let (resumeFrom, prefixHasher) = (case rs of Inl _ \<Rightarrow> (0, None) | Inr x \<Rightarrow> x);
     let req = (case authedRequest env c ''GET'' url of
                  Inl e \<Rightarrow> Inl e
                | Inr r \<Rightarrow> Inr (if resumeFrom > 0 then r\<lparr>rq_range := Some (nat resumeFrom)\<rparr> else r));
     http_send env ''download'' req (\<lambda>st status hdrs bdy.
       accept_response env tmp sha256Hex dstPath resumeFrom prefixHasher st status bdy) }"

definition DownloadPatch :: "env \<Rightarrow> client \<Rightarrow> string \<Rightarrow> string \<Rightarrow> int res act" where
  "DownloadPatch env c sha256Hex dstPath =
     downloadHashed env c (BaseURL c @ ''/v1/patches/'' @ sha256Hex) sha256Hex dstPath"

definition DownloadBlob :: "env \<Rightarrow> client \<Rightarrow> string \<Rightarrow> string \<Rightarrow> int res act" where
  "DownloadBlob env c sha256Hex dstPath =
     downloadHashed env c (BaseURL c @ ''/v1/blobs/'' @ sha256Hex) sha256Hex dstPath"



subsection \<open>The resume point\<close>

lemma scan_back_Some:
  "scan_back buf n = Some k \<Longrightarrow>
   0 < k \<and> k \<le> n \<and> buf ! (k - 1) \<noteq> 0 \<and> (\<forall>i. k \<le> i \<and> i < n \<longrightarrow> buf ! i = 0)"
  by (induction buf n rule: scan_back.induct) (auto split: if_splits simp: less_Suc_eq)

lemma scan_back_None: "scan_back buf n = None \<longleftrightarrow> (\<forall>i < n. buf ! i = 0)"
  by (induction buf n rule: scan_back.induct) (auto simp: less_Suc_eq)

lemma length_read_at [simp]: "length (read_at d n off) = nat n"
  by (simp add: read_at_def Let_def)

lemma safe_offset_bounds:
  assumes "0 \<le> n"
  shows "0 \<le> safe_offset d n" and "safe_offset d n \<le> n"
proof -
  have "0 \<le> safe_offset d n \<and> safe_offset d n \<le> n"
  proof (cases "scan_back (read_at d (if safeScanWindowBytes > n then n else safeScanWindowBytes)
      (n - (if safeScanWindowBytes > n then n else safeScanWindowBytes)))
      (nat (if safeScanWindowBytes > n then n else safeScanWindowBytes))")
    case None
    with assms show ?thesis by (simp add: safe_offset_def Let_def safeScanWindowBytes_def)
  next
    case (Some k)
    with scan_back_Some [OF Some] assms show ?thesis
      by (auto simp: safe_offset_def Let_def safeScanWindowBytes_def split: if_splits)
  qed
  then show "0 \<le> safe_offset d n" and "safe_offset d n \<le> n" by simp_all
qed

lemma nth_read_at:
  assumes "0 \<le> off" and "off + n = int (length d)" and "i < nat n"
  shows "read_at d n off ! i = d ! (nat off + i)"
  using assms by (simp add: read_at_def Let_def nth_append)

text \<open>
  The resume point of a file: what is dropped is all zero; what is kept ends in a byte that is
  not zero, unless the scan window was full of zeros, and then exactly the window is dropped.
\<close>

lemma safe_offset_file:
  assumes "n = int (length d)" and "s = safe_offset d n"
  shows "(\<forall>i. s \<le> int i \<and> int i < n \<longrightarrow> d ! i = 0) \<and>
    (0 < s \<longrightarrow> d ! nat (s - 1) \<noteq> 0 \<or> s = n - safeScanWindowBytes)"
proof -
  define b where "b = (if safeScanWindowBytes > n then n else safeScanWindowBytes)"
  have b: "0 \<le> b" "b \<le> n" and nb: "n - b + b = int (length d)"
    using assms by (auto simp: b_def safeScanWindowBytes_def)
  have buf: "read_at d b (n - b) ! i = d ! (nat (n - b) + i)" if "i < nat b" for i
    by (rule nth_read_at) (use b nb that in auto)
  show ?thesis
  proof (cases "scan_back (read_at d b (n - b)) (nat b)")
    case None
    then have s: "s = n - b" using assms(2) by (simp add: safe_offset_def Let_def flip: b_def)
    have z: "d ! i = 0" if "n - b \<le> int i" "int i < n" for i
    proof -
      have "i - nat (n - b) < nat b" "nat (n - b) + (i - nat (n - b)) = i" using that b by auto
      with None buf [of "i - nat (n - b)"] show ?thesis by (simp add: scan_back_None)
    qed
    have "0 < s \<Longrightarrow> s = n - safeScanWindowBytes" using s by (auto simp: b_def split: if_splits)
    with s z show ?thesis by blast
  next
    case (Some k)
    then have s: "s = n - b + int k" using assms(2) by (simp add: safe_offset_def Let_def flip: b_def)
    note k = scan_back_Some [OF Some]
    have z: "d ! i = 0" if "s \<le> int i" "int i < n" for i
    proof -
      have "k \<le> i - nat (n - b)" "i - nat (n - b) < nat b" "nat (n - b) + (i - nat (n - b)) = i"
        using that b s by auto
      with k buf [of "i - nat (n - b)"] show ?thesis by auto
    qed
    have "d ! nat (s - 1) \<noteq> 0"
    proof -
      have "nat (s - 1) = nat (n - b) + (k - 1)" using s b k by auto
      moreover have "k - 1 < nat b" using k by auto
      ultimately show ?thesis using k buf [of "k - 1"] by simp
    qed
    with z show ?thesis by blast
  qed
qed

lemma wp_safeResumeSize:
  "wp (safeResumeSize env p n) (\<lambda>r w'. same_files w w' \<and>
     (case r of
        Inl _ \<Rightarrow> True
      | Inr s \<Rightarrow> n = 0 \<and> s = 0 \<or>
          (\<exists>m d. look w (at env p) = Some (FileNode m d) \<and> s = safe_offset d n))) w"
proof (cases "n = 0")
  case False
  then show ?thesis
    unfolding safeResumeSize_def
    by simp (rule wp_attemptI [OF wp_os_read_file], auto simp: wp_simps)
qed (simp add: wp_simps safeResumeSize_def)

lemma wp_hashPrefix:
  "wp (hashPrefix env p n) (\<lambda>r w'. same_files w w' \<and>
     (case r of
        Inl _ \<Rightarrow> True
      | Inr h \<Rightarrow> \<exists>m d. look w (at env p) = Some (FileNode m d) \<and> n \<le> int (length d) \<and> h = take (nat n) d)) w"
  unfolding hashPrefix_def
  by (rule wp_attemptI [OF wp_os_read_file]) (auto simp: wp_simps)

definition resume_post :: "env \<Rightarrow> string \<Rightarrow> (int \<times> bytes option) res \<Rightarrow> world \<Rightarrow> bool" where
  "resume_post env p r w' \<longleftrightarrow>
     (case r of
        Inl _ \<Rightarrow> True
      | Inr (n, None) \<Rightarrow> n = 0
      | Inr (n, Some h) \<Rightarrow> 0 < n \<and> n = int (length h) \<and>
          (\<exists>m. look w' (at env p) = Some (FileNode m h)))"

lemma resume_post_simps [simp]:
  "resume_post env p (Inl e) w'" "resume_post env p (Inr (n, None)) w' \<longleftrightarrow> n = 0"
  "resume_post env p (Inr (n, Some h)) w' \<longleftrightarrow> 0 < n \<and> n = int (length h) \<and>
          (\<exists>m. look w' (at env p) = Some (FileNode m h))"
  by (simp_all add: resume_post_def)

lemma keeps_openResumeState [keeps_intros]:
  "at env p \<in> L \<Longrightarrow> keeps (frame L) (openResumeState env p)"
  unfolding openResumeState_def safeResumeSize_def hashPrefix_def
  by (intro keeps_intros; assumption)

lemma wp_openResumeState:
  "wp (openResumeState env p) (\<lambda>r w'. frame {at env p} w w' \<and> resume_post env p r w') w"
proof (rule wp_keeps)
  show "keeps (frame {at env p}) (openResumeState env p)" by (intro keeps_intros) simp
  show "wp (openResumeState env p) (resume_post env p) w"
    unfolding openResumeState_def
  proof (rule wp_bindI [OF wp_os_stat], goal_cases)
    case (1 r w1)
    then show ?case
    proof (cases r)
      case (Inr n)
      with 1 have n: "look w1 (at env p) = Some n" by (auto simp: same_files_look [of w w1])
      have "wp (attempt (safeResumeSize env p (node_size n)) (\<lambda>safe.
           attempt (if safe < node_size n then os_truncate env p (nat safe) else ok ()) (\<lambda>_.
             if safe = 0 then ok (0, None)
             else attempt (hashPrefix env p safe) (\<lambda>h. ok (safe, Some h))))) (resume_post env p) w1"
        if nz: "node_size n \<noteq> 0"
      proof (rule wp_attemptI [OF wp_safeResumeSize], goal_cases)
        case (2 s w2)
        with nz n obtain m d where f: "n = FileNode m d" and s: "s = safe_offset d (int (length d))"
          and l2: "look w2 (at env p) = Some (FileNode m d)"
          by (auto simp: same_files_look node_size_def)
        have b: "0 \<le> s" "s \<le> int (length d)"
          using safe_offset_bounds [of "int (length d)" d] s by simp_all
        have "wp (if s < node_size n then os_truncate env p (nat s) else ok ())
            (\<lambda>r w3. is_ok r \<longrightarrow> (\<exists>m. look w3 (at env p) = Some (FileNode m (take (nat s) d)))) w2"
        proof (cases "s < node_size n")
          case True
          with b l2 f show ?thesis
            by (simp, intro wp_mono [OF wp_os_truncate])
              (auto simp: is_ok_def node_size_def split: sum.splits)
        next
          case False
          with b l2 f show ?thesis by (simp add: wp_simps node_size_def)
        qed
        then show ?case
        proof (rule wp_attemptI, goal_cases)
          case (2 u w3)
          then obtain m3 where l3: "look w3 (at env p) = Some (FileNode m3 (take (nat s) d))" by auto
          show ?case
            using b l3
            by (cases "s = 0", simp add: wp_simps, simp,
                intro wp_attemptI [OF wp_hashPrefix])
              (auto simp: wp_simps same_files_look min_def)
        qed simp
      qed simp
      with Inr show ?thesis by (simp add: wp_simps)
    qed (simp add: wp_simps)
  qed
qed



subsection \<open>The download as a producer of hashed files\<close>

lemma keeps_http_send [keeps_intros]:
  assumes "\<And>st status hdrs b. keeps (frame L) (k st status hdrs b)"
  shows "keeps (frame L) (http_send env label req k)"
  unfolding http_send_def
proof (intro keeps_intros)
  fix rq r
  show "keeps (frame L) (case r of NetErr e \<Rightarrow> fail (WrapErr label e)
      | Resp st status hdrs b \<Rightarrow> k st status hdrs b)"
    using assms by (cases r) (auto intro: keeps_intros)
qed

lemma wp_http_send:
  assumes "\<And>e w'. same_files w w' \<Longrightarrow> Q (Inl e) w'"
    and "\<And>st status hdrs b w'. same_files w w' \<Longrightarrow> wp (k st status hdrs b) Q w'"
  shows "wp (http_send env label req k) Q w"
proof (cases req)
  case (Inr rq)
  have "wp (do {
          resp \<leftarrow> http_do env rq;
          case resp of
            NetErr e \<Rightarrow> fail (WrapErr label e)
          | Resp st status hdrs bdy \<Rightarrow> k st status hdrs bdy }) Q w"
    by (rule wp_bindI [OF wp_http_do]) (auto simp: wp_simps assms split: http_result.splits)
  with Inr show ?thesis by (simp add: http_send_def)
qed (simp add: http_send_def wp_simps assms)

lemma keeps_copyWithProgress [keeps_intros]:
  "at env p \<in> L \<Longrightarrow> keeps (frame L) (copyWithProgress env p cs eof n h)"
  by (induction env p cs eof n h rule: copyWithProgress.induct)
    (auto intro!: keeps_intros)

lemma wp_copyWithProgress:
  "look w (at env p) = Some (FileNode m h) \<Longrightarrow>
   wp (copyWithProgress env p cs eof n h) (\<lambda>(err, n', h') w'. frame {at env p} w w' \<and>
     (err = None \<longrightarrow> eof \<and> h' = h @ concat cs \<and> n' = n + int (length (concat cs)) \<and>
        look w' (at env p) = Some (FileNode m h'))) w"
proof (induction env p cs eof n h arbitrary: w rule: copyWithProgress.induct)
  case (2 env p b bs eof n h)
  show ?case
  proof (cases "b = []")
    case True
    with 2 show ?thesis by simp
  next
    case False
    have "wp (do {
        r \<leftarrow> os_append env p b;
        case r of
          Inl e \<Rightarrow> State_Monad.return (Some e, n, h)
        | Inr _ \<Rightarrow> copyWithProgress env p bs eof (n + int (length b)) (h @ b) })
       (\<lambda>(err, n', h') w'. frame {at env p} w w' \<and>
     (err = None \<longrightarrow> eof \<and> h' = h @ concat (b # bs) \<and> n' = n + int (length (concat (b # bs))) \<and>
        look w' (at env p) = Some (FileNode m h'))) w"
    proof (rule wp_bindI [OF wp_os_append], goal_cases)
      case (1 r w1)
      show ?case
      proof (cases r)
        case (Inl e)
        with 1 show ?thesis by (simp add: wp_simps)
      next
        case (Inr u)
        with 1 2(3) have "look w1 (at env p) = Some (FileNode m (h @ b))" by auto
        from 2(2) [OF False this] have
          "wp (copyWithProgress env p bs eof (n + int (length b)) (h @ b))
            (\<lambda>(err, n', h') w'. frame {at env p} w1 w' \<and>
     (err = None \<longrightarrow> eof \<and> h' = (h @ b) @ concat bs \<and> n' = n + int (length b) + int (length (concat bs)) \<and>
        look w' (at env p) = Some (FileNode m h'))) w1" .
        then have "wp (copyWithProgress env p bs eof (n + int (length b)) (h @ b))
           (\<lambda>(err, n', h') w'. frame {at env p} w w' \<and>
     (err = None \<longrightarrow> eof \<and> h' = h @ concat (b # bs) \<and> n' = n + int (length (concat (b # bs))) \<and>
        look w' (at env p) = Some (FileNode m h'))) w1"
          by (rule wp_mono) (use 1 in \<open>auto simp: frame_def split: prod.splits\<close>)
        with Inr show ?thesis by simp
      qed
    qed
    with False show ?thesis by simp
  qed
qed (simp add: wp_simps fr.refl)

definition received :: "env \<Rightarrow> string \<Rightarrow> string \<Rightarrow> world \<Rightarrow> int res \<Rightarrow> world \<Rightarrow> bool" where
  "received env sha dst w r w' \<longleftrightarrow>
     (case r of
        Inl _ \<Rightarrow> look w' (at env dst) = look w (at env dst)
      | Inr _ \<Rightarrow> has_hash env w' (at env dst) sha)"

lemma keeps_receive [keeps_intros]:
  "at env tmp \<in> L \<Longrightarrow> at env dst \<in> L \<Longrightarrow> keeps (frame L) (receive env tmp sha dst off hasher bdy)"
  unfolding receive_def Let_def
  by (cases bdy) (auto simp del: copyWithProgress.simps intro!: keeps_intros split: option.splits sum.splits)

lemma wp_receive:
  assumes ne: "at env tmp \<noteq> at env dst"
    and st: "if off = 0 then hasher = Some [] else
      (\<exists>m h. hasher = Some h \<and> look w (at env tmp) = Some (FileNode m h))"
  shows "wp (receive env tmp sha dst off hasher bdy) (received env sha dst w) w"
  unfolding receive_def
proof (rule wp_attempt_asI [OF wp_os_open_write], goal_cases)
  case (1 e w1)
  then show ?case by (simp add: received_def same_files_look)
next
  case (2 u w1)
  obtain cs eof where bdy: "bdy = Body cs eof" by (cases bdy)
  obtain m h where h: "(case hasher of None \<Rightarrow> [] | Some h \<Rightarrow> h) = h"
    and l1: "look w1 (at env tmp) = Some (FileNode m h)"
    using 2 st by (auto split: if_splits)
  have d1: "look w1 (at env dst) = look w (at env dst)" using 2 ne by (auto simp: frame_def)
  show ?case
    unfolding bdy body.case h
  proof (rule wp_bindI [OF wp_copyWithProgress [OF l1]], rule wp_bindI [OF wp_os_close], goal_cases)
    case (1 res w2 cerr w3)
    obtain err n h' where res: "res = (err, n, h')" by (cases res)
    have d3: "look w3 (at env dst) = look w (at env dst)"
      using 1 d1 ne unfolding res by (auto simp: frame_def same_files_look)
    have t3: "err = None \<Longrightarrow> look w3 (at env tmp) = Some (FileNode m h')"
      using 1 unfolding res by (auto simp: same_files_look)
    let ?got = "hex_encode (e_sha256 env h')"
    have mismatch: "wp (do { _ \<leftarrow> os_remove env tmp; fail x }) (received env sha dst w) w3" for x
      by (rule wp_bindI [OF wp_os_remove])
        (use d3 ne in \<open>auto simp: wp_simps received_def frame_def\<close>)
    have match: "wp (attempt_as ''download rename'' (os_rename env tmp dst) (\<lambda>_. ok (off + n)))
        (received env sha dst w) w3" if "err = None" "?got = sha"
      by (rule wp_attempt_asI [OF wp_os_rename])
        (use d3 ne t3 that in \<open>auto simp: wp_simps received_def has_hash_def same_files_look\<close>)
    show ?case
      unfolding res prod.case
      using mismatch match d3
      by (cases err; cases cerr) (simp_all add: wp_fail received_def [of _ _ _ _ "Inl _"] Let_def)
  qed
qed

lemma keeps_accept_response [keeps_intros]:
  "at env tmp \<in> L \<Longrightarrow> at env dst \<in> L \<Longrightarrow>
   keeps (frame L) (accept_response env tmp sha dst off hasher st status bdy)"
  unfolding accept_response_def by (intro keeps_intros; assumption)

lemma keeps_downloadHashed [keeps_intros]:
  "at env dst \<in> L \<Longrightarrow> at env (dst @ ''.part'') \<in> L \<Longrightarrow> keeps (frame L) (downloadHashed env c url sha dst)"
  unfolding downloadHashed_def Let_def
  by (auto intro!: keeps_intros split: prod.split sum.split)

lemma wp_accept_response:
  assumes ne: "at env tmp \<noteq> at env dst"
    and kept: "off = 0 \<or> 0 < off \<and> (\<exists>m h. hasher = Some h \<and> look w (at env tmp) = Some (FileNode m h))"
  shows "wp (accept_response env tmp sha dst off hasher st status bdy) (received env sha dst w) w"
proof -
  have whole: "wp (receive env tmp sha dst 0 (Some []) bdy) (received env sha dst w) w1"
    if "look w1 (at env dst) = look w (at env dst)" for w1
    by (rule wp_mono [OF wp_receive [OF ne]])
      (use that in \<open>auto simp: received_def split: sum.splits\<close>)
  have full: "wp (do {
         t \<leftarrow> os_truncate env tmp 0;
         case t of
           Inl e \<Rightarrow>
             if is_not_exist e then receive env tmp sha dst 0 (Some []) bdy
             else fail (WrapErr ''download truncate'' e)
         | Inr _ \<Rightarrow> receive env tmp sha dst 0 (Some []) bdy }) (received env sha dst w) w"
  proof (rule wp_bindI [OF wp_os_truncate], goal_cases)
    case (1 t w1)
    then have "look w1 (at env dst) = look w (at env dst)" using ne by (auto simp: frame_def)
    then show ?case using whole by (cases t) (auto simp: wp_fail received_def)
  qed
  have "0 < off \<Longrightarrow> wp (receive env tmp sha dst off hasher bdy) (received env sha dst w) w"
    by (rule wp_receive [OF ne]) (use kept in auto)
  with full show ?thesis
    by (simp add: accept_response_def wp_fail received_def [of _ _ _ _ "Inl _"])
qed

lemma wp_downloadHashed:
  assumes "named dst"
  shows "wp (downloadHashed env c url sha dst) (received env sha dst w) w"
proof -
  let ?tmp = "dst @ ''.part''"
  have ne: "at env ?tmp \<noteq> at env dst" using assms by (simp add: loc_of_suffix_eq_self)
  show ?thesis
    unfolding downloadHashed_def Let_def
  proof (rule wp_bindI [OF wp_openResumeState], goal_cases)
    case (1 rs w1)
    then have d1: "look w1 (at env dst) = look w (at env dst)" using ne by (auto simp: frame_def)
    obtain off hasher where oh: "(case rs of Inl _ \<Rightarrow> (0, None) | Inr x \<Rightarrow> x) = (off, hasher)"
      by fastforce
    have kept: "off = 0 \<or> 0 < off \<and> (\<exists>m h. hasher = Some h \<and> look w1 (at env ?tmp) = Some (FileNode m h))"
      using 1 oh by (cases rs; cases hasher) auto
    show ?case
      unfolding oh prod.case
    proof (rule wp_http_send, goal_cases)
      case (1 e w2)
      then show ?case using d1 by (simp add: received_def same_files_look)
    next
      case (2 st status hdrs bdy w2)
      then have d2: "look w2 (at env dst) = look w (at env dst)" using d1 by (simp add: same_files_look)
      show ?case
        by (rule wp_mono [OF wp_accept_response [OF ne]])
          (use kept 2 d2 in \<open>auto simp: same_files_look received_def split: sum.splits\<close>)
    qed
  qed
qed

interpretation blob: hashed_file "\<lambda>env. DownloadBlob env c" for c
  by unfold_locales
    (auto simp: DownloadBlob_def received_def [symmetric] intro: keeps_downloadHashed wp_downloadHashed)

interpretation patch: hashed_file "\<lambda>env. DownloadPatch env c" for c
  by unfold_locales
    (auto simp: DownloadPatch_def received_def [symmetric] intro: keeps_downloadHashed wp_downloadHashed)


subsection \<open>Downloads that succeed\<close>

lemma nf_copyWithProgress:
  assumes "no_faults env"
  shows "look w (at env p) = Some (FileNode m h) \<Longrightarrow>
   wp (copyWithProgress env p cs True n h) (\<lambda>(err, n', h') w'. frame {at env p} w w' \<and> err = None \<and>
     h' = h @ concat cs \<and> n' = n + int (length (concat cs)) \<and>
        look w' (at env p) = Some (FileNode m (h @ concat cs))) w"
proof (induction cs arbitrary: w n h)
  case (Cons b bs)
  show ?case
  proof (cases "b = []")
    case True
    with Cons show ?thesis by simp
  next
    case False
    have "wp (do {
        r \<leftarrow> os_append env p b;
        case r of
          Inl e \<Rightarrow> State_Monad.return (Some e, n, h)
        | Inr _ \<Rightarrow> copyWithProgress env p bs True (n + int (length b)) (h @ b) })
       (\<lambda>(err, n', h') w'. frame {at env p} w w' \<and> err = None \<and>
          h' = h @ concat (b # bs) \<and> n' = n + int (length (concat (b # bs))) \<and>
        look w' (at env p) = Some (FileNode m (h @ concat (b # bs)))) w"
    proof (rule wp_bindI [OF nf_append [OF assms Cons.prems]], goal_cases)
      case (1 r w1)
      then have l1: "look w1 (at env p) = Some (FileNode m (h @ b))" and r: "r = Inr ()" by auto
      show ?case
        unfolding r sum.case
        by (rule wp_mono [OF Cons.IH [OF l1]])
          (use 1 in \<open>auto simp: frame_def split: prod.splits\<close>)
    qed
    with False show ?thesis by simp
  qed
qed (simp add: wp_simps fr.refl)

text \<open>The result of a download that put \<open>data\<close> in place.\<close>

definition delivered :: "env \<Rightarrow> string \<Rightarrow> bytes \<Rightarrow> int res \<Rightarrow> world \<Rightarrow> bool" where
  "delivered env dst data r w' \<longleftrightarrow> r = Inr (int (length data)) \<and>
     (\<exists>m. look w' (at env dst) = Some (FileNode m data)) \<and>
     look w' (at env (dst @ ''.part'')) = None"

lemma nf_receive:
  assumes nf: "no_faults env" and n: "named dst"
    and dir: "look w (butlast (at env dst)) = Some DirNode" and dst: "look w (at env dst) \<noteq> Some DirNode"
    and tmp: "if off = 0 then hasher = Some [] \<and>
        (look w (at env (dst @ ''.part'')) = None \<or> (\<exists>m d. look w (at env (dst @ ''.part'')) = Some (FileNode m d)))
      else hasher = Some h \<and> off = int (length h) \<and>
        (\<exists>m. look w (at env (dst @ ''.part'')) = Some (FileNode m h))"
    and data: "data = (if off = 0 then [] else h) @ concat cs" and sha: "hex_encode (e_sha256 env data) = sha"
  shows "wp (receive env (dst @ ''.part'') sha dst off hasher (Body cs True)) (delivered env dst data) w"
proof -
  let ?tmp = "dst @ ''.part''"
  have ne: "at env ?tmp \<noteq> at env dst" using n by (simp add: loc_of_suffix_eq_self)
  have par: "butlast (at env ?tmp) = butlast (at env dst)"
    using n by (simp add: loc_of_named_suffix)
  have up: "butlast (at env dst) \<noteq> at env ?tmp"
    using n by (simp add: loc_of_named_suffix)
  let ?h = "if off = 0 then [] else h"
  have hh: "(case hasher of None \<Rightarrow> [] | Some x \<Rightarrow> x) = ?h" and off: "off = int (length ?h)"
    using tmp by (auto split: if_splits)
  show ?thesis
    unfolding receive_def body.case hh
  proof (rule wp_attempt_asI [OF nf_open_write [OF nf]], goal_cases)
    case 1
    show ?case using par dir by simp
  next
    case 2
    show ?case using tmp by (auto split: if_splits)
  next
    case (4 u w1)
    obtain m where l1: "look w1 (at env ?tmp) = Some (FileNode m ?h)"
      using 4 tmp by (auto split: if_splits)
    show ?case
    proof (rule wp_bindI [OF nf_copyWithProgress [OF nf l1]],
        rule wp_bindI [OF nf_close [OF nf]], goal_cases)
      case (1 res w2 cerr w3)
      then have res: "res = (None, int (length (concat cs)), data)" and ce: "cerr = Inr ()"
        and t3: "look w3 (at env ?tmp) = Some (FileNode m data)" and fr: "frame {at env ?tmp} w w3"
        using data 4 by (auto simp: same_files_look frame_def split: prod.splits)
      have len: "off + int (length (concat cs)) = int (length data)" using off data by simp
      have "wp (attempt_as ''download rename'' (os_rename env ?tmp dst)
          (\<lambda>_. ok (off + int (length (concat cs))))) (delivered env dst data) w3"
        unfolding len
        by (rule wp_attempt_asI [OF nf_rename [OF nf t3]])
          (use fr dir dst ne up in \<open>auto simp: frame_def wp_simps delivered_def\<close>)
      then show ?case unfolding res ce by (simp add: Let_def sha)
    qed
  qed simp
qed

text \<open>A server that serves \<open>data\<close> at \<open>url\<close>, whole or from an offset, in any chunks.\<close>

definition serves :: "env \<Rightarrow> string \<Rightarrow> bytes \<Rightarrow> bool" where
  "serves env url data \<longleftrightarrow> e_badurl env url = None \<and>
     (\<forall>n req. rq_url req = url \<longrightarrow>
        (case rq_range req of
           None \<Rightarrow> \<exists>s hs cs. e_http env n req = Resp 200 s hs (Body cs True) \<and> concat cs = data
         | Some k \<Rightarrow>
             if k < length data
             then \<exists>s hs cs. e_http env n req = Resp 206 s hs (Body cs True) \<and> concat cs = drop k data
             else \<exists>s hs b. e_http env n req = Resp 416 s hs b))"

text \<open>A partial file a download of \<open>data\<close> may have left: none, or a proper prefix followed by the
  zeros of a torn write that fit the scan window.\<close>

definition partial_of :: "bytes \<Rightarrow> node option \<Rightarrow> bool" where
  "partial_of data x \<longleftrightarrow> x = None \<or>
     (\<exists>m k j. x = Some (FileNode m (take k data @ replicate j 0)) \<and> k < length data \<and>
        int j < safeScanWindowBytes)"

lemma safe_offset_partial:
  assumes "k < length data" and "int j < safeScanWindowBytes" and "p = take k data @ replicate j 0"
    and "s = safe_offset p (int (length p))"
  shows "0 \<le> s" and "s \<le> int k" and "take (nat s) p = take (nat s) data"
proof -
  show 0: "0 \<le> s" using assms(4) safe_offset_bounds by simp
  have "0 < s \<Longrightarrow> p ! nat (s - 1) \<noteq> 0 \<or> s = int (length p) - safeScanWindowBytes"
    using safe_offset_file [OF refl assms(4)] by blast
  moreover have "p ! nat (s - 1) = 0" if "int k < s"
    using that assms safe_offset_bounds [of "int (length p)" p]
    by (auto simp: nth_append)
  moreover have "int (length p) = int k + int j" using assms by simp
  ultimately show le: "s \<le> int k"
    using assms(2) by (cases "int k < s") auto
  then show "take (nat s) p = take (nat s) data"
  proof -
    have "nat s \<le> k" using le by linarith
    then show ?thesis using assms(1,3) by (simp add: min_def)
  qed
qed

lemma nf_openResumeState_file:
  assumes nf: "no_faults env" and f: "look w (at env p) = Some (FileNode m d)"
    and s: "s = safe_offset d (int (length d))"
  shows "wp (openResumeState env p) (\<lambda>r w'. frame {at env p} w w' \<and>
     r = Inr (if s = 0 then (0, None) else (s, Some (take (nat s) d))) \<and>
     look w' (at env p) = Some (FileNode m (take (nat s) d))) w"
proof (rule wp_keeps)
  show "keeps (frame {at env p}) (openResumeState env p)" by (intro keeps_intros) simp
  have b: "0 \<le> s" "s \<le> int (length d)"
    using safe_offset_bounds [of "int (length d)" d] s by simp_all
  let ?Q = "\<lambda>r w'. r = Inr (if s = 0 then (0, None) else (s, Some (take (nat s) d))) \<and>
     look w' (at env p) = Some (FileNode m (take (nat s) d))"
  show "wp (openResumeState env p) ?Q w"
    unfolding openResumeState_def
  proof (rule wp_bindI [OF nf_stat [OF nf]], goal_cases)
    case (1 r w1)
    then have r: "r = Inr (FileNode m d)" and f1: "look w1 (at env p) = Some (FileNode m d)"
      using f by (auto simp: same_files_look)
    show ?case
    proof (cases "d = []")
      case True
      with b f1 r show ?thesis by (simp add: node_size_def wp_simps)
    next
      case False
      have size': "wp (safeResumeSize env p (int (length d))) (\<lambda>r w2. same_files w1 w2 \<and> r = Inr s) w1"
        using False s by (auto simp: safeResumeSize_def wp_simps intro!: wp_mono [OF nf_read_file [OF nf f1]])
      have cut: "wp (if s < int (length d) then os_truncate env p (nat s) else ok ())
          (\<lambda>r w3. r = Inr () \<and> look w3 (at env p) = Some (FileNode m (take (nat s) d))) w2"
        if f2: "look w2 (at env p) = Some (FileNode m d)" for w2
        using b f2 by (auto simp: wp_simps intro!: wp_mono [OF nf_truncate [OF nf f2]])
      have pre: "wp (hashPrefix env p s) (\<lambda>r w4. r = Inr (take (nat s) d) \<and> same_files w3 w4) w3"
        if f3: "look w3 (at env p) = Some (FileNode m (take (nat s) d))" for w3
        unfolding hashPrefix_def
        by (rule wp_attemptI [OF nf_read_file [OF nf f3]]) (use b in \<open>auto simp: wp_simps min_def\<close>)
      have "wp (attempt (safeResumeSize env p (int (length d))) (\<lambda>safe.
           attempt (if safe < int (length d) then os_truncate env p (nat safe) else ok ()) (\<lambda>_.
             if safe = 0 then ok (0, None)
             else attempt (hashPrefix env p safe) (\<lambda>h. ok (safe, Some h))))) ?Q w1"
      proof (rule wp_attemptI [OF size'], simp, clarify, rule wp_attemptI [OF cut], goal_cases)
        case (3 w2 w2' u w3)
        then have f3: "look w3 (at env p) = Some (FileNode m (take (nat s) d))" by simp
        show ?case
        proof (cases "s = 0")
          case True
          with f3 show ?thesis by (simp add: wp_simps)
        next
          case False
          then show ?thesis
            by simp (rule wp_attemptI [OF pre [OF f3]], use f3 in \<open>auto simp: wp_simps same_files_look\<close>)
        qed
      qed (use f1 in \<open>auto simp: same_files_look\<close>)
      with False r show ?thesis by (simp add: node_size_def)
    qed
  qed
qed

lemma nf_openResumeState_none:
  assumes "no_faults env" and "look w (at env p) = None"
  shows "wp (openResumeState env p) (\<lambda>r w'. same_files w w' \<and> r = Inr (0, None)) w"
  unfolding openResumeState_def
  by (rule wp_bindI [OF nf_stat [OF assms(1)]])
    (use assms(2) in \<open>auto simp: wp_simps split: sum.splits\<close>)


lemma nf_accept_rest:
  assumes "no_faults env" and "named dst"
    and "look w (butlast (at env dst)) = Some DirNode" and "look w (at env dst) \<noteq> Some DirNode"
    and "look w (at env (dst @ ''.part'')) = Some (FileNode m d)" and "d \<noteq> []"
    and "data = d @ concat cs" and "hex_encode (e_sha256 env data) = sha"
  shows "wp (accept_response env (dst @ ''.part'') sha dst (int (length d)) (Some d) 206 status (Body cs True))
    (delivered env dst data) w"
  unfolding accept_response_def using assms
  by (simp, intro nf_receive [where h = d]) auto

lemma nf_accept_whole:
  assumes nf: "no_faults env" and n: "named dst"
    and dirs: "\<forall>i < length (at env dst). look w (take i (at env dst)) = Some DirNode"
    and dst: "look w (at env dst) \<noteq> Some DirNode"
    and tmp: "look w (at env (dst @ ''.part'')) = None \<or>
      (\<exists>m d. look w (at env (dst @ ''.part'')) = Some (FileNode m d))"
    and sha: "hex_encode (e_sha256 env (concat cs)) = sha"
  shows "wp (accept_response env (dst @ ''.part'') sha dst off hasher 200 status (Body cs True))
    (delivered env dst (concat cs)) w"
proof -
  let ?tmp = "dst @ ''.part''"
  have ne: "at env ?tmp \<noteq> at env dst" using n by (simp add: loc_of_suffix_eq_self)
  have atmp: "at env ?tmp = butlast (at env dst) @ [base_name dst @ ''.part'']"
    using n by (simp add: loc_of_named_suffix)
  have nn: "at env dst \<noteq> []" using n by (rule loc_of_named_not_Nil)
  have up: "look w (butlast (at env dst)) = Some DirNode"
    using dirs nn by (simp add: butlast_conv_take)
  have updirs: "look w (take i (at env ?tmp)) = Some DirNode" if "i < length (at env ?tmp)" for i
  proof -
    have i: "i \<le> length (butlast (at env dst))" using that by (simp add: atmp)
    have "0 < length (at env dst)" using nn by blast
    with i have lt: "i < length (at env dst)" unfolding length_butlast by linarith
    with i have "take i (at env ?tmp) = take i (at env dst)"
      by (simp add: atmp take_butlast)
    with lt show ?thesis using dirs by simp
  qed
  have rcv: "wp (receive env ?tmp sha dst 0 (Some []) (Body cs True)) (delivered env dst (concat cs)) w1"
    if "frame {at env ?tmp} w w1"
      and "look w1 (at env ?tmp) = None \<or> (\<exists>m d. look w1 (at env ?tmp) = Some (FileNode m d))" for w1
    by (rule nf_receive [OF nf n, where h = "[]"])
      (use that up dst ne atmp sha in \<open>auto simp: frame_def\<close>)
  show ?thesis
  proof (cases "look w (at env ?tmp) = None")
    case True
    have "wp (os_truncate env ?tmp 0) (\<lambda>r w1. same_files w w1 \<and> (\<exists>e. r = Inl e \<and> is_not_exist e)) w"
      by (rule nf_truncate_missing [OF nf True]) (use updirs in blast)
    then show ?thesis
      unfolding accept_response_def
      by (simp, elim wp_bindI)
        (use True in \<open>auto intro!: rcv simp: same_files_frame same_files_look\<close>)
  next
    case False
    with tmp obtain m d where f: "look w (at env ?tmp) = Some (FileNode m d)" by auto
    show ?thesis
      unfolding accept_response_def
      by (simp, rule wp_bindI [OF nf_truncate [OF nf f]]) (auto intro!: rcv)
  qed
qed

lemma download_request:
  assumes "e_badurl env url = None"
  shows "\<exists>rq. rq_url rq = url \<and> rq_range rq = (if off > 0 then Some (nat off) else None) \<and>
    (case authedRequest env c ''GET'' url of Inl e \<Rightarrow> Inl e
      | Inr r \<Rightarrow> Inr (if off > 0 then r\<lparr>rq_range := Some (nat off)\<rparr> else r)) = Inr rq"
  using assms
  by (cases "off > 0"; cases "Auth c = []") (simp_all add: authedRequest_def newRequest_def withAuth_def)

lemma serves_whole:
  assumes "serves env url data" and "rq_url rq = url" and "rq_range rq = None"
    and "\<And>s hs cs w'. same_files w w' \<Longrightarrow> concat cs = data \<Longrightarrow> wp (k 200 s hs (Body cs True)) Q w'"
  shows "wp (http_send env label (Inr rq) k) Q w"
proof -
  have "\<exists>s hs cs. e_http env n rq = Resp 200 s hs (Body cs True) \<and> concat cs = data" for n
    using assms(1) [unfolded serves_def, THEN conjunct2, rule_format, OF assms(2), of n] assms(3)
    by simp
  then obtain s hs cs where "e_http env (length (w_reqs w)) rq = Resp 200 s hs (Body cs True)"
    "concat cs = data" by blast
  then show ?thesis
    using assms(4) by (auto simp: http_send_def wp_def http_do_def same_files_def)
qed

lemma serves_rest:
  assumes "serves env url data" and "rq_url rq = url" and "rq_range rq = Some i" and "i < length data"
    and "\<And>s hs cs w'. same_files w w' \<Longrightarrow> concat cs = drop i data \<Longrightarrow> wp (k 206 s hs (Body cs True)) Q w'"
  shows "wp (http_send env label (Inr rq) k) Q w"
proof -
  have "\<exists>s hs cs. e_http env n rq = Resp 206 s hs (Body cs True) \<and> concat cs = drop i data" for n
    using assms(1) [unfolded serves_def, THEN conjunct2, rule_format, OF assms(2), of n] assms(3,4)
    by simp
  then obtain s hs cs where "e_http env (length (w_reqs w)) rq = Resp 206 s hs (Body cs True)"
    "concat cs = drop i data" by blast
  then show ?thesis
    using assms(5) by (auto simp: http_send_def wp_def http_do_def same_files_def)
qed

text \<open>What opening a partial file of \<open>data\<close> keeps: a proper prefix \<open>d\<close> of it.\<close>

lemma nf_open_partial:
  assumes nf: "no_faults env" and part: "partial_of data (look w (at env p))"
  shows "wp (openResumeState env p) (\<lambda>r w1. \<exists>d. frame {at env p} w w1 \<and>
     r = Inr (if d = [] then (0, None) else (int (length d), Some d)) \<and>
     d @ drop (length d) data = data \<and> (d \<noteq> [] \<longrightarrow> length d < length data) \<and>
     (d \<noteq> [] \<longrightarrow> (\<exists>m. look w1 (at env p) = Some (FileNode m d))) \<and>
     (look w1 (at env p) = None \<or> (\<exists>m d. look w1 (at env p) = Some (FileNode m d)))) w"
proof (cases "look w (at env p) = None")
  case True
  show ?thesis
    apply (rule wp_mono [OF nf_openResumeState_none [OF nf True]])
    subgoal for r w1
      by (rule exI [of _ "[]"]) (use True in \<open>simp add: same_files_frame same_files_look [of w w1]\<close>)
    done
next
  case False
  then obtain m k j where f: "look w (at env p) = Some (FileNode m (take k data @ replicate j 0))"
    and kj: "k < length data" "int j < safeScanWindowBytes"
    using part by (auto simp: partial_of_def)
  let ?p = "take k data @ replicate j 0"
  define s where "s = safe_offset ?p (int (length ?p))"
  have s: "0 \<le> s" "s \<le> int k" and t: "take (nat s) ?p = take (nat s) data"
    using safe_offset_partial [OF kj refl refl] by (simp_all only: s_def)
  have len: "nat s < length data" using s kj by linarith
  show ?thesis
    apply (rule wp_mono [OF nf_openResumeState_file [OF nf f s_def]])
    subgoal for r w1
      unfolding t by (rule exI [of _ "take (nat s) data"]) (use s len in auto)
    done
qed

text \<open>\<open>C9\<close>. Whatever the server answers and whatever fails, a download that returns success has put
  a file with the requested SHA-256 at the destination; one that returns an error, or is cut,
  leaves the destination as it was, also when the hash does not match (the comment on
  \<^verbatim>\<open>DownloadBlob\<close> says that it is removed then). Only the destination and its \<^verbatim>\<open>.part\<close> file change.\<close>

theorem download_verified:
  assumes "named dst" and "run_state (downloadHashed env c url sha dst) w = (r, w')"
  shows "frame {at env dst, at env (dst @ ''.part'')} w w' \<and>
    (case r of
       Inl _ \<Rightarrow> look w' (at env dst) = look w (at env dst)
     | Inr _ \<Rightarrow> has_hash env w' (at env dst) sha)"
proof -
  have "keeps (frame {at env dst, at env (dst @ ''.part'')}) (downloadHashed env c url sha dst)"
    by (intro keeps_intros) simp_all
  then show ?thesis
    using keepsD [OF _ assms(2)] wpD [OF wp_downloadHashed [OF assms(1)] assms(2)]
    unfolding received_def by blast
qed

definition demo_client :: client where
  "demo_client = New_client ''http://ota''"

definition demo_sha :: string where
  "demo_sha = hex_encode (sample_hash [1, 2, 3])"

definition demo_dir :: world where
  "demo_dir = world_of [([''d''], DirNode)]"

theorem download_verified_witness:
  "\<exists>n w'. run_state (downloadHashed (serving [Resp 200 ''200 OK'' [] (Body [[1, 2], [3]] True)])
      demo_client ''http://ota/v1/blobs/x'' demo_sha ''/d/f'') demo_dir = (Inr n, w') \<and>
    has_hash (serving [Resp 200 ''200 OK'' [] (Body [[1, 2], [3]] True)]) w' [''d'', ''f''] demo_sha"
proof -
  let ?e = "serving [Resp 200 ''200 OK'' [] (Body [[1, 2], [3]] True)]"
  let ?m = "run_state (downloadHashed ?e demo_client ''http://ota/v1/blobs/x'' demo_sha ''/d/f'') demo_dir"
  have 1: "?m = (fst ?m, snd ?m)" by simp
  have ok: "is_ok (fst ?m)" by code_simp
  have n: "named ''/d/f''" and l: "at ?e ''/d/f'' = [''d'', ''f'']" by code_simp+
  show ?thesis
    using download_verified [OF n 1] ok l 1 by (cases "fst ?m") auto
qed

text \<open>The request after a partial file with the prefix \<open>d\<close> has been opened, and its answer.\<close>

lemma nf_send_resumed:
  assumes nf: "no_faults env" and n: "named dst" and srv: "serves env url data"
    and sha: "hex_encode (e_sha256 env data) = sha"
    and dirs: "\<forall>i < length (at env dst). look w (take i (at env dst)) = Some DirNode"
    and dst: "look w (at env dst) \<noteq> Some DirNode"
    and pre: "d @ drop (length d) data = data" "d \<noteq> [] \<Longrightarrow> length d < length data"
    and tmp: "d \<noteq> [] \<Longrightarrow> \<exists>m. look w (at env (dst @ ''.part'')) = Some (FileNode m d)"
      "look w (at env (dst @ ''.part'')) = None \<or> (\<exists>m d. look w (at env (dst @ ''.part'')) = Some (FileNode m d))"
    and rq: "rq_url rq = url" "rq_range rq = (if int (length d) > 0 then Some (nat (int (length d))) else None)"
  shows "wp (http_send env ''download'' (Inr rq) (\<lambda>st status hdrs bdy.
      accept_response env (dst @ ''.part'') sha dst (int (length d)) (if d = [] then None else Some d) st status bdy))
    (delivered env dst data) w"
proof -
  have dirs2: "\<forall>i < length (at env dst). look w2 (take i (at env dst)) = Some DirNode"
    "look w2 (at env dst) \<noteq> Some DirNode" if "same_files w w2" for w2
    using that dirs dst by (auto simp: same_files_look)
  show ?thesis
  proof (cases "d = []")
    case True
    show ?thesis
    proof (rule serves_whole [OF srv rq(1)], goal_cases)
      case (2 s hs cs w2)
      show ?case
        unfolding 2(2) [symmetric]
        by (rule nf_accept_whole [OF nf n dirs2 [OF 2(1)]])
          (use tmp(2) 2 sha in \<open>auto simp: same_files_look\<close>)
    qed (use rq True in simp)
  next
    case False
    show ?thesis
    proof (rule serves_rest [OF srv rq(1), where i = "length d"], goal_cases)
      case (3 s hs cs w2)
      obtain m where t2: "look w2 (at env (dst @ ''.part'')) = Some (FileNode m d)"
        using tmp(1) [OF False] 3 by (auto simp: same_files_look)
      have up2: "look w2 (butlast (at env dst)) = Some DirNode"
        using dirs2(1) [OF 3(1)] loc_of_named_not_Nil [OF n] by (simp add: butlast_conv_take)
      show ?case
        using nf_accept_rest [OF nf n up2 dirs2(2) [OF 3(1)] t2 False _ sha, of cs] False 3(2) pre
        by simp
    qed (use rq False pre in simp_all)
  qed
qed

lemma part_not_above:
  assumes "named dst" and "i < length (at env dst)"
  shows "take i (at env dst) \<noteq> at env (dst @ ''.part'')"
proof
  assume "take i (at env dst) = at env (dst @ ''.part'')"
  then have "length (at env (dst @ ''.part'')) = length (take i (at env dst))" by simp
  moreover have "length (at env (dst @ ''.part'')) = length (at env dst)"
    using assms(1) loc_of_named_not_Nil [OF assms(1)] by (simp add: loc_of_named_suffix)
  ultimately show False using assms(2) by simp
qed

text \<open>\<open>C12\<close>. Resuming works: from any partial file an interrupted download of \<open>data\<close> may have
  left - none, or a proper prefix, even one followed by the zeros of a torn write shorter than
  the scan window - a download from a server that serves \<open>data\<close> (whole, or from the offset
  asked for, in any chunks) delivers \<open>data\<close> and removes the partial file.\<close>

theorem resume_completes:
  assumes nf: "no_faults env" and n: "named dst" and srv: "serves env url data"
    and sha: "hex_encode (e_sha256 env data) = sha"
    and dirs: "\<forall>i < length (at env dst). look w (take i (at env dst)) = Some DirNode"
    and dst: "look w (at env dst) \<noteq> Some DirNode"
    and part: "partial_of data (look w (at env (dst @ ''.part'')))"
    and run: "run_state (downloadHashed env c url sha dst) w = (r, w')"
  shows "delivered env dst data r w'"
proof -
  let ?tmp = "dst @ ''.part''"
  have ne: "at env ?tmp \<noteq> at env dst" using n by (simp add: loc_of_suffix_eq_self)
  have bad: "e_badurl env url = None" using srv by (simp add: serves_def)
  have "wp (downloadHashed env c url sha dst) (delivered env dst data) w"
    unfolding downloadHashed_def Let_def
  proof (rule wp_bindI [OF nf_open_partial [OF nf part]], goal_cases)
    case (1 rs w1)
    then obtain d where rs: "rs = Inr (if d = [] then (0, None) else (int (length d), Some d))"
      and fr: "frame {at env ?tmp} w w1" and pre: "d @ drop (length d) data = data" "d \<noteq> [] \<Longrightarrow> length d < length data"
      and t1: "d \<noteq> [] \<Longrightarrow> \<exists>m. look w1 (at env ?tmp) = Some (FileNode m d)"
        "look w1 (at env ?tmp) = None \<or> (\<exists>m d. look w1 (at env ?tmp) = Some (FileNode m d))"
      by blast
    obtain rq where rq: "rq_url rq = url"
      "rq_range rq = (if int (length d) > 0 then Some (nat (int (length d))) else None)"
      "(case authedRequest env c ''GET'' url of Inl e \<Rightarrow> Inl e
        | Inr r \<Rightarrow> Inr (if int (length d) > 0 then r\<lparr>rq_range := Some (nat (int (length d)))\<rparr> else r)) = Inr rq"
      using download_request [OF bad, of "int (length d)" c] by blast
    have oh: "(case rs of Inl _ \<Rightarrow> (0, None) | Inr x \<Rightarrow> x) =
        (int (length d), if d = [] then None else Some d)"
      using rs by simp
    have dirs1: "\<forall>i < length (at env dst). look w1 (take i (at env dst)) = Some DirNode"
      "look w1 (at env dst) \<noteq> Some DirNode"
      using fr part_not_above [OF n] dirs dst ne by (auto simp: frame_def)
    show ?case
      unfolding oh prod.case rq(3) by (rule nf_send_resumed [OF nf n srv sha dirs1 pre t1 rq(1,2)])
  qed
  then show ?thesis using run by (rule wpD)
qed


text \<open>The machine of the examples with a server of one file.\<close>

definition file_server :: "bytes \<Rightarrow> env" where
  "file_server data = calm\<lparr>e_http := (\<lambda>n req.
     case rq_range req of
       None \<Rightarrow> Resp 200 ''200 OK'' [] (Body [data] True)
     | Some k \<Rightarrow>
         if k < length data then Resp 206 ''206 Partial Content'' [] (Body [drop k data] True)
         else Resp 416 ''416 Requested Range Not Satisfiable'' [] (Body [] True))\<rparr>"

lemma file_server: "no_faults (file_server data)" "serves (file_server data) url data"
  "e_cwd (file_server data) = []" "e_sha256 (file_server data) = sample_hash"
  by (auto simp: no_faults_def file_server_def calm_def serves_def split: option.split)

theorem resume_completes_witness:
  "let w = world_of [([''d''], DirNode), ([''d'', ''f.part''], FileNode 420 [1, 2, 0, 0, 0])];
       w' = snd (run_state (downloadHashed (file_server [1, 2, 3]) demo_client ''u'' demo_sha ''/d/f'') w) in
   \<exists>m. look w' [''d'', ''f''] = Some (FileNode m [1, 2, 3])"
proof -
  let ?e = "file_server [1, 2, 3]"
  let ?w = "world_of [([''d''], DirNode), ([''d'', ''f.part''], FileNode 420 [1, 2, 0, 0, 0])]"
  let ?m = "run_state (downloadHashed ?e demo_client ''u'' demo_sha ''/d/f'') ?w"
  have run: "?m = (fst ?m, snd ?m)" by simp
  have n: "named ''/d/f''" and l: "at ?e ''/d/f'' = [''d'', ''f'']" "at ?e ''/d/f.part'' = [''d'', ''f.part'']"
    by (code_simp, simp_all add: file_server loc_of_def IsAbs_def rstep_def)
  have sha: "hex_encode (e_sha256 ?e [1, 2, 3]) = demo_sha"
    by (simp add: file_server demo_sha_def)
  have dirs: "\<forall>i < length (at ?e ''/d/f''). look ?w (take i (at ?e ''/d/f'')) = Some DirNode"
    and dst: "look ?w (at ?e ''/d/f'') \<noteq> Some DirNode"
    by (auto simp: l world_of_def look_def node_at_def less_Suc_eq)
  have "partial_of [1, 2, 3] (look ?w [''d'', ''f.part''])"
    unfolding partial_of_def
    by (intro disjI2 exI [of _ 420] exI [of _ 2] exI [of _ 3])
      (simp add: world_of_def look_def node_at_def safeScanWindowBytes_def numeral_3_eq_3 numeral_2_eq_2)
  then have part: "partial_of [1, 2, 3] (look ?w (at ?e (''/d/f'' @ ''.part'')))"
    by (simp add: l)
  show ?thesis
    using resume_completes [OF file_server(1) n file_server(2) sha dirs dst part run]
    by (simp add: delivered_def Let_def l)
qed

text \<open>\<open>C22\<close>. A partial file that is already complete is never finished: when the last byte of \<open>data\<close>
  is not zero and the \<^verbatim>\<open>.part\<close> file holds all of it (as after a download whose final rename
  failed), the resume asks for the empty range, the server answers 416, and the download fails
  leaving every file as it was, so the next attempt fails the same way.\<close>

theorem complete_part_is_stuck:
  assumes nf: "no_faults env" and srv: "serves env url data"
    and part: "look w (at env (dst @ ''.part'')) = Some (FileNode m data)"
    and last: "data \<noteq> []" "last data \<noteq> 0"
    and run: "run_state (downloadHashed env c url sha dst) w = (r, w')"
  shows "\<not> is_ok r \<and> (\<forall>l. look w' l = look w l)"
proof -
  let ?tmp = "dst @ ''.part''"
  have bad: "e_badurl env url = None" using srv by (simp add: serves_def)
  have len: "safe_offset data (int (length data)) = int (length data)"
  proof (rule antisym)
    show "safe_offset data (int (length data)) \<le> int (length data)" by (rule safe_offset_bounds) simp
    have nz: "data ! (length data - 1) \<noteq> 0" using last by (simp add: last_conv_nth)
    show "int (length data) \<le> safe_offset data (int (length data))"
    proof (rule ccontr)
      assume "\<not> ?thesis"
      moreover have "0 < length data" using last(1) by simp
      ultimately have "safe_offset data (int (length data)) \<le> int (length data - 1)"
        "int (length data - 1) < int (length data)" by linarith+
      then show False using safe_offset_file [OF refl refl, of data] nz by blast
    qed
  qed
  have "wp (downloadHashed env c url sha dst) (\<lambda>r w'. \<not> is_ok r \<and> (\<forall>l. look w' l = look w l)) w"
    unfolding downloadHashed_def Let_def
  proof (rule wp_bindI [OF nf_openResumeState_file [OF nf part len [symmetric]]], goal_cases)
    case (1 rs w1)
    then have rs: "rs = Inr (int (length data), Some data)" using last(1) by simp
    have same: "\<forall>l. look w1 l = look w l"
    proof
      fix l
      show "look w1 l = look w l"
        by (cases "l = at env ?tmp") (use 1 part in \<open>auto simp: frame_def\<close>)
    qed
    obtain rq where rq: "rq_url rq = url"
      "rq_range rq = (if int (length data) > 0 then Some (nat (int (length data))) else None)"
      "(case authedRequest env c ''GET'' url of Inl e \<Rightarrow> Inl e
        | Inr r \<Rightarrow> Inr (if int (length data) > 0 then r\<lparr>rq_range := Some (nat (int (length data)))\<rparr> else r)) = Inr rq"
      using download_request [OF bad, of "int (length data)" c] by blast
    have "\<exists>s hs b. e_http env n rq = Resp 416 s hs b" for n
      using srv [unfolded serves_def, THEN conjunct2, rule_format, OF rq(1), of n] rq(2) last(1)
      by simp
    then obtain s hs b where h: "e_http env (length (w_reqs w1)) rq = Resp 416 s hs b" by blast
    show ?case
      unfolding rs sum.case prod.case rq(3)
      using same h by (simp add: wp_def http_send_def http_do_def accept_response_def look_def)
  qed
  then show ?thesis using run by (rule wpD)
qed


theorem complete_part_is_stuck_witness:
  "let w = world_of [([''d''], DirNode), ([''d'', ''f.part''], FileNode 420 [1, 2, 3])];
       m = run_state (downloadHashed (file_server [1, 2, 3]) demo_client ''u'' demo_sha ''/d/f'') w in
   \<not> is_ok (fst m) \<and> look (snd m) [''d'', ''f.part''] = Some (FileNode 420 [1, 2, 3])"
proof -
  let ?w = "world_of [([''d''], DirNode), ([''d'', ''f.part''], FileNode 420 [1, 2, 3])]"
  let ?m = "run_state (downloadHashed (file_server [1, 2, 3]) demo_client ''u'' demo_sha ''/d/f'') ?w"
  have run: "?m = (fst ?m, snd ?m)" by simp
  have l: "at (file_server [1, 2, 3]) ''/d/f.part'' = [''d'', ''f.part'']"
    by (simp add: file_server loc_of_def IsAbs_def rstep_def)
  have p: "look ?w [''d'', ''f.part''] = Some (FileNode 420 [1, 2, 3])"
    by (simp add: world_of_def look_def node_at_def)
  then have p': "look ?w (at (file_server [1, 2, 3]) (''/d/f'' @ ''.part'')) = Some (FileNode 420 [1, 2, 3])"
    by (simp add: l)
  show ?thesis
    using complete_part_is_stuck [OF file_server(1,2) p' _ _ run] p by (simp add: Let_def)
qed

text \<open>\<open>C23\<close>. The resume point of a partial file lies within it; everything after it is zero, and
  the byte before it is not zero - except when the whole scan window is zero: then exactly the
  window is dropped, and zeros may be kept before it.\<close>

theorem resume_point:
  assumes "run_state (safeResumeSize env p (int (length d))) w = (Inr s, w')"
    and "look w (at env p) = Some (FileNode m d)"
  shows "0 \<le> s \<and> s \<le> int (length d) \<and> (\<forall>i. s \<le> int i \<and> int i < int (length d) \<longrightarrow> d ! i = 0) \<and>
    (0 < s \<longrightarrow> d ! nat (s - 1) \<noteq> 0 \<or> s = int (length d) - safeScanWindowBytes)"
proof -
  have "s = safe_offset d (int (length d)) \<or> d = [] \<and> s = 0"
    using wpD [OF wp_safeResumeSize assms(1)] assms(2) by auto
  then show ?thesis
    using safe_offset_bounds [of "int (length d)" d] safe_offset_file [OF refl, of s d] by auto
qed

theorem resume_point_witness:
  "fst (run_state (safeResumeSize calm ''/f'' 4) (world_of [([''f''], FileNode 420 [7, 0, 9, 0])])) = Inr 3 \<and>
   ([7, 0, 9, 0] :: bytes) ! nat (3 - 1) \<noteq> 0"
proof -
  let ?d = "[7, 0, 9, 0] :: bytes" and ?w = "world_of [([''f''], FileNode 420 [7, 0, 9, 0])]"
  let ?m = "run_state (safeResumeSize calm ''/f'' (int (length ?d))) ?w"
  have r: "fst ?m = Inr 3" by code_simp
  then have run: "?m = (Inr 3, snd ?m)" by (metis prod.collapse)
  have l: "look ?w (at calm ''/f'') = Some (FileNode 420 ?d)" by code_simp
  have "(4 :: int) - safeScanWindowBytes \<noteq> 3" by (simp add: safeScanWindowBytes_def)
  with resume_point [OF run l] r show ?thesis by simp
qed


subsection \<open>The other endpoints\<close>

definition bearer :: "client \<Rightarrow> string option" where
  "bearer c = (if Auth c = [] then None else Some (''Bearer '' @ Auth c))"

text \<open>No file changes, and at most one request goes out, with the authorization \<open>a\<close>.\<close>

definition one_request :: "string option \<Rightarrow> 'a act \<Rightarrow> bool" where
  "one_request a m \<longleftrightarrow> (\<forall>w. let w' = snd (run_state m w) in
     same_files w w' \<and> (w_reqs w' = w_reqs w \<or> (\<exists>rq. rq_auth rq = a \<and> w_reqs w' = rq # w_reqs w)))"

lemma one_request_http_send:
  assumes "\<And>rq. req = Inr rq \<Longrightarrow> rq_auth rq = a"
    and "\<And>st status hdrs b w. snd (run_state (k st status hdrs b) w) = w"
  shows "one_request a (http_send env label req k)"
  using assms
  by (auto simp: one_request_def http_send_def http_do_def same_files_def split: sum.split http_result.split)

lemma newRequest_auth: "newRequest env meth url b = Inr rq \<Longrightarrow> rq_auth (withAuth c rq) = bearer c \<and> rq_auth rq = None"
  by (auto simp: newRequest_def withAuth_def bearer_def split: option.splits)

lemma authedRequest_auth: "authedRequest env c meth url = Inr rq \<Longrightarrow> rq_auth rq = bearer c"
  by (auto simp: authedRequest_def split: sum.splits dest: newRequest_auth)

lemma one_request_ok: "one_request a (ok x)"
  by (simp add: one_request_def)

lemma one_request_if:
  "(b \<Longrightarrow> one_request a m) \<Longrightarrow> (\<not> b \<Longrightarrow> one_request a n) \<Longrightarrow> one_request a (if b then m else n)"
  by simp

lemma one_request_endpoints:
  "one_request (bearer c) (GetManifest env c sw v)"
  "one_request (bearer c) (Anchors env c sw)"
  "one_request (bearer c) (LatestRelease env c sw)"
  "one_request (bearer c) (ListReleases env c sw)"
  "one_request (bearer c) (ListSoftware env c)"
  "one_request (bearer c) (SetClientEmail env c email)"
  "one_request (bearer c) (ListClientEmails env c)"
  "one_request (bearer c) (DeleteClientEmail env c address)"
  "one_request None (ExchangeInstallToken env c tok hw)"
  "one_request (bearer c) (ReportClientState env c sw cur prev kind)"
  unfolding GetManifest_def Anchors_def LatestRelease_def ListReleases_def ListSoftware_def
    SetClientEmail_def ListClientEmails_def DeleteClientEmail_def ExchangeInstallToken_def
    ReportClientState_def Let_def
  by (intro one_request_if one_request_ok one_request_http_send;
      auto dest: newRequest_auth authedRequest_auth split: sum.splits if_splits)+

lemma one_request_attempt:
  assumes "one_request a m" and "\<And>x w. snd (run_state (f x) w) = w"
  shows "one_request a (attempt m f)"
proof -
  have "snd (run_state (attempt m f) w) = snd (run_state m w)" for w
    using assms(2) by (simp split: prod.split sum.split)
  with assms(1) show ?thesis by (simp add: one_request_def)
qed

lemma keeps_endpoint: "one_request a m \<Longrightarrow> keeps same_files m"
  by (simp add: one_request_def keeps_def Let_def)

text \<open>\<open>C24\<close>. Every call other than a download calls \<^verbatim>\<open>http.Client.Do\<close> at most once, and changes no
  file (what \<^verbatim>\<open>Do\<close> itself sends on to follow a redirect is not seen). The request carries the client's bearer token if it has one; the exchange of an install token
  carries none. With \<^verbatim>\<open>OTA_DISABLE_REPORTING=1\<close> a state report sends nothing.\<close>

theorem endpoints_send_one_request:
  "one_request (bearer c) (GetManifest env c sw v) \<and>
   one_request (bearer c) (Anchors env c sw) \<and>
   one_request (bearer c) (LatestRelease env c sw) \<and>
   one_request (bearer c) (ListReleases env c sw) \<and>
   one_request (bearer c) (ListSoftware env c) \<and>
   one_request (bearer c) (SetClientEmail env c email) \<and>
   one_request (bearer c) (ListClientEmails env c) \<and>
   one_request (bearer c) (DeleteClientEmail env c address) \<and>
   one_request None (ExchangeInstallToken env c tok hw) \<and>
   one_request (bearer c) (ReportClientState env c sw cur prev kind) \<and>
   run_state (ReportClientState (env\<lparr>e_getenv := (\<lambda>_. ''1'')\<rparr>) c sw cur prev kind) w = (Inr (), w)"
  by (intro conjI one_request_endpoints) (simp add: ReportClientState_def)

end
