(* ===== verification/Bspatch.thy ===== *)
theory Bspatch
  imports Samples
begin

unbundle bit_operations_syntax

section \<open>The BSDIFF40 patch decoder\<close>

text \<open>
  Models \<^verbatim>\<open>gabstv-go-bsdiff/pkg/bspatch/bspatch.go\<close>: \<open>offtin\<close>, \<open>zreadall\<close> and \<open>patchb\<close>. Go's
  \<^verbatim>\<open>int\<close> is an integer wrapped to 64 bits after each addition. A bzip2 reader over a byte
  string is the function \<open>bz\<close>, an argument of the decoder: the bytes it delivers and the error
  it ends with. \<open>zreadall\<close> gathers what several reads deliver, so how the reader cuts its
  output into reads does not matter. The buffer \<^verbatim>\<open>pnew\<close> is the list of its bytes below
  \<^verbatim>\<open>newpos\<close>, the only ones the code has written. A slice expression out of range is a panic.
\<close>

subsection \<open>64-bit integers\<close>

definition wrap64 :: "int \<Rightarrow> int" where
  "wrap64 x = (x + 2 ^ 63) mod 2 ^ 64 - 2 ^ 63"

definition int64_range :: "int \<Rightarrow> bool" where
  "int64_range x \<longleftrightarrow> - (2 ^ 63) \<le> x \<and> x < 2 ^ 63"

lemma wrap64_id: "int64_range x \<Longrightarrow> wrap64 x = x"
  by (simp add: wrap64_def int64_range_def)

lemma wrap64_range: "int64_range (wrap64 x)"
  by (simp add: wrap64_def int64_range_def)

lemma wrap64_add: "wrap64 (wrap64 x + y) = wrap64 (x + y)"
proof -
  have "wrap64 (wrap64 x + y) = ((x + 2 ^ 63) mod 2 ^ 64 + y) mod 2 ^ 64 - 2 ^ 63"
    by (simp add: wrap64_def algebra_simps)
  also have "\<dots> = (x + 2 ^ 63 + y) mod 2 ^ 64 - 2 ^ 63"
    by (simp only: mod_add_left_eq)
  also have "\<dots> = wrap64 (x + y)"
    by (simp add: wrap64_def algebra_simps)
  finally show ?thesis .
qed

text \<open>The bytes of an offset: magnitude in little endian, sign in the top bit.\<close>

definition offtin :: "bytes \<Rightarrow> int" where
  "offtin buf =
     (let y = uint (buf ! 7 AND 0x7f);
          y = y * 256 + uint (buf ! 6);
          y = y * 256 + uint (buf ! 5);
          y = y * 256 + uint (buf ! 4);
          y = y * 256 + uint (buf ! 3);
          y = y * 256 + uint (buf ! 2);
          y = y * 256 + uint (buf ! 1);
          y = y * 256 + uint (buf ! 0)
      in if buf ! 7 AND 0x80 \<noteq> 0 then - y else y)"

text \<open>\<^verbatim>\<open>offtout\<close> of \<^verbatim>\<open>pkg/bsdiff/bsdiff.go\<close>, its inverse.\<close>

definition offtout :: "int \<Rightarrow> bytes" where
  "offtout x =
     (let y0 = (if x < 0 then wrap64 (- x) else x);
          b0 = word_of_int (y0 mod 256); y1 = (y0 - uint b0) div 256;
          b1 = word_of_int (y1 mod 256); y2 = (y1 - uint b1) div 256;
          b2 = word_of_int (y2 mod 256); y3 = (y2 - uint b2) div 256;
          b3 = word_of_int (y3 mod 256); y4 = (y3 - uint b3) div 256;
          b4 = word_of_int (y4 mod 256); y5 = (y4 - uint b4) div 256;
          b5 = word_of_int (y5 mod 256); y6 = (y5 - uint b5) div 256;
          b6 = word_of_int (y6 mod 256); y7 = (y6 - uint b6) div 256;
          b7 = word_of_int (y7 mod 256)
      in [b0, b1, b2, b3, b4, b5, b6, if x < 0 then b7 OR 0x80 else b7])"


lemma bit7_iff: "bit (b :: byte) 7 \<longleftrightarrow> 128 \<le> uint b"
proof -
  have "bit b 7 \<longleftrightarrow> bit (uint b) 7"
    by (simp add: bit_uint_iff)
  also have "\<dots> \<longleftrightarrow> odd (uint b div 128)"
    by (simp add: bit_iff_odd)
  also have "\<dots> \<longleftrightarrow> 128 \<le> uint b"
  proof -
    have "uint b div 128 = 0 \<or> uint b div 128 = 1"
      using unsigned_less [of b, where 'a = int] by auto
    then show ?thesis by auto
  qed
  finally show ?thesis .
qed

lemma and_0x80: "(b :: byte) AND 0x80 \<noteq> 0 \<longleftrightarrow> 128 \<le> uint b"
proof -
  have "b AND 0x80 = (if bit b 7 then 0x80 else 0)"
  proof (rule bit_word_eqI)
    fix n assume "n < LENGTH(8)"
    then have "n < 8" by simp
    then have "n = 0 \<or> n = 1 \<or> n = 2 \<or> n = 3 \<or> n = 4 \<or> n = 5 \<or> n = 6 \<or> n = 7" by auto
    then show "bit (b AND 0x80) n = bit (if bit b 7 then 0x80 else 0 :: byte) n"
      by (auto simp: bit_and_iff)
  qed
  then show ?thesis by (simp add: bit7_iff)
qed

lemma uint_and_0x7f: "uint ((b :: byte) AND 0x7f) = uint b mod 128"
proof -
  have "(0x7f :: byte) = mask 7" by (simp add: mask_eq_exp_minus_1)
  then have "b AND 0x7f = take_bit 7 b" by (simp add: take_bit_eq_mask)
  then have "uint (b AND 0x7f) = take_bit 7 (uint b)" by (simp only: unsigned_take_bit_eq)
  then show ?thesis by (simp add: take_bit_eq_mod)
qed

lemma uint_or_0x80:
  assumes "uint (b :: byte) < 128"
  shows "uint (b OR 0x80) = uint b + 128"
proof -
  have "b AND 0x80 = 0" using and_0x80 [of b] assms by auto
  then have "b OR 0x80 = b + 0x80" by (metis add_0 word_plus_and_or)
  then show ?thesis using assms by (simp add: uint_plus_if')
qed

lemma uint_offset_byte [simp]: "uint (word_of_int (y mod 256) :: byte) = y mod 256"
  by (simp add: uint_word_of_int)

text \<open>Offsets round trip through their bytes.\<close>

lemma offtin_bytes:
  "offtin [b0, b1, b2, b3, b4, b5, b6, b7] =
     (let y = ((((((uint b7 mod 128 * 256 + uint b6) * 256 + uint b5) * 256 + uint b4) * 256 +
            uint b3) * 256 + uint b2) * 256 + uint b1) * 256 + uint b0
      in if 128 \<le> uint b7 then - y else y)"
  using and_0x80 [of b7] by (simp add: offtin_def uint_and_0x7f Let_def)

lemma offtin_offtout:
  assumes "\<bar>x\<bar> < 2 ^ 63"
  shows "offtin (offtout x) = x"
proof -
  have d: "(y - y mod 256) div 256 = y div 256" for y :: int
    by (simp add: minus_mod_eq_mult_div)
  have h: "q div 256 * 256 + q mod 256 = q" for q :: int
    by (rule div_mult_mod_eq)
  define y0 where "y0 = \<bar>x\<bar>"
  define y1 where "y1 = y0 div 256"
  define y2 where "y2 = y1 div 256"
  define y3 where "y3 = y2 div 256"
  define y4 where "y4 = y3 div 256"
  define y5 where "y5 = y4 div 256"
  define y6 where "y6 = y5 div 256"
  define y7 where "y7 = y6 div 256"
  note ys = y1_def [symmetric] y2_def [symmetric] y3_def [symmetric] y4_def [symmetric]
    y5_def [symmetric] y6_def [symmetric] y7_def [symmetric]
  have y0: "0 \<le> y0" "y0 < 2 ^ 63" "(if x < 0 then wrap64 (- x) else x) = y0"
    using assms by (auto simp: y0_def wrap64_id int64_range_def)
  have "y7 = y0 div 2 ^ 56"
    by (simp add: y7_def y6_def y5_def y4_def y3_def y2_def y1_def zdiv_zmult2_eq [symmetric])
  then have y7: "0 \<le> y7" "y7 < 128" "y7 mod 256 = y7" "y7 mod 128 = y7" using y0 by auto
  let ?b7 = "word_of_int y7 :: byte"
  have b7: "uint ?b7 = y7" "uint (?b7 OR 0x80) = y7 + 128"
    using y7 uint_or_0x80 [of ?b7] by (simp_all add: uint_word_of_int)
  have out: "offtout x = [word_of_int (y0 mod 256), word_of_int (y1 mod 256), word_of_int (y2 mod 256),
      word_of_int (y3 mod 256), word_of_int (y4 mod 256), word_of_int (y5 mod 256),
      word_of_int (y6 mod 256), if x < 0 then ?b7 OR 0x80 else ?b7]"
    unfolding offtout_def Let_def y0(3) uint_offset_byte d ys y7(3) ..
  have "y7 * 256 + y6 mod 256 = y6" "y6 * 256 + y5 mod 256 = y5" "y5 * 256 + y4 mod 256 = y4"
    "y4 * 256 + y3 mod 256 = y3" "y3 * 256 + y2 mod 256 = y2" "y2 * 256 + y1 mod 256 = y1"
    "y1 * 256 + y0 mod 256 = y0"
    using h unfolding y7_def y6_def y5_def y4_def y3_def y2_def y1_def by this+
  note ho = this
  have "(y7 + 128) mod 128 = y7" using y7 by simp
  then show ?thesis
    unfolding out offtin_bytes
    using b7 y7 by (simp only: uint_offset_byte ho Let_def split: if_split) (auto simp: ho y0_def)
qed

lemma length_Let: "length (Let a f) = Let a (\<lambda>x. length (f x))"
  by (simp add: Let_def)

lemma length_offtout [simp]: "length (offtout x) = 8"
  unfolding offtout_def length_Let list.size by (simp add: Let_def)

lemma eight_digits_range:
  fixes a b c d e f g h :: int
  assumes "0 \<le> a" "a \<le> 127" "0 \<le> b" "b \<le> 255" "0 \<le> c" "c \<le> 255" "0 \<le> d" "d \<le> 255"
    "0 \<le> e" "e \<le> 255" "0 \<le> f" "f \<le> 255" "0 \<le> g" "g \<le> 255" "0 \<le> h" "h \<le> 255"
  shows "0 \<le> ((((((a * 256 + b) * 256 + c) * 256 + d) * 256 + e) * 256 + f) * 256 + g) * 256 + h"
    "((((((a * 256 + b) * 256 + c) * 256 + d) * 256 + e) * 256 + f) * 256 + g) * 256 + h < 2 ^ 63"
  using assms by simp_all

lemma offtin_range: "int64_range (offtin buf)"
proof -
  have b: "0 \<le> uint b" "uint b \<le> 255" for b :: byte
    using unsigned_less [of b, where 'a = int] by simp_all
  have m: "0 \<le> uint b mod 128" "uint b mod 128 \<le> 127" for b :: byte by simp_all
  have r: "int64_range (if c then - y else y)" if "0 \<le> y" "y < 2 ^ 63" for c y
    using that by (simp add: int64_range_def)
  show ?thesis
    unfolding offtin_def Let_def uint_and_0x7f
    by (rule r; rule eight_digits_range; rule b m)
qed

interpretation offset: codec offtout "\<lambda>b. if length b = 8 then Some (offtin b) else None"
  "\<lambda>x. \<bar>x\<bar> < 2 ^ 63"
  by unfold_locales (simp add: offtin_offtout)


subsection \<open>The decoder\<close>

text \<open>A reader: the bytes still to come and the error after them (\<open>eof\<close> or another).\<close>

type_synonym zreader = "bytes \<times> goerr"

definition eof :: goerr where
  "eof = NewErr ''EOF''"

definition zreadall :: "zreader \<Rightarrow> int \<Rightarrow> bytes \<times> goerr option \<times> zreader" where
  "zreadall r expected =
     (case r of (rest, e) \<Rightarrow>
        if expected \<le> int (length rest)
        then (take (nat expected) rest, None, (drop (nat expected) rest, e))
        else (rest, Some e, ([], e)))"

definition bad_err :: "goerr option \<Rightarrow> bool" where
  "bad_err err \<longleftrightarrow> (case err of None \<Rightarrow> False | Some e \<Rightarrow> e \<noteq> eof)"

definition err0 :: "goerr option \<Rightarrow> string" where
  "err0 err = (case err of None \<Rightarrow> [] | Some e \<Rightarrow> err_text e)"

definition read_offset :: "zreader \<Rightarrow> (int \<times> zreader) res" where
  "read_offset c =
     (case zreadall c 8 of (buf, err, c') \<Rightarrow>
        if length buf \<noteq> 8 \<or> bad_err err
        then Inl (NewErr (''corrupt patch or bzstream ended: '' @ err0 err @
                    '' (read: '' @ itoa (int (length buf)) @ ''/8)''))
        else Inr (offtin buf, c'))"

definition read_ctrl :: "zreader \<Rightarrow> ((int \<times> int \<times> int) \<times> zreader) res" where
  "read_ctrl c =
     (case read_offset c of
        Inl e \<Rightarrow> Inl e
      | Inr (x, c1) \<Rightarrow> (case read_offset c1 of
          Inl e \<Rightarrow> Inl e
        | Inr (y, c2) \<Rightarrow> (case read_offset c2 of
            Inl e \<Rightarrow> Inl e
          | Inr (z, c3) \<Rightarrow> Inr ((x, y, z), c3))))"

text \<open>\<^verbatim>\<open>pnew[newpos+i] += oldfile[oldpos+i]\<close> where that is inside the old file.\<close>

definition add_old :: "bytes \<Rightarrow> int \<Rightarrow> bytes \<Rightarrow> bytes" where
  "add_old old oldpos ds = map (\<lambda>i.
     let k = wrap64 (oldpos + int i) in
     if 0 \<le> k \<and> k < int (length old) then ds ! i + old ! nat k else ds ! i) [0..<length ds]"

definition slice_panic :: goerr where
  "slice_panic = Panicked ''runtime error: slice bounds out of range''"

text \<open>
  Reading \<open>n\<close> bytes into \<^verbatim>\<open>pnew[newpos:newpos+n]\<close>, with the sanity check before: the error
  texts are \<open>chk\<close> and \<open>ended\<close>.
\<close>

definition read_into :: "int \<Rightarrow> int \<Rightarrow> int \<Rightarrow> string \<Rightarrow> string \<Rightarrow> zreader \<Rightarrow> (bytes \<times> zreader) res" where
  "read_into newsize newpos n chk ended r =
     (let hi = wrap64 (newpos + n) in
      if hi > newsize then Inl (NewErr chk)
      else if hi < newpos then Inl slice_panic
      else (case zreadall r n of (buf, err, r') \<Rightarrow>
        if int (length buf) < n \<or> bad_err err then Inl (NewErr (ended @ err0 err)) else Inr (buf, r')))"

lemma read_offset_shorter: "read_offset c = Inr (x, c') \<Longrightarrow> length (fst c) = length (fst c') + 8"
  by (cases c) (auto simp: read_offset_def zreadall_def split: if_splits)

lemma read_ctrl_shorter: "read_ctrl c = Inr (t, c') \<Longrightarrow> length (fst c') < length (fst c)"
  by (auto simp: read_ctrl_def split: sum.splits dest!: read_offset_shorter)

function patch_loop ::
  "bytes \<Rightarrow> int \<Rightarrow> zreader \<Rightarrow> zreader \<Rightarrow> zreader \<Rightarrow> bytes \<Rightarrow> int \<Rightarrow> bytes res"
where
  "patch_loop old newsize c d e pnew oldpos =
     (if int (length pnew) < newsize then
        (case read_ctrl c of
           Inl er \<Rightarrow> Inl er
         | Inr ((x, y, z), c') \<Rightarrow>
             (case read_into newsize (int (length pnew)) x
                     ''corrupt patch (sanity check)'' ''corrupt patch or bzstream ended (2): '' d of
                Inl er \<Rightarrow> Inl er
              | Inr (ds, d') \<Rightarrow>
                  let pnew' = pnew @ add_old old oldpos ds; oldpos' = wrap64 (oldpos + x) in
                  (case read_into newsize (int (length pnew')) y
                          ''corrupt patch newpos+ctrl[1] newsize'' ''corrupt patch or bzstream ended (3): '' e of
                     Inl er \<Rightarrow> Inl er
                   | Inr (es, e') \<Rightarrow>
                       patch_loop old newsize c' d' e' (pnew' @ es) (wrap64 (oldpos' + z)))))
      else Inr pnew)"
  by pat_completeness auto
termination
  by (relation "measure (\<lambda>(old, n, c, d, e, p, q). length (fst c))") (auto dest: read_ctrl_shorter)

declare patch_loop.simps [simp del]

definition magic :: bytes where
  "magic = bytes_of ''BSDIFF40''"

definition seek_err :: goerr where
  "seek_err = NewErr ''bytes.Reader.Seek: negative position''"

text \<open>
  \<^verbatim>\<open>make([]byte, n)\<close> panics above the largest allocation of the run-time system (\<open>max_alloc\<close>, on
  64-bit machines). The three readers have not failed when the loop ends well (a reader that
  falls short ends the loop with an error), so closing them reports nothing.
\<close>

definition max_alloc :: int where
  "max_alloc = 2 ^ 48"

definition patchb :: "(bytes \<Rightarrow> bytes \<times> goerr) \<Rightarrow> bytes \<Rightarrow> bytes \<Rightarrow> bytes res" where
  "patchb bz oldfile patch =
     (if patch = [] then Inl (NewErr ''corrupt patch EOF'')
      else if length patch < 32
      then Inl (NewErr (''corrupt patch (n '' @ itoa (int (length patch)) @ '' < 32)''))
      else if take 8 patch \<noteq> magic then Inl (NewErr ''corrupt patch (header BSDIFF40)'')
      else
        let bzctrllen = offtin (drop 8 patch); bzdatalen = offtin (drop 16 patch);
            newsize = offtin (drop 24 patch);
            dpos = wrap64 (32 + bzctrllen); epos = wrap64 (dpos + bzdatalen) in
        if bzctrllen < 0 \<or> bzdatalen < 0 \<or> newsize < 0
        then Inl (NewErr (''corrupt patch (bzctrllen '' @ itoa bzctrllen @ '' bzdatalen '' @ itoa bzdatalen @
               '' newsize '' @ itoa newsize @ '')''))
        else if dpos < 0 then Inl seek_err
        else if epos < 0 then Inl seek_err
        else if newsize > max_alloc then Inl (Panicked ''runtime error: makeslice: len out of range'')
        else patch_loop oldfile newsize (bz (drop 32 patch)) (bz (drop (nat dpos) patch))
               (bz (drop (nat epos) patch)) [] 0)"


subsection \<open>What the decoder computes\<close>

text \<open>
  The result a sequence of control triples describes, without streams, checks or wrapping:
  "add \<open>x\<close> bytes of the old file to \<open>x\<close> bytes of the diff block, copy \<open>y\<close> bytes of the extra
  block, move \<open>z\<close> bytes on in the old file".
\<close>

definition add_plain :: "bytes \<Rightarrow> int \<Rightarrow> bytes \<Rightarrow> bytes" where
  "add_plain old p ds = map (\<lambda>i.
     if 0 \<le> p + int i \<and> p + int i < int (length old) then ds ! i + old ! nat (p + int i) else ds ! i)
     [0..<length ds]"

fun assemble :: "bytes \<Rightarrow> (int \<times> int \<times> int) list \<Rightarrow> bytes \<Rightarrow> bytes \<Rightarrow> int \<Rightarrow> bytes" where
  "assemble old [] d e p = []"
| "assemble old ((x, y, z) # cs) d e p =
     add_plain old p (take (nat x) d) @ take (nat y) e @
     assemble old cs (drop (nat x) d) (drop (nat y) e) (p + x + z)"

text \<open>Triples that fit the streams, make a file of size \<open>n\<close>, and only the last of which ends it.\<close>

fun ctrl_fits :: "(int \<times> int \<times> int) list \<Rightarrow> nat \<Rightarrow> nat \<Rightarrow> int \<Rightarrow> int \<Rightarrow> bool" where
  "ctrl_fits [] nd ne n p \<longleftrightarrow> n = 0"
| "ctrl_fits ((x, y, z) # cs) nd ne n p \<longleftrightarrow>
     0 < n \<and> 0 \<le> x \<and> x \<le> int nd \<and> 0 \<le> y \<and> y \<le> int ne \<and> x + y \<le> n \<and> \<bar>z\<bar> < 2 ^ 63 \<and>
     \<bar>p\<bar> < 2 ^ 61 \<and> \<bar>p + x + z\<bar> < 2 ^ 61 \<and>
     ctrl_fits cs (nd - nat x) (ne - nat y) (n - x - y) (p + x + z)"

definition enc_ctrl :: "(int \<times> int \<times> int) list \<Rightarrow> bytes" where
  "enc_ctrl cs = concat (map (\<lambda>(x, y, z). offtout x @ offtout y @ offtout z) cs)"

lemma length_add_old [simp]: "length (add_old old p ds) = length ds"
  by (simp add: add_old_def)

lemma length_add_plain [simp]: "length (add_plain old p ds) = length ds"
  by (simp add: add_plain_def)

lemma add_old_plain:
  assumes "\<bar>p\<bar> < 2 ^ 61" and "int (length ds) \<le> 2 ^ 48"
  shows "add_old old p ds = add_plain old p ds"
proof -
  have "wrap64 (p + int i) = p + int i" if "i < length ds" for i
    using assms that by (intro wrap64_id) (auto simp: int64_range_def)
  then show ?thesis by (simp add: add_old_def add_plain_def Let_def)
qed

lemma read_offset_enc:
  "\<bar>x\<bar> < 2 ^ 63 \<Longrightarrow> read_offset (offtout x @ r, er) = Inr (x, (r, er))"
  by (simp add: read_offset_def zreadall_def bad_err_def offtin_offtout)

lemma read_ctrl_enc:
  "\<bar>x\<bar> < 2 ^ 63 \<Longrightarrow> \<bar>y\<bar> < 2 ^ 63 \<Longrightarrow> \<bar>z\<bar> < 2 ^ 63 \<Longrightarrow>
   read_ctrl (offtout x @ offtout y @ offtout z @ r, er) = Inr ((x, y, z), (r, er))"
  by (simp add: read_ctrl_def read_offset_enc)

lemma read_into_fits:
  assumes "0 \<le> n" and "n \<le> int (length d)" and "0 \<le> newpos" and "newpos + n \<le> newsize"
    and "newsize \<le> 2 ^ 48"
  shows "read_into newsize newpos n chk ended (d, er) = Inr (take (nat n) d, (drop (nat n) d, er))"
  using assms by (simp add: read_into_def Let_def wrap64_id int64_range_def zreadall_def bad_err_def)

lemma patch_loop_assemble:
  assumes "ctrl_fits cs (length d) (length e) (newsize - int (length pnew)) p"
    and "newsize \<le> 2 ^ 48"
  shows "patch_loop old newsize (enc_ctrl cs @ r, e1) (d, e2) (e, e3) pnew p =
    Inr (pnew @ assemble old cs d e p)"
  using assms
proof (induction cs arbitrary: d e pnew p)
  case Nil
  then show ?case by (simp add: patch_loop.simps)
next
  case (Cons t cs)
  obtain x y z where t: "t = (x, y, z)" by (cases t)
  have f: "int (length pnew) < newsize" "0 \<le> x" "x \<le> int (length d)" "0 \<le> y" "y \<le> int (length e)"
    "int (length pnew) + x + y \<le> newsize" "\<bar>z\<bar> < 2 ^ 63" "\<bar>p\<bar> < 2 ^ 61" "\<bar>p + x + z\<bar> < 2 ^ 61"
    and rest: "ctrl_fits cs (length d - nat x) (length e - nat y) (newsize - int (length pnew) - x - y) (p + x + z)"
    using Cons.prems(1) by (simp_all add: t)
  have ctrl: "read_ctrl (enc_ctrl (t # cs) @ r, e1) = Inr ((x, y, z), (enc_ctrl cs @ r, e1))"
    using f Cons.prems(2) by (simp add: enc_ctrl_def t read_ctrl_enc)
  have add: "add_old old p (take (nat x) d) = add_plain old p (take (nat x) d)"
    using f Cons.prems(2) by (intro add_old_plain) simp_all
  have wraps: "wrap64 (wrap64 (p + x) + z) = p + x + z"
    unfolding wrap64_add by (rule wrap64_id) (use f in \<open>auto simp: int64_range_def\<close>)
  have len: "length (take (nat x) d) = nat x" "length (take (nat y) e) = nat y"
    using f by simp_all
  have "ctrl_fits cs (length (drop (nat x) d)) (length (drop (nat y) e))
      (newsize - int (length (pnew @ add_plain old p (take (nat x) d) @ take (nat y) e))) (p + x + z)"
    using rest len f(2,4) by (simp add: algebra_simps del: length_take)
  from Cons.IH [OF this Cons.prems(2)] show ?case
    using f Cons.prems(2)
    by (subst patch_loop.simps)
      (simp add: t [symmetric] ctrl, simp add: t Let_def add wraps read_into_fits)
qed


lemma read_ctrl_negative:
  assumes "\<bar>x\<bar> < 2 ^ 63" and "16 \<le> length r"
  shows "\<exists>y z r'. read_ctrl (offtout x @ r, er) = Inr ((x, y, z), r')"
proof -
  have "read_ctrl (offtout x @ r, er) =
      Inr ((x, offtin (take 8 r), offtin (take 8 (drop 8 r))), (drop 16 r, er))"
    using assms by (simp add: read_ctrl_def read_offset_enc) (simp add: read_offset_def zreadall_def bad_err_def)
  then show ?thesis by blast
qed

text \<open>A patch file: its three blocks after the header that describes them.\<close>

definition patch_file :: "int \<Rightarrow> bytes \<Rightarrow> bytes \<Rightarrow> bytes \<Rightarrow> bytes" where
  "patch_file newsize c d e =
     magic @ offtout (int (length c)) @ offtout (int (length d)) @ offtout newsize @ c @ d @ e"

lemma patchb_patch_file:
  assumes "0 \<le> newsize" and "newsize \<le> max_alloc"
    and "int (length c) < 2 ^ 61" and "int (length d) < 2 ^ 61"
  shows "patchb bz old (patch_file newsize c d e) =
    patch_loop old newsize (bz (c @ d @ e)) (bz (d @ e)) (bz e) [] 0"
proof -
  have off: "offtin (offtout x @ r) = offtin (offtout x)" for x r
    by (simp add: offtin_def nth_append)
  have l8: "length magic = 8" and nn: "magic \<noteq> []" by (simp_all add: magic_def bytes_of_def)
  let ?p = "patch_file newsize c d e"
  have h: "take 8 ?p = magic" "offtin (drop 8 ?p) = int (length c)" "offtin (drop 16 ?p) = int (length d)"
    "offtin (drop 24 ?p) = newsize" "drop 32 ?p = c @ d @ e" "?p \<noteq> []" "\<not> length ?p < 32"
    using assms by (simp_all add: patch_file_def l8 nn off offtin_offtout max_alloc_def)
  have w: "wrap64 (32 + int (length c)) = 32 + int (length c)"
    "wrap64 (32 + int (length c) + int (length d)) = 32 + int (length c) + int (length d)"
    using assms by (simp_all add: wrap64_id int64_range_def)
  have dr: "drop (nat (32 + int (length c))) ?p = d @ e"
    "drop (nat (32 + int (length c) + int (length d))) ?p = e"
    using l8 by (simp_all add: patch_file_def nat_add_distrib)
  show ?thesis
    using assms by (simp add: patchb_def h Let_def w dr)
qed

text \<open>\<open>C28\<close>. The decoder computes what the control triples describe: when the control block decodes
  to triples that fit the diff and extra blocks and the size in the header, the result is the
  assembly of the new file from the old one, and no check fails.\<close>

theorem patchb_assembles:
  assumes "0 \<le> newsize" and "newsize \<le> max_alloc"
    and "int (length c) < 2 ^ 61" and "int (length d) < 2 ^ 61"
    and "bz (c @ d @ e) = (enc_ctrl cs @ r, e1)" and "bz (d @ e) = (ds, e2)" and "bz e = (es, e3)"
    and "ctrl_fits cs (length ds) (length es) newsize 0"
  shows "patchb bz old (patch_file newsize c d e) = Inr (assemble old cs ds es 0)"
  using patch_loop_assemble [of cs ds es newsize "[]" 0 old r e1 e2 e3] assms
  by (simp add: patchb_patch_file max_alloc_def)

lemma sample_bunzip2: "length x < 256 \<Longrightarrow> sample_bunzip2 (sample_bzip2 x @ r) = (x, eof)"
  by (simp add: sample_bunzip2_def sample_bzip2_def eof_def unat_of_nat)

theorem patchb_assembles_witness:
  "patchb sample_bunzip2 [10, 20, 30]
     (patch_file 5 (sample_bzip2 (enc_ctrl [(3, 2, 0)])) (sample_bzip2 [1, 0, 1]) (sample_bzip2 [7, 8])) =
   Inr [11, 20, 31, 7, 8]"
proof -
  let ?c = "sample_bzip2 (enc_ctrl [(3, 2, 0)])" and ?d = "sample_bzip2 [1, 0, 1]" and ?e = "sample_bzip2 [7, 8]"
  have l: "length (enc_ctrl [(3, 2, 0)]) = 24" by (simp add: enc_ctrl_def)
  then have lc: "length ?c = 25" "length ?d = 4" by (simp_all add: sample_bzip2_def)
  have fits: "ctrl_fits [(3, 2, 0)] (length [1 :: byte, 0, 1]) (length [7 :: byte, 8]) 5 0" by simp
  have "patchb sample_bunzip2 [10, 20, 30] (patch_file 5 ?c ?d ?e) =
      Inr (assemble [10, 20, 30] [(3, 2, 0)] [1, 0, 1] [7, 8] 0)"
  proof (rule patchb_assembles [OF _ _ _ _ _ _ _ fits])
    show "sample_bunzip2 (?c @ ?d @ ?e) = (enc_ctrl [(3, 2, 0)] @ [], eof)"
      using sample_bunzip2 [of "enc_ctrl [(3, 2, 0)]" "?d @ ?e"] l by simp
    show "sample_bunzip2 (?d @ ?e) = ([1, 0, 1], eof)" "sample_bunzip2 ?e = ([7, 8], eof)"
      using sample_bunzip2 [of "[1, 0, 1]" ?e] sample_bunzip2 [of "[7, 8]" "[]"] by simp_all
  qed (simp_all add: lc max_alloc_def)
  also have "assemble [10, 20, 30] [(3, 2, 0)] [1, 0, 1] [7, 8] 0 = [11, 20, 31, 7, 8]" by code_simp
  finally show ?thesis .
qed

lemma read_into_ok:
  assumes "read_into n k x chk ended r = Inr (b, r')" and "0 \<le> k" and "k \<le> n" and "int64_range x"
    and "n < 2 ^ 63"
  shows "0 \<le> x" and "int (length b) = x" and "k + x \<le> n"
proof -
  have h: "wrap64 (k + x) \<le> n" "k \<le> wrap64 (k + x)"
    and b: "x \<le> int (length (fst r))" "b = take (nat x) (fst r)"
    using assms(1) by (auto simp: read_into_def zreadall_def Let_def split: if_splits prod.splits)
  have "0 \<le> x \<and> k + x \<le> n"
  proof (cases "k + x < 2 ^ 63")
    case True
    then have "wrap64 (k + x) = k + x"
      using assms by (intro wrap64_id) (auto simp: int64_range_def)
    with h show ?thesis by simp
  next
    case False
    then have "wrap64 (k + x) = k + x - 2 ^ 64"
      using assms mod_pos_pos_trivial [of "k + x + 2 ^ 63 - 2 ^ 64" "2 ^ 64"]
      by (simp add: wrap64_def int64_range_def mod_if)
        (smt (verit) minus_mod_self2 mod_pos_pos_trivial)
    with h assms show ?thesis by (auto simp: int64_range_def)
  qed
  then show "0 \<le> x" "k + x \<le> n" by simp_all
  with b show "int (length b) = x" by simp
qed

lemma read_ctrl_range: "read_ctrl c = Inr ((x, y, z), c') \<Longrightarrow> int64_range x \<and> int64_range y \<and> int64_range z"
  by (auto simp: read_ctrl_def read_offset_def offtin_range split: sum.splits prod.splits if_splits)

lemma patch_loop_length:
  "patch_loop old n c d e pnew p = Inr new \<Longrightarrow> int (length pnew) \<le> n \<Longrightarrow> n < 2 ^ 63 \<Longrightarrow>
   int (length new) = n"
proof (induction old n c d e pnew p rule: patch_loop.induct)
  case (1 old n c d e pnew p)
  show ?case
  proof (cases "int (length pnew) < n")
    case False
    with 1 show ?thesis by (simp add: patch_loop.simps)
  next
    case True
    from 1(2) True obtain x y z c' where c: "read_ctrl c = Inr ((x, y, z), c')"
      by (subst (asm) patch_loop.simps) (auto split: sum.splits)
    from 1(2) True c obtain ds d' where d: "read_into n (int (length pnew)) x
        ''corrupt patch (sanity check)'' ''corrupt patch or bzstream ended (2): '' d = Inr (ds, d')"
      by (subst (asm) patch_loop.simps) (auto split: sum.splits)
    let ?p' = "pnew @ add_old old p ds" and ?o' = "wrap64 (p + x)"
    from 1(2) True c d obtain es e' where e: "read_into n (int (length ?p')) y
        ''corrupt patch newpos+ctrl[1] newsize'' ''corrupt patch or bzstream ended (3): '' e = Inr (es, e')"
      by (subst (asm) patch_loop.simps) (auto simp: Let_def split: sum.splits)
    have run: "patch_loop old n c' d' e' (?p' @ es) (wrap64 (?o' + z)) = Inr new"
      using 1(2) True c d e by (subst (asm) patch_loop.simps) (simp add: Let_def)
    have r: "int64_range x" "int64_range y" using read_ctrl_range [OF c] by simp_all
    have ds: "0 \<le> x" "int (length ds) = x" "int (length pnew) + x \<le> n"
      using read_into_ok [OF d] 1(3,4) r by simp_all
    then have es: "int (length es) = y" "int (length ?p') + y \<le> n"
      using read_into_ok [OF e] 1(4) r by simp_all
    then have le: "int (length (?p' @ es)) \<le> n" by simp
    show ?thesis
      by (rule 1(1) [OF True c refl refl refl d refl refl refl e refl run le 1(4)])
  qed
qed


text \<open>A patch that is accepted makes a file of exactly the size its header announces, which
  is not negative, whatever the streams hold.\<close>

theorem patchb_size:
  assumes "patchb bz old p = Inr new"
  shows "take 8 p = magic \<and> 0 \<le> offtin (drop 24 p) \<and> int (length new) = offtin (drop 24 p)"
proof -
  have n: "take 8 p = magic" "0 \<le> offtin (drop 24 p)" "offtin (drop 24 p) < 2 ^ 63"
    and run: "\<exists>i j k. patch_loop old (offtin (drop 24 p)) (bz (drop i p)) (bz (drop j p)) (bz (drop k p)) [] 0 =
      Inr new"
    using assms by (auto simp: patchb_def Let_def max_alloc_def split: if_splits)
  from run obtain c d e where "patch_loop old (offtin (drop 24 p)) c d e [] 0 = Inr new" by blast
  from patch_loop_length [OF this] n show ?thesis by simp
qed

theorem patchb_size_witness:
  "length (case patchb sample_bunzip2 [10, 20, 30]
     (patch_file 5 (sample_bzip2 (enc_ctrl [(3, 2, 0)])) (sample_bzip2 [1, 0, 1]) (sample_bzip2 [7, 8])) of
       Inr new \<Rightarrow> new | Inl _ \<Rightarrow> []) = 5"
proof -
  let ?p = "patch_file 5 (sample_bzip2 (enc_ctrl [(3, 2, 0)])) (sample_bzip2 [1, 0, 1]) (sample_bzip2 [7, 8])"
  have r: "patchb sample_bunzip2 [10, 20, 30] ?p = Inr [11, 20, 31, 7, 8]" by code_simp
  have "offtin (drop 24 ?p) = 5" by code_simp
  with patchb_size [OF r] r show ?thesis by simp
qed

text \<open>\<open>C31\<close>. A patch whose first control triple has a negative length passes the sanity check and
  then panics on a slice expression: the decoder neither fails nor returns.\<close>

theorem negative_length_panics:
  assumes "0 < newsize" and "newsize \<le> max_alloc"
    and "int (length c) < 2 ^ 61" and "int (length d) < 2 ^ 61"
    and "bz (c @ d @ e) = (offtout x @ r, e1)" and "16 \<le> length r"
    and "x < 0" and "- (2 ^ 63) < x"
  shows "\<exists>er. patchb bz old (patch_file newsize c d e) = Inl er \<and> is_panic er"
proof -
  obtain y z r' where ctrl: "read_ctrl (offtout x @ r, e1) = Inr ((x, y, z), r')"
    using read_ctrl_negative [of x r e1] assms by auto
  have "read_into newsize 0 x chk ended s = Inl slice_panic" for chk ended s
    using assms by (simp add: read_into_def Let_def wrap64_id int64_range_def)
  then have "patchb bz old (patch_file newsize c d e) = Inl slice_panic"
    using assms by (simp add: patchb_patch_file, subst patch_loop.simps) (simp add: ctrl)
  then show ?thesis by (simp add: slice_panic_def)
qed

theorem negative_length_panics_witness:
  "\<exists>er. patchb sample_bunzip2 [1, 2] (patch_file 1 (sample_bzip2 (enc_ctrl [(-1, 0, 0)])) [] []) = Inl er \<and> is_panic er"
proof -
  have l: "length (enc_ctrl [(-1, 0, 0)]) = 24" by (simp add: enc_ctrl_def)
  have "sample_bunzip2 (sample_bzip2 (enc_ctrl [(-1, 0, 0)]) @ [] @ []) =
      (offtout (-1) @ (offtout 0 @ offtout 0), eof)"
    using sample_bunzip2 [of "enc_ctrl [(-1, 0, 0)]" "[]"] l by (simp add: enc_ctrl_def)
  then show ?thesis
    by (rule negative_length_panics [rotated 4]) (simp_all add: sample_bzip2_def l max_alloc_def)
qed

end
