(* ===== verification/Patch.thy ===== *)
theory Patch
  imports Bspatch Hashed_File
begin

section \<open>client/internal/patch: applying a patch file\<close>

text \<open>
  Models \<^verbatim>\<open>client/internal/patch/patch.go\<close>: \<open>Apply\<close> reads the old blob and the patch, decodes
  in memory, checks the SHA-256 of the result and only then writes it, through a \<^verbatim>\<open>.part\<close> file.
  It meets the contract of \<open>hashed_file\<close>.
\<close>

definition Bytes :: "env \<Rightarrow> bytes \<Rightarrow> bytes \<Rightarrow> bytes res" where
  "Bytes env oldfile patch = patchb (e_bunzip2 env) oldfile patch"

text \<open>The end of \<open>Apply\<close>: the result goes to the destination through its \<^verbatim>\<open>.part\<close> file.\<close>

definition write_result :: "env \<Rightarrow> string \<Rightarrow> bytes \<Rightarrow> int res act" where
  "write_result env dstPath out =
     (let tmp = dstPath @ ''.part'' in
      attempt_as ''patch: write'' (os_write_file env tmp out 420) (\<lambda>_. do {
        r \<leftarrow> os_rename env tmp dstPath;
        case r of
          Inl e \<Rightarrow> do { _ \<leftarrow> os_remove env tmp; fail (WrapErr ''patch: rename'' e) }
        | Inr _ \<Rightarrow> ok (int (length out)) }))"

definition Apply :: "env \<Rightarrow> string \<Rightarrow> string \<Rightarrow> string \<Rightarrow> string \<Rightarrow> string \<Rightarrow> int res act" where
  "Apply env oldBlobPath patchPath dstPath expectedSHA256 patcher =
     (if patcher \<noteq> ''bsdiff''
      then fail (NewErr (''patch: unsupported patcher '' @ quoted patcher @
             '' (only bsdiff in v1)''))
      else attempt_as ''patch: read old'' (os_read_file env oldBlobPath) (\<lambda>old.
        attempt_as ''patch: read patch'' (os_read_file env patchPath) (\<lambda>pt.
          case Bytes env old pt of
            Inl e \<Rightarrow> fail (WrapErr ''patch: bspatch'' e)
          | Inr out \<Rightarrow>
              if hex_encode (e_sha256 env out) \<noteq> expectedSHA256
              then fail (NewErr (''patch: result sha mismatch (want '' @ expectedSHA256 @ '')''))
              else write_result env dstPath out)))"

lemma keeps_write_result [keeps_intros]:
  "at env dst \<in> L \<Longrightarrow> at env (dst @ ''.part'') \<in> L \<Longrightarrow> keeps (frame L) (write_result env dst out)"
  unfolding write_result_def Let_def by (intro keeps_intros; assumption)

lemma keeps_Apply [keeps_intros]:
  "at env dst \<in> L \<Longrightarrow> at env (dst @ ''.part'') \<in> L \<Longrightarrow> keeps (frame L) (Apply env old p dst sha patcher)"
  unfolding Apply_def by (intro keeps_intros; assumption)

text \<open>What a finished call did: the file at the destination is the decoded patch.\<close>

definition applied :: "env \<Rightarrow> string \<Rightarrow> string \<Rightarrow> string \<Rightarrow> string \<Rightarrow> world \<Rightarrow> int res \<Rightarrow> world \<Rightarrow> bool" where
  "applied env old p dst sha w r w' \<longleftrightarrow>
     (case r of
        Inl _ \<Rightarrow> look w' (at env dst) = look w (at env dst)
      | Inr n \<Rightarrow> \<exists>m1 o1 m2 p1 m out.
          look w (at env old) = Some (FileNode m1 o1) \<and> look w (at env p) = Some (FileNode m2 p1) \<and>
          Bytes env o1 p1 = Inr out \<and> hex_encode (e_sha256 env out) = sha \<and> n = int (length out) \<and>
          look w' (at env dst) = Some (FileNode m out))"

lemma wp_write_result:
  assumes "named dst"
  shows "wp (write_result env dst out) (\<lambda>r w'. case r of
      Inl _ \<Rightarrow> look w' (at env dst) = look w (at env dst)
    | Inr n \<Rightarrow> n = int (length out) \<and> (\<exists>m. look w' (at env dst) = Some (FileNode m out))) w"
  unfolding write_result_def Let_def
proof (rule wp_attempt_asI [OF wp_os_write_file], goal_cases)
  let ?tmp = "dst @ ''.part''"
  have ne: "at env ?tmp \<noteq> at env dst" using assms by (simp add: loc_of_suffix_eq_self)
  {
    case (1 e w1)
    then show ?case using ne by (simp add: frame_def)
  next
    case (2 u w1)
    then obtain m where t: "look w1 (at env ?tmp) = Some (FileNode m out)"
      and d: "look w1 (at env dst) = look w (at env dst)" using ne by (auto simp: frame_def)
    show ?case
    proof (rule wp_bindI [OF wp_os_rename], goal_cases)
      case (1 r w2)
      show ?case
      proof (cases r)
        case (Inl e)
        with 1 d have "look w2 (at env dst) = look w (at env dst)" by (simp add: same_files_look [of w1 w2])
        then show ?thesis
          unfolding Inl sum.case
          by (intro wp_bindI [OF wp_os_remove]) (use ne in \<open>auto simp: wp_fail frame_def\<close>)
      next
        case (Inr v)
        with 1 t show ?thesis by (simp add: wp_ok)
      qed
    qed
  }
qed

lemma wp_Apply:
  assumes "named dst"
  shows "wp (Apply env old p dst sha patcher) (applied env old p dst sha w) w"
proof (cases "patcher = ''bsdiff''")
  case False
  then show ?thesis by (simp add: Apply_def wp_fail applied_def)
next
  case True
  have final: "wp (case Bytes env o1 p1 of
        Inl e \<Rightarrow> fail (WrapErr ''patch: bspatch'' e)
      | Inr out \<Rightarrow>
          if hex_encode (e_sha256 env out) \<noteq> sha
          then fail (NewErr (''patch: result sha mismatch (want '' @ sha @ '')''))
          else write_result env dst out) (applied env old p dst sha w) w2"
    if s: "same_files w w2" and f: "look w (at env old) = Some (FileNode m1 o1)"
      "look w (at env p) = Some (FileNode m2 p1)" for o1 p1 m1 m2 w2
  proof (cases "Bytes env o1 p1")
    case (Inl e)
    then show ?thesis using s by (simp add: wp_fail applied_def same_files_look [of w w2])
  next
    case (Inr out)
    have "wp (write_result env dst out) (applied env old p dst sha w) w2"
      if "hex_encode (e_sha256 env out) = sha"
      by (rule wp_mono [OF wp_write_result [OF assms]])
        (use s f that Inr in \<open>auto simp: applied_def same_files_look [of w w2] split: sum.splits\<close>)
    with Inr s show ?thesis by (auto simp: wp_fail applied_def same_files_look [of w w2])
  qed
  show ?thesis
    unfolding Apply_def True
  proof (simp, rule wp_attempt_asI [OF wp_os_read_file], goal_cases)
    case (1 e w1)
    then show ?case by (simp add: applied_def same_files_look [of w w1])
  next
    case (2 o1 w1)
    then obtain m1 where o1: "look w (at env old) = Some (FileNode m1 o1)" and s1: "same_files w w1" by auto
    show ?case
    proof (rule wp_attempt_asI [OF wp_os_read_file], goal_cases)
      case (1 e w2)
      with s1 show ?case by (simp add: applied_def same_files_def look_def)
    next
      case (2 p1 w2)
      with s1 have s2: "same_files w w2" by (simp add: same_files_def)
      from 2 s1 obtain m2 where "look w (at env p) = Some (FileNode m2 p1)"
        by (auto simp: same_files_look [of w w1])
      from final [OF s2 o1 this] show ?case by simp
    qed
  qed
qed

interpretation patched: hashed_file "\<lambda>env sha dst. Apply env old p dst sha patcher" for old p patcher
proof unfold_locales
  fix env dst L sha w
  show "{at env dst, at env (dst @ ''.part'')} \<subseteq> L \<Longrightarrow> keeps (frame L) (Apply env old p dst sha patcher)"
    by (intro keeps_intros) auto
  show "named dst \<Longrightarrow> wp (Apply env old p dst sha patcher) (\<lambda>r w'.
      case r of Inl _ \<Rightarrow> look w' (at env dst) = look w (at env dst)
              | Inr _ \<Rightarrow> has_hash env w' (at env dst) sha) w"
    by (erule wp_mono [OF wp_Apply]) (auto simp: applied_def has_hash_def split: sum.splits)
qed

text \<open>\<open>C27\<close>. A patch that is applied puts at the destination exactly what the decoder makes of the two
  files as they were, a file with the expected SHA-256; after an error the destination is what
  it was. Only the destination and its \<^verbatim>\<open>.part\<close> file change.\<close>

theorem apply_verified:
  assumes "named dst" and "run_state (Apply env old p dst sha patcher) w = (r, w')"
  shows "frame {at env dst, at env (dst @ ''.part'')} w w' \<and> applied env old p dst sha w r w'"
  using wpD [OF patched.spec [OF assms(1)] assms(2)] wpD [OF wp_Apply [OF assms(1)] assms(2)] by simp

definition demo_patch :: bytes where
  "demo_patch = patch_file 5 (sample_bzip2 (enc_ctrl [(3, 2, 0)])) (sample_bzip2 [1, 0, 1]) (sample_bzip2 [7, 8])"

theorem apply_verified_witness:
  "let w = world_of [([''old''], FileNode 420 [10, 20, 30]), ([''p''], FileNode 420 demo_patch)];
       m = run_state (Apply calm ''/old'' ''/p'' ''/new'' (hex_encode (sample_hash [11, 20, 31, 7, 8])) ''bsdiff'') w
   in fst m = Inr 5 \<and> has_hash calm (snd m) [''new''] (hex_encode (sample_hash [11, 20, 31, 7, 8]))"
proof -
  let ?w = "world_of [([''old''], FileNode 420 [10, 20, 30]), ([''p''], FileNode 420 demo_patch)]"
  let ?sha = "hex_encode (sample_hash [11, 20, 31, 7, 8])"
  let ?m = "run_state (Apply calm ''/old'' ''/p'' ''/new'' ?sha ''bsdiff'') ?w"
  have run: "?m = (fst ?m, snd ?m)" by simp
  have f: "fst ?m = Inr 5" by code_simp
  have n: "named ''/new''" and l: "at calm ''/new'' = [''new'']" by code_simp+
  show ?thesis
    using apply_verified [OF n run] f l by (auto simp: applied_def has_hash_def Let_def)
qed

end
