(* ===== verification/Tarx.thy ===== *)
theory Tarx
  imports Samples
begin

unbundle bit_operations_syntax

section \<open>client/internal/tarx: the archive extractor\<close>

text \<open>
  Models \<^verbatim>\<open>client/internal/tarx/tarx.go\<close>. The tar reader of the standard library is \<open>e_untar\<close>
  of the environment, any function from the bytes of an archive to the entries it delivers and
  the error it stops with; \<open>Extract\<close> is the loop over them. The lemmas: which names are
  accepted, that an accepted name names a location inside the destination, and so that no
  archive makes the extractor touch anything outside it.
\<close>

definition windowsReserved :: "string list" where
  "windowsReserved =
     [''CON'', ''PRN'', ''AUX'', ''NUL'',
      ''COM1'', ''COM2'', ''COM3'', ''COM4'', ''COM5'', ''COM6'', ''COM7'', ''COM8'', ''COM9'',
      ''LPT1'', ''LPT2'', ''LPT3'', ''LPT4'', ''LPT5'', ''LPT6'', ''LPT7'', ''LPT8'', ''LPT9'']"

fun reserved_part :: "string list \<Rightarrow> string option" where
  "reserved_part [] = None"
| "reserved_part (part # ps) =
     (let base = toUpper (trimSuffix part (Ext part)) in
      if base \<in> set windowsReserved then Some part else reserved_part ps)"

definition safeName :: "string \<Rightarrow> unit res" where
  "safeName name =
     (if name = [] then Inl (NewErr ''empty name'')
      else if hasPrefix name ''/'' then Inl (NewErr ''absolute path forbidden'')
      else if contains name [CHR 0x00] then Inl (NewErr ''NUL in name forbidden'')
      else
        let cleaned = Clean name in
        if cleaned = ''..'' \<or> hasPrefix cleaned ''../'' \<or> contains cleaned ''/../''
        then Inl (NewErr ''parent traversal forbidden'')
        else (case reserved_part (splitOn slash cleaned) of
          Some part \<Rightarrow> Inl (NewErr (''windows reserved name: '' @ part))
        | None \<Rightarrow> Inr ()))"

text \<open>\<^verbatim>\<open>io.Copy\<close> into the open file.\<close>

fun io_copy :: "env \<Rightarrow> string \<Rightarrow> bytes list \<Rightarrow> bool \<Rightarrow> unit res act" where
  "io_copy env out [] eof = (if eof then ok () else fail (NewErr ''unexpected EOF''))"
| "io_copy env out (b # bs) eof =
     (if b = [] then io_copy env out bs eof
      else attempt (os_append env out b) (\<lambda>_. io_copy env out bs eof))"

definition extract_file :: "env \<Rightarrow> string \<Rightarrow> nat \<Rightarrow> body \<Rightarrow> unit res act" where
  "extract_file env out mode bdy =
     attempt_as (''tarx: mkdir '' @ Dir out) (os_mkdir_all env (Dir out)) (\<lambda>_.
     attempt_as (''tarx: create '' @ out) (os_open_write env out True mode) (\<lambda>_. do {
       r \<leftarrow> (case bdy of Body cs eof \<Rightarrow> io_copy env out cs eof);
       c \<leftarrow> os_close env out;
       case r of
         Inl e \<Rightarrow> fail (WrapErr (''tarx: copy '' @ out) e)
       | Inr _ \<Rightarrow> (case c of Inl e \<Rightarrow> fail (WrapErr (''tarx: close '' @ out) e) | Inr _ \<Rightarrow> ok ()) }))"

definition extract_entry :: "env \<Rightarrow> string \<Rightarrow> tar_entry \<Rightarrow> unit res act" where
  "extract_entry env cleanRoot hdr =
     (if \<not> h_regular hdr then ok ()
      else (case safeName (h_name hdr) of
        Inl e \<Rightarrow> fail (WrapErr (''tarx: '' @ h_name hdr) e)
      | Inr _ \<Rightarrow>
          let out = Join [cleanRoot, h_name hdr] in
          (case Rel cleanRoot out of
             None \<Rightarrow> fail (NewErr (''tarx: '' @ h_name hdr @ '': escapes root''))
           | Some rel \<Rightarrow>
               if hasPrefix rel ''..''
               then fail (NewErr (''tarx: '' @ h_name hdr @ '': escapes root''))
               else
                 let mode0 = nat (h_mode hdr AND 511); mode = (if mode0 = 0 then 420 else mode0) in
                 extract_file env out mode (h_body hdr))))"

fun extract_all :: "env \<Rightarrow> string \<Rightarrow> tar_entry list \<Rightarrow> goerr option \<Rightarrow> unit res act" where
  "extract_all env cleanRoot [] err =
     (case err of None \<Rightarrow> ok () | Some e \<Rightarrow> fail (WrapErr ''tarx: read header'' e))"
| "extract_all env cleanRoot (hdr # hs) err =
     attempt (extract_entry env cleanRoot hdr) (\<lambda>_. extract_all env cleanRoot hs err)"

definition Extract :: "env \<Rightarrow> bytes \<Rightarrow> string \<Rightarrow> unit res act" where
  "Extract env src destRoot =
     (case Abs env destRoot of
        Inl e \<Rightarrow> fail (WrapErr ''tarx: abs root'' e)
      | Inr cleanRoot \<Rightarrow>
          (case e_untar env src of (hs, err) \<Rightarrow> extract_all env cleanRoot hs err))"


subsection \<open>An accepted name stays inside\<close>

lemma resolve_plain_comps:
  "\<forall>c \<in> set cs. c \<noteq> [] \<and> c \<noteq> ''.'' \<and> c \<noteq> ''..'' \<Longrightarrow> resolve l cs = l @ cs"
  by (induction cs arbitrary: l) (auto simp: rstep_def)

lemma path_comps_abs:
  assumes "IsAbs p"
  shows "path_comps p = loc_of cwd p"
proof -
  have st: "clean_stack True (rev (path_comps p))"
    using clean_stack_foldl [of True "[]" "splitOn slash p"] splitOn_no_sep assms
    by (auto simp: path_comps_def clean_comps_def)
  have "resolve [] (path_comps p) = path_comps p"
    using st by (subst resolve_plain_comps) (auto simp: clean_stack_def)
  moreover have "resolve [] (path_comps p) = loc_of cwd p"
    using resolve_clean_comps [of True "[]" p] assms by (simp add: path_comps_def loc_of_def)
  ultimately show ?thesis by simp
qed

lemma strip_common_split:
  "strip_common a b = (a', b') \<Longrightarrow> \<exists>c. a = c @ a' \<and> b = c @ b'"
proof (induction a b rule: strip_common.induct)
  case (1 a as b bs)
  then show ?case by (auto split: if_splits)
qed auto

lemma Rel_inside:
  assumes "IsAbs base" and "IsAbs p" and "Rel base p = Some rel" and "\<not> hasPrefix rel ''..''"
  shows "under (loc_of cwd base) (loc_of cwd p)"
proof -
  obtain b t where bt: "strip_common (path_comps base) (path_comps p) = (b, t)" by fastforce
  then obtain c where c: "path_comps base = c @ b" "path_comps p = c @ t"
    using strip_common_split by blast
  have "b = []"
  proof (rule ccontr)
    assume "b \<noteq> []"
    then obtain x b' where b: "b = x # b'" by (cases b) auto
    have "rel = joinWith slash (''..'' # map (\<lambda>_. ''..'') b' @ t)"
      using assms(1-3) bt b by (auto simp: Rel_def split: if_splits)
    then have "hasPrefix rel ''..''"
      by (cases "map (\<lambda>_. ''..'') b' @ t") auto
    with assms(4) show False by simp
  qed
  with c have "path_comps p = path_comps base @ t" by simp
  then show ?thesis
    using path_comps_abs [OF assms(1), of cwd] path_comps_abs [OF assms(2), of cwd] by simp
qed

lemma IsAbs_Abs: "Abs env p = Inr q \<Longrightarrow> IsAbs q"
  by (auto simp: Abs_def split: if_splits) (metis IsAbs_Clean IsAbs_def hasPrefix_Nil_left not_Cons_self2)

text \<open>What extraction may change: files under the root, and missing directories above it.\<close>

definition only_inside :: "loc \<Rightarrow> world \<Rightarrow> world \<Rightarrow> bool" where
  "only_inside R w w' \<longleftrightarrow> (\<forall>l. \<not> under R l \<longrightarrow>
     look w' l = look w l \<or> (look w l = None \<and> look w' l = Some DirNode \<and> under l R))"

interpretation oi: preorder_frame "only_inside R" for R
proof unfold_locales
  show "only_inside R s s" for s by (simp add: only_inside_def)
  show "only_inside R s t \<Longrightarrow> only_inside R t u \<Longrightarrow> only_inside R s u" for s t u
    unfolding only_inside_def by (metis option.distinct(1))
qed

lemma frame_only_inside: "frame {l. under R l} w w' \<Longrightarrow> only_inside R w w'"
  by (auto simp: only_inside_def frame_def)

lemma keeps_only_inside: "keeps (frame {l. under R l}) m \<Longrightarrow> keeps (only_inside R) m"
  by (erule keeps_mono) (rule frame_only_inside)

lemma path_comps_no_dots: "IsAbs p \<Longrightarrow> ''..'' \<notin> set (path_comps p)"
  using clean_stack_foldl [of True "[]" "splitOn slash p"] splitOn_no_sep
  by (auto simp: path_comps_def clean_comps_def clean_stack_def)

lemma loc_of_Dir:
  assumes "IsAbs p"
  shows "\<exists>n \<in> set (splitOn slash p). loc_of cwd p = rstep (loc_of cwd (Dir p)) n"
proof -
  have "slash \<in> set p" using assms by (cases p) (auto simp: IsAbs_def)
  then obtain q n where qn: "p = q @ slash # n" "slash \<notin> set n"
    using split_list_last by metis
  then have dir: "Dir p = Clean (q @ [slash])"
    by (simp add: Dir_def) (subst dropWhile_append2; auto)
  have "loc_of cwd (Dir p) = loc_of cwd (q @ [slash])"
    unfolding dir by (simp add: loc_of_Clean)
  moreover have "IsAbs (q @ [slash])"
    using assms qn by (cases q) (auto simp: IsAbs_def)
  ultimately show ?thesis
    using qn assms by (simp add: loc_of_def splitOn_append splitOn_id)
qed

lemma under_Dir:
  assumes "IsAbs p"
  shows "under (loc_of cwd (Dir (Clean p))) (loc_of cwd (Clean p))"
proof -
  have p: "p \<noteq> []" using assms by auto
  then have p2: "IsAbs (Clean p)" using assms by simp
  obtain n where n: "n \<in> set (splitOn slash (Clean p))"
    "loc_of cwd (Clean p) = rstep (loc_of cwd (Dir (Clean p))) n"
    using loc_of_Dir [OF p2] by blast
  have "n \<noteq> ''..''"
    using n(1) path_comps_no_dots [OF assms] assms
    by (auto simp: splitOn_Clean [OF p] Let_def split: if_splits)
  with n(2) show ?thesis by (simp add: rstep_def)
qed

lemma under_cases: "under a c \<Longrightarrow> under b c \<Longrightarrow> under a b \<or> under b a"
  by (auto simp: under_iff append_eq_append_conv2)

lemma under_trans: "under a b \<Longrightarrow> under b c \<Longrightarrow> under a c"
  by (auto simp: under_iff)

lemma in_prefixes_of: "k \<in> set (prefixes_of l) \<Longrightarrow> under k l"
  by (auto simp: set_prefixes_of under_def min_def)

subsection \<open>The frame of extraction\<close>

lemma mkdirs_adds_dirs:
  "node_at (snd (mkdirs flt ds t)) k = node_at t k \<or>
   (node_at t k = None \<and> node_at (snd (mkdirs flt ds t)) k = Some DirNode \<and> k \<in> set ds)"
proof (induction flt ds t rule: mkdirs.induct)
  case (2 flt d ds t)
  show ?case
  proof (cases "node_at t d")
    case None
    then have "d \<noteq> []" by auto
    with 2 None show ?thesis
      by (auto split: option.splits nat.splits if_splits)
  qed (use 2 in \<open>auto split: node.splits\<close>)
qed simp

lemma run_state_mkdir_all:
  "w_tree (snd (run_state (os_mkdir_all env d) w)) =
   snd (mkdirs (e_fault env (w_ops w)) (prefixes_of (at env d)) (w_tree w))"
  by (simp add: os_mkdir_all_def run_state_fs_op t_mkdir_all_def Let_def
      split: prod.splits option.splits)

lemma keeps_only_inside_mkdir_all:
  assumes "under (at env d) p" and "under R p"
  shows "keeps (only_inside R) (os_mkdir_all env d)"
proof -
  let ?ds = "prefixes_of (at env d)"
  have ab: "under l R" if "l \<in> set ?ds" "\<not> under R l" for l
    using in_prefixes_of [OF that(1)] assms that(2) under_cases under_trans by blast
  have "look w' l = look w l \<or> (look w l = None \<and> look w' l = Some DirNode \<and> l \<in> set ?ds)"
    if "w' = snd (run_state (os_mkdir_all env d) w)" for l w w'
    using mkdirs_adds_dirs unfolding look_def run_state_mkdir_all that by blast
  with ab show ?thesis
    unfolding only_inside_def keeps_def by blast
qed

lemma keeps_io_copy: "at env out \<in> L \<Longrightarrow> keeps (frame L) (io_copy env out cs eof)"
  by (induction cs) (auto intro!: keeps_intros)

lemma keeps_extract_file:
  assumes "under (at env (Dir out)) (at env out)" and "under R (at env out)"
  shows "keeps (only_inside R) (extract_file env out mode bdy)"
proof -
  have out: "at env out \<in> {l. under R l}" using assms by simp
  have wr: "keeps (only_inside R) (os_open_write env out b n)" for b n
    using out by (intro keeps_only_inside keeps_open_write)
  have cp: "keeps (only_inside R) (io_copy env out cs eof)" for cs eof
    using out by (intro keeps_only_inside keeps_io_copy)
  have cl: "keeps (only_inside R) (os_close env out)"
    by (intro keeps_only_inside keeps_intros)
  show ?thesis
    unfolding extract_file_def
    by (rule oi.keeps_rules keeps_only_inside_mkdir_all [OF assms] wr cp cl
        | (split body.split sum.split; intro conjI allI impI))+
qed

text \<open>\<open>Extract\<close> stays inside the destination, whatever the archive says.\<close>

lemma keeps_extract_entry:
  assumes "IsAbs root"
  shows "keeps (only_inside (at env root)) (extract_entry env root hdr)"
proof -
  let ?out = "Join [root, h_name hdr]"
  have root: "root \<noteq> []" using assms by auto
  then have out: "?out = Clean (root @ slash # h_name hdr)" and abs: "IsAbs (root @ slash # h_name hdr)"
    using assms by (simp_all add: IsAbs_append)
  then have abs': "IsAbs ?out" by simp
  show ?thesis
    unfolding extract_entry_def Let_def
    using under_Dir [OF abs, of "e_cwd env"] Rel_inside [OF assms abs', of _ "e_cwd env"]
    by (auto simp flip: out intro!: oi.keeps_rules keeps_extract_file simp del: Join.simps)
qed

lemma keeps_extract_all:
  "IsAbs root \<Longrightarrow> keeps (only_inside (at env root)) (extract_all env root hs err)"
  by (induction hs) (auto intro!: oi.keeps_rules keeps_extract_entry)

lemma at_Abs:
  assumes "Abs env p = Inr q" and "\<forall>c \<in> set (e_cwd env). plain c"
  shows "at env q = at env p"
proof (cases "IsAbs p")
  case True
  moreover from this have "p \<noteq> []" by auto
  ultimately show ?thesis using assms(1) by (auto simp: Abs_def loc_of_Clean)
next
  case False
  let ?c = "slash # joinWith slash (e_cwd env)"
  have q: "q = Join [?c, p]"
    using False assms(1) by (auto simp: Abs_def split: if_splits)
  have ns: "\<forall>c \<in> set (e_cwd env). slash \<notin> set c" using assms(2) by (auto simp: plain_def)
  have "resolve [] (splitOn slash ?c) = e_cwd env"
  proof (cases "e_cwd env = []")
    case False
    then have "splitOn slash (joinWith slash (e_cwd env)) = e_cwd env"
      using ns by (intro splitOn_joinWith) auto
    then show ?thesis
      using assms(2) by (simp add: resolve_plain_comps plain_def)
  qed simp
  then have "loc_of (e_cwd env) ?c = e_cwd env" by (simp add: loc_of_def)
  with False show ?thesis
    unfolding q by (simp add: loc_of_Join loc_of_def [of "e_cwd env" p] del: Join.simps)
qed

lemma keeps_Extract:
  assumes "\<forall>c \<in> set (e_cwd env). plain c"
  shows "keeps (only_inside (at env destRoot)) (Extract env src destRoot)"
  unfolding Extract_def
  by (intro oi.keeps_rules) (metis at_Abs [OF _ assms] IsAbs_Abs keeps_extract_all)

text \<open>\<open>C29\<close>. Whatever the archive holds, extracting it changes nothing outside the destination
  directory: only missing directories above it are made. The working directory is absolute, as
  \<^verbatim>\<open>os.Getwd\<close> returns it.\<close>

theorem extract_stays_inside:
  assumes "\<forall>c \<in> set (e_cwd env). plain c" and "run_state (Extract env src destRoot) w = (r, w')"
  shows "only_inside (at env destRoot) w w'"
  by (rule keepsD [OF keeps_Extract [OF assms(1)] assms(2)])


subsection \<open>What a successful extraction delivered\<close>

fun body_bytes :: "body \<Rightarrow> bytes" where
  "body_bytes (Body cs eof) = concat cs"

text \<open>The files an archive stands for: of two entries for one location the later counts.\<close>

fun archive_files :: "loc \<Rightarrow> (loc \<Rightarrow> bytes option) \<Rightarrow> tar_entry list \<Rightarrow> (loc \<Rightarrow> bytes option)" where
  "archive_files R fs [] = fs"
| "archive_files R fs (h # hs) =
     archive_files R (if h_regular h then fs(resolve R (splitOn slash (h_name h)) \<mapsto> body_bytes (h_body h))
                  else fs) hs"

definition files_hold :: "(loc \<Rightarrow> bytes option) \<Rightarrow> world \<Rightarrow> bool" where
  "files_hold fs w \<longleftrightarrow> (\<forall>l d. fs l = Some d \<longrightarrow> (\<exists>m. look w l = Some (FileNode m d)))"

lemma holds_frame:
  "files_hold fs w \<Longrightarrow> frame {l} w w' \<Longrightarrow> look w' l = Some (FileNode m d) \<Longrightarrow> files_hold (fs(l \<mapsto> d)) w'"
  by (auto simp: files_hold_def frame_def)

lemma holds_other: "files_hold (fs(l := None)) w \<Longrightarrow> frame {l} w w' \<Longrightarrow> files_hold (fs(l := None)) w'"
  by (auto simp: files_hold_def frame_def)

lemma holds_same: "files_hold fs w \<Longrightarrow> same_files w w' \<Longrightarrow> files_hold fs w'"
  by (simp add: files_hold_def same_files_look [of w w'])

lemma wp_holds_mkdir_all: "files_hold fs w \<Longrightarrow> wp (os_mkdir_all env d) (\<lambda>_. files_hold fs) w"
  by (rule wpI) (metis files_hold_def look_def mkdirs_only_adds run_state_mkdir_all snd_conv)

lemma wp_io_copy:
  assumes "look w (at env out) = Some (FileNode m d)"
  shows "wp (io_copy env out cs eof) (\<lambda>r w'. frame {at env out} w w' \<and> (case r of Inl _ \<Rightarrow> True
    | Inr _ \<Rightarrow> eof \<and> look w' (at env out) = Some (FileNode m (d @ concat cs)))) w"
  using assms
proof (induction cs arbitrary: w d)
  case Nil
  then show ?case by (cases eof) (simp_all add: wp_ok wp_fail fr.refl)
next
  case (Cons b bs)
  show ?case
  proof (cases "b = []")
    case True
    then have "concat (b # bs) = concat bs" "io_copy env out (b # bs) eof = io_copy env out bs eof" by auto
    with Cons.IH [OF Cons.prems] show ?thesis by (simp only:)
  next
    case False
    show ?thesis
      unfolding io_copy.simps if_not_P [OF False]
    proof (rule wp_attemptI [OF wp_os_append], goal_cases)
      case (2 u w1)
      with Cons.prems have "look w1 (at env out) = Some (FileNode m (d @ b))"
        and f: "frame {at env out} w w1" by auto
      from Cons.IH [OF this(1)] show ?case
        by (rule wp_mono) (auto intro: fr.trans [OF f] split: sum.splits)
    qed auto
  qed
qed

lemma wp_extract_file:
  assumes "files_hold fs w"
  shows "wp (extract_file env out mode bdy)
    (\<lambda>r w'. case r of Inl _ \<Rightarrow> True | Inr _ \<Rightarrow> files_hold (fs(at env out \<mapsto> body_bytes bdy)) w') w"
  unfolding extract_file_def
proof (rule wp_attempt_asI [OF wp_holds_mkdir_all [OF assms]], goal_cases)
  case (2 u w1)
  obtain cs eof where b: "bdy = Body cs eof" by (cases bdy)
  show ?case
  proof (rule wp_attempt_asI [OF wp_os_open_write], goal_cases)
    case (2 v w2)
    then obtain m where o: "look w2 (at env out) = Some (FileNode m [])" and f: "frame {at env out} w1 w2"
      by auto
    show ?case
      unfolding b body.case
    proof (rule wp_bindI [OF wp_io_copy [OF o]], rule wp_bindI [OF wp_os_close], goal_cases)
      case (1 r w3 c w4)
      then have "files_hold (fs(at env out \<mapsto> concat cs)) w4" if "r = Inr ()"
        using that holds_frame [OF \<open>files_hold fs w1\<close> fr.trans [OF f]] by (auto intro: holds_same)
      then show ?case by (auto simp: wp_fail wp_ok split: sum.splits)
    qed
  qed simp
qed simp

lemma wp_extract_entry:
  assumes "files_hold fs w" and "root \<noteq> []"
  shows "wp (extract_entry env root h) (\<lambda>r w'. case r of Inl _ \<Rightarrow> True | Inr _ \<Rightarrow>
    files_hold (archive_files (at env root) fs [h]) w' \<and> (h_regular h \<longrightarrow> safeName (h_name h) = Inr ())) w"
proof -
  have at: "at env (Join [root, h_name h]) = resolve (at env root) (splitOn slash (h_name h))"
    by (rule loc_of_Join [OF assms(2)])
  have f: "wp (extract_file env (Join [root, h_name h]) mode (h_body h)) (\<lambda>r w'. case r of Inl _ \<Rightarrow> True
    | Inr _ \<Rightarrow> files_hold (archive_files (at env root) fs [h]) w' \<and> safeName (h_name h) = Inr ()) w"
    if "h_regular h" "safeName (h_name h) = Inr ()" for mode
    by (rule wp_mono [OF wp_extract_file [OF assms(1)]])
      (use that at in \<open>auto split: sum.splits simp del: Join.simps\<close>)
  consider (skipped) "\<not> h_regular h" "extract_entry env root h = ok ()"
    | (refused) e where "extract_entry env root h = fail e"
    | (written) mode where "h_regular h" "safeName (h_name h) = Inr ()"
        "extract_entry env root h = extract_file env (Join [root, h_name h]) mode (h_body h)"
    by (cases "h_regular h"; cases "safeName (h_name h)"; cases "Rel root (Join [root, h_name h])";
        cases "hasPrefix (the (Rel root (Join [root, h_name h]))) ''..''")
      (auto simp: extract_entry_def Let_def simp del: Join.simps)
  then show ?thesis
  proof cases
    case (written mode)
    then show ?thesis
      using f [OF written(1,2), of mode] by (auto elim!: wp_mono simp del: Join.simps split: sum.splits)
  qed (simp_all add: wp_ok wp_fail assms(1))
qed

lemma wp_extract_all:
  assumes "files_hold fs w" and "root \<noteq> []"
  shows "wp (extract_all env root hs err) (\<lambda>r w'. case r of Inl _ \<Rightarrow> True | Inr _ \<Rightarrow>
    files_hold (archive_files (at env root) fs hs) w' \<and> err = None \<and>
    (\<forall>h \<in> set hs. h_regular h \<longrightarrow> safeName (h_name h) = Inr ())) w"
  using assms(1)
proof (induction hs arbitrary: w fs)
  case Nil
  then show ?case by (cases err) (simp_all add: wp_ok wp_fail)
next
  case (Cons h hs)
  show ?case
    unfolding extract_all.simps
  proof (rule wp_attemptI [OF wp_extract_entry [OF Cons.prems assms(2), of env h]], goal_cases)
    case (2 u w1)
    then have "files_hold (archive_files (at env root) fs [h]) w1"
      and s: "h_regular h \<longrightarrow> safeName (h_name h) = Inr ()" by auto
    from Cons.IH [OF this(1)] show ?case
      by (rule wp_mono) (use s in \<open>auto split: sum.splits\<close>)
  qed simp
qed

lemma wp_Extract:
  assumes "\<forall>c \<in> set (e_cwd env). plain c"
  shows "wp (Extract env src destRoot) (\<lambda>r w'. case r of Inl _ \<Rightarrow> True | Inr _ \<Rightarrow>
    snd (e_untar env src) = None \<and>
    (\<forall>h \<in> set (fst (e_untar env src)). h_regular h \<longrightarrow> safeName (h_name h) = Inr ()) \<and>
    files_hold (archive_files (at env destRoot) Map.empty (fst (e_untar env src))) w') w"
proof (cases "Abs env destRoot")
  case (Inl e)
  then show ?thesis by (simp add: Extract_def wp_fail)
next
  case (Inr root)
  have ne: "root \<noteq> []" using IsAbs_Abs [OF Inr] by auto
  have fh: "files_hold Map.empty w" by (simp add: files_hold_def)
  have "wp (extract_all env root (fst (e_untar env src)) (snd (e_untar env src)))
    (\<lambda>r w'. case r of Inl _ \<Rightarrow> True | Inr _ \<Rightarrow>
      files_hold (archive_files (at env destRoot) Map.empty (fst (e_untar env src))) w' \<and>
      snd (e_untar env src) = None \<and>
      (\<forall>h \<in> set (fst (e_untar env src)). h_regular h \<longrightarrow> safeName (h_name h) = Inr ())) w"
    by (rule wp_extract_all [OF fh ne, of env, unfolded at_Abs [OF Inr assms]])
  then show ?thesis
    unfolding Extract_def Inr by (auto split: prod.split sum.splits elim!: wp_mono)
qed

text \<open>\<open>C30\<close>. When \<^verbatim>\<open>Extract\<close> returns without error the archive was read to its end, every regular
  entry had an acceptable name, and at the location each names stands a file with exactly the
  bytes of the archive's last entry for it.\<close>

theorem extract_delivers:
  assumes "\<forall>c \<in> set (e_cwd env). plain c" and "run_state (Extract env src destRoot) w = (Inr (), w')"
  shows "snd (e_untar env src) = None \<and>
    (\<forall>h \<in> set (fst (e_untar env src)). h_regular h \<longrightarrow> safeName (h_name h) = Inr ()) \<and>
    files_hold (archive_files (at env destRoot) Map.empty (fst (e_untar env src))) w'"
  using wpD [OF wp_Extract [OF assms(1)] assms(2)] by simp


subsection \<open>The names accepted\<close>

lemma dots_at_bottom_step:
  assumes "''..'' \<in> set st \<longrightarrow> last st = ''..''"
  shows "''..'' \<in> set (clean_step r st c) \<longrightarrow> last (clean_step r st c) = ''..''"
  using assms by (cases st) (auto simp: clean_step_def split: if_splits)

lemma dots_at_bottom:
  "''..'' \<in> set st \<longrightarrow> last st = ''..'' \<Longrightarrow>
   ''..'' \<in> set (foldl (clean_step r) st cs) \<longrightarrow> last (foldl (clean_step r) st cs) = ''..''"
  by (induction cs arbitrary: st) (simp, simp add: dots_at_bottom_step)

lemma dots_lead: "''..'' \<in> set (path_comps p) \<Longrightarrow> hd (path_comps p) = ''..''"
  using dots_at_bottom [of "[]" "IsAbs p" "splitOn slash p"]
  by (auto simp: path_comps_def clean_comps_def hd_rev)

lemma contains_iff: "contains s p \<longleftrightarrow> (\<exists>a b. s = a @ p @ b)"
proof (induction s)
  case (Cons c s)
  show ?case
  proof
    assume "contains (c # s) p"
    then consider b where "c # s = [] @ p @ b" | a b where "c # s = (c # a) @ p @ b"
      using Cons by (auto simp: hasPrefix_iff)
    then show "\<exists>a b. c # s = a @ p @ b" by cases blast+
  next
    assume "\<exists>a b. c # s = a @ p @ b"
    then obtain a b where "c # s = a @ p @ b" by blast
    then consider "hasPrefix (c # s) p" | a' where "s = a' @ p @ b"
      by (cases a) auto
    then show "contains (c # s) p" using Cons by cases auto
  qed
qed simp

definition dotdot :: "string \<Rightarrow> bool" where
  "dotdot p \<longleftrightarrow> p = ''..'' \<or> hasPrefix p ''../'' \<or> contains p ''/../''"

lemma dotdot_in_splitOn: "dotdot p \<Longrightarrow> ''..'' \<in> set (splitOn slash p)"
proof -
  assume "dotdot p"
  then consider "p = ''..''" | b where "p = ''..'' @ slash # b"
    | a b where "p = a @ slash # ''..'' @ slash # b"
    by (auto simp: dotdot_def hasPrefix_iff contains_iff)
  then show ?thesis
  proof cases
    case 3
    show ?thesis unfolding 3 splitOn_append by (simp add: splitOn_id)
  qed (simp_all add: splitOn_append [of slash "''..''", simplified] splitOn_id)
qed

lemma dotdot_Clean:
  assumes "p \<noteq> []" and "\<not> IsAbs p"
  shows "dotdot (Clean p) \<longleftrightarrow> ''..'' \<in> set (path_comps p)"
proof
  assume "dotdot (Clean p)"
  from dotdot_in_splitOn [OF this] show "''..'' \<in> set (path_comps p)"
    using assms by (auto simp: splitOn_Clean Let_def split: if_splits)
next
  assume a: "''..'' \<in> set (path_comps p)"
  then obtain cs where cs: "path_comps p = ''..'' # cs"
    using dots_lead [OF a] by (cases "path_comps p") auto
  then have "Clean p = joinWith slash (''..'' # cs)"
    using assms by (simp add: Clean_def path_comps_def)
  then show "dotdot (Clean p)"
    by (cases cs) (simp_all add: dotdot_def)
qed

definition stem :: "string \<Rightarrow> string" where
  "stem c = toUpper (trimSuffix c (Ext c))"

lemma reserved_part_None:
  "reserved_part ps = None \<longleftrightarrow> (\<forall>c \<in> set ps. stem c \<notin> set windowsReserved)"
  by (induction ps) (auto simp: stem_def Let_def)

text \<open>\<open>C32\<close>. The names \<^verbatim>\<open>safeName\<close> accepts: relative, without a NUL byte, whose cleaned components
  include no parent reference and no component that is, up to case and its last extension, a
  Windows device.\<close>

theorem safeName_accepts:
  "safeName n = Inr () \<longleftrightarrow> n \<noteq> [] \<and> \<not> IsAbs n \<and> CHR 0x00 \<notin> set n \<and> ''..'' \<notin> set (path_comps n) \<and>
     set (map stem (splitOn slash (Clean n))) \<inter> set windowsReserved = {}"
proof -
  have nul: "contains n [CHR 0x00] \<longleftrightarrow> CHR 0x00 \<in> set n"
    by (auto simp: contains_iff in_set_conv_decomp)
  show ?thesis
  proof (cases "n = [] \<or> IsAbs n")
    case True
    then show ?thesis by (auto simp: safeName_def IsAbs_def)
  next
    case False
    then have "safeName n = Inr () \<longleftrightarrow> \<not> contains n [CHR 0x00] \<and> \<not> dotdot (Clean n) \<and>
        reserved_part (splitOn slash (Clean n)) = None"
      by (auto simp: safeName_def IsAbs_def dotdot_def Let_def split: option.splits)
    with False show ?thesis
      by (auto simp: nul dotdot_Clean reserved_part_None)
  qed
qed

text \<open>Names at the edges of the rule. Only the last extension is cut before the device names
  are compared, so \<^verbatim>\<open>CON.tar.gz\<close>, which Windows takes for the console, is accepted; and an
  ordinary file whose name begins with two dots is refused by \<^verbatim>\<open>Extract\<close> as escaping the
  root although \<^verbatim>\<open>safeName\<close> accepts it.\<close>

theorem names_at_the_edges:
  "safeName ''bin/CON.txt'' \<noteq> Inr () \<and> safeName ''con'' \<noteq> Inr () \<and>
   safeName ''a/../b'' = Inr () \<and> safeName ''a/../../b'' \<noteq> Inr () \<and>
   safeName ''CON.tar.gz'' = Inr () \<and>
   safeName ''..cache'' = Inr () \<and>
   (let h = \<lparr> h_regular = True, h_name = ''..cache'', h_mode = 0, h_body = Body [[1]] True \<rparr>
    in fst (run_state (extract_entry calm ''/opt'' h) empty_world) =
         Inl (NewErr ''tarx: ..cache: escapes root''))"
  by code_simp

definition tar_of :: "(string \<times> bytes) list \<Rightarrow> bytes" where
  "tar_of es = concat (map (\<lambda>(n, d). of_nat (length n) # bytes_of n @ of_nat (length d) # d) es)"

theorem extract_stays_inside_witness:
  "only_inside [''opt''] (world_of [([''etc''], DirNode)])
     (snd (run_state (Extract calm (tar_of [(''a'', [1]), (''../etc/passwd'', [2])]) ''/opt'')
        (world_of [([''etc''], DirNode)])))"
proof -
  have l: "at calm ''/opt'' = [''opt'']" and c: "\<forall>c \<in> set (e_cwd calm). plain c" by code_simp simp
  show ?thesis
    using extract_stays_inside [OF c surjective_pairing, where destRoot = "''/opt''"] unfolding l by blast
qed

theorem extract_delivers_witness:
  "\<exists>m. look (snd (run_state (Extract calm (tar_of [(''bin/a'', [1]), (''b'', [2]), (''b'', [3])]) ''/opt'')
        empty_world)) [''opt'', ''b''] = Some (FileNode m [3])"
proof -
  let ?r = "run_state (Extract calm (tar_of [(''bin/a'', [1]), (''b'', [2]), (''b'', [3])]) ''/opt'') empty_world"
  have f: "fst ?r = Inr ()" by code_simp
  then have run: "?r = (Inr (), snd ?r)" by (metis prod.collapse)
  have c: "\<forall>c \<in> set (e_cwd calm). plain c" by simp
  have "archive_files (at calm ''/opt'') Map.empty
      (fst (e_untar calm (tar_of [(''bin/a'', [1]), (''b'', [2]), (''b'', [3])]))) [''opt'', ''b''] = Some [3]"
    by code_simp
  with extract_delivers [OF c run] show ?thesis by (auto simp: files_hold_def)
qed

end
