(* ===== verification/Go_Float.thy ===== *)
theory Go_Float
  imports Bspatch
begin

section \<open>Floating-point numbers\<close>

text \<open>
  The finite \<^verbatim>\<open>float64\<close> values the client computes with: \<open>(m, e)\<close> is \<open>m * 2 ^ e\<close>. A result is
  rounded to 53 bits, to the nearest and on a tie to the even one. The exponent has no bounds:
  a result too large for \<^verbatim>\<open>float64\<close> and one below its smallest number meet here only a
  conversion to \<^verbatim>\<open>int64\<close>, which gives the same integer for them. A value outside \<^verbatim>\<open>int64\<close>
  converts to the smallest integer, as the conversion instruction of amd64 does.
\<close>

type_synonym float64 = "int \<times> int"

function bit_size :: "int \<Rightarrow> nat" where
  "bit_size n = (if n \<le> 0 then 0 else Suc (bit_size (n div 2)))"
  by pat_completeness auto
termination by (relation "measure nat") auto

declare bit_size.simps [simp del]

text \<open>The quotient rounded to the nearest integer, ties to even.\<close>

definition div_even :: "int \<Rightarrow> int \<Rightarrow> int" where
  "div_even a b =
     (let q = a div b; r = a mod b in
      if 2 * r > b \<or> (2 * r = b \<and> odd q) then q + 1 else q)"

definition f_round :: "float64 \<Rightarrow> float64" where
  "f_round x =
     (case x of (m, e) \<Rightarrow>
        let k = bit_size \<bar>m\<bar> in
        if k \<le> 53 then (m, e) else (sgn m * div_even \<bar>m\<bar> (2 ^ (k - 53)), e + int (k - 53)))"

definition f_of_int :: "int \<Rightarrow> float64" where
  "f_of_int n = f_round (n, 0)"

definition f_mul :: "float64 \<Rightarrow> float64 \<Rightarrow> float64" where
  "f_mul x y = f_round (fst x * fst y, snd x + snd y)"

definition f_trunc :: "float64 \<Rightarrow> int" where
  "f_trunc x =
     (case x of (m, e) \<Rightarrow>
        if 0 \<le> e then m * 2 ^ nat e else sgn m * (\<bar>m\<bar> div 2 ^ nat (- e)))"

definition f_to_int64 :: "float64 \<Rightarrow> int" where
  "f_to_int64 x = (let n = f_trunc x in if int64_range n then n else - (2 ^ 63))"

text \<open>The nearest \<^verbatim>\<open>float64\<close> to 0.7.\<close>

definition f_0_7 :: float64 where
  "f_0_7 = (6305039478318694, - 53)"

end
