(* ===== verification/Libota.thy ===== *)
theory Libota
  imports Go_Float Client_State Manifest Transport Patch Tarx
begin

section \<open>client/libota: install, upgrade, revert\<close>

text \<open>
  Models \<^verbatim>\<open>client/libota/libota.go\<close>. \<open>Install\<close> is cut into the phases its comments name: the
  bearer token, the version, the manifest (fetched, its key trusted, its signature checked,
  parsed, matched), the blob (by patch or whole), the distribution directory, the flip of the
  links, and the commit (state.json, retention, report). A panic of the patch decoder is the
  error \<open>Panicked\<close>, which no phase catches. Timeouts and cancellations show as errors of
  \<open>e_http\<close>; the messages on the standard error output are not kept.
\<close>

definition Version_libota :: string where
  "Version_libota = ''0.1.0-phase1''"

record config =
  cf_ServerURL :: string
  cf_OTAHome :: string
  cf_TrustedPubKeys :: "string list"
  cf_Timeout :: int
  cf_FallbackRatio :: float64
  cf_InstallToken :: string
  cf_Hwinfo :: string
  cf_Kind :: string

definition zero_config :: config where
  "zero_config = \<lparr> cf_ServerURL = [], cf_OTAHome = [], cf_TrustedPubKeys = [], cf_Timeout = 0,
     cf_FallbackRatio = (0, 0), cf_InstallToken = [], cf_Hwinfo = [], cf_Kind = [] \<rparr>"

definition fallbackRatio :: "config \<Rightarrow> float64" where
  "fallbackRatio c = (if fst (cf_FallbackRatio c) \<le> 0 then f_0_7 else cf_FallbackRatio c)"

definition defaultOTAHome :: "env \<Rightarrow> string" where
  "defaultOTAHome env =
     (let v = e_getenv env ''OTA_HOME'' in
      if v \<noteq> [] then v
      else (case e_homedir env of Some h \<Rightarrow> Join [h, ''.ota''] | None \<Rightarrow> ''.ota''))"

definition releaseID :: "string \<Rightarrow> string \<Rightarrow> string \<Rightarrow> string \<Rightarrow> string" where
  "releaseID software os arch version = software @ ''/'' @ os @ ''-'' @ arch @ ''/'' @ version"

text \<open>\<^verbatim>\<open>pickPatch\<close>: the first of the smallest patches from the installed version under the cap.\<close>

fun pick_loop :: "string \<Rightarrow> int \<Rightarrow> PatchRef option \<Rightarrow> PatchRef list \<Rightarrow> PatchRef option" where
  "pick_loop from lim best [] = best"
| "pick_loop from lim best (p # ps) =
     (if p_From p \<noteq> from then pick_loop from lim best ps
      else if p_Patcher p \<noteq> ''bsdiff'' then pick_loop from lim best ps
      else if lim > 0 \<and> p_Size p > lim then pick_loop from lim best ps
      else pick_loop from lim
        (case best of None \<Rightarrow> Some p | Some b \<Rightarrow> if p_Size p < p_Size b then Some p else best) ps)"

definition patch_cap :: "int \<Rightarrow> float64 \<Rightarrow> int" where
  "patch_cap blobSize ratio = f_to_int64 (f_mul (f_of_int blobSize) ratio)"

definition pickPatch :: "PatchRef list \<Rightarrow> string \<Rightarrow> int \<Rightarrow> float64 \<Rightarrow> PatchRef option" where
  "pickPatch ps from blobSize ratio = pick_loop from (patch_cap blobSize ratio) None ps"

definition short :: "string \<Rightarrow> string" where
  "short h = (if length h > 12 then take 12 h @ ''...'' else h)"

definition em_dash :: string where
  "em_dash = [CHR 0xE2, CHR 0x80, CHR 0x94]"

definition checkTrust :: "cstate \<Rightarrow> string list \<Rightarrow> string \<Rightarrow> unit res" where
  "checkTrust st trusted presented =
     (if trusted \<noteq> [] then
        (if presented \<in> set trusted then Inr ()
         else Inl (NewErr (''install: server pubkey '' @ short presented @ '' not in trusted set'')))
      else if s_ServerPubKeyHX st = [] \<or> s_ServerPubKeyHX st = presented then Inr ()
      else Inl (NewErr (''install: server pubkey changed (was '' @ short (s_ServerPubKeyHX st) @
             '', now '' @ short presented @ '') '' @ em_dash @ '' refuse'')))"


subsection \<open>The phases of Install\<close>

definition resolve_auth ::
  "env \<Rightarrow> config \<Rightarrow> client \<Rightarrow> cstate \<Rightarrow> (client \<times> cstate) res act"
where
  "resolve_auth env cfg tr st =
     (if s_BearerToken st \<noteq> [] then ok (tr\<lparr>Auth := s_BearerToken st\<rparr>, st)
      else if cf_InstallToken cfg \<noteq> [] then
        attempt (ExchangeInstallToken env tr (cf_InstallToken cfg) (cf_Hwinfo cfg)) (\<lambda>ex.
          ok (tr\<lparr>Auth := x_BearerToken ex\<rparr>,
              st\<lparr>s_ClientID := x_ClientID ex, s_BearerToken := x_BearerToken ex\<rparr>))
      else ok (tr, st))"

definition dec_version_field :: "string \<Rightarrow> json \<Rightarrow> string \<Rightarrow> string option" where
  "dec_version_field k v s = (if key_is k ''version'' then dec_string v s else Some s)"

definition unmarshal_version :: "bytes \<Rightarrow> string option" where
  "unmarshal_version raw =
     Option.bind (unmarshal (string_of raw)) (dec_struct dec_version_field [])"

definition resolve_version :: "env \<Rightarrow> client \<Rightarrow> string \<Rightarrow> string \<Rightarrow> string res act" where
  "resolve_version env tr software version =
     (if version = [] \<or> version = ''latest'' then
        attempt (LatestRelease env tr software) (\<lambda>raw.
          case unmarshal_version raw of
            None \<Rightarrow> fail (WrapErr ''install: parse latest'' json_err)
          | Some v \<Rightarrow>
              if v = [] then fail (NewErr ''install: server returned empty version'') else ok v)
      else ok version)"

definition fetch_manifest ::
  "env \<Rightarrow> config \<Rightarrow> client \<Rightarrow> cstate \<Rightarrow> string \<Rightarrow> string \<Rightarrow> (Manifest \<times> string) res act"
where
  "fetch_manifest env cfg tr st software version =
     attempt (GetManifest env tr software version) (\<lambda>(data, sigHex, pubHex).
       case checkTrust st (cf_TrustedPubKeys cfg) pubHex of
         Inl e \<Rightarrow> fail e
       | Inr _ \<Rightarrow> (case Verify env data sigHex pubHex of
           Inl e \<Rightarrow> fail e
         | Inr _ \<Rightarrow> (case Parse data of
             Inl e \<Rightarrow> fail e
           | Inr m \<Rightarrow>
               if Software m \<noteq> software \<or> Manifest.Version m \<noteq> version
               then fail (NewErr (''install: manifest software/version mismatch ('' @ Software m @ ''/'' @
                      Manifest.Version m @ '' vs '' @ software @ ''/'' @ version @ '')''))
               else ok (m, pubHex))))"

definition patch_path :: "layout \<Rightarrow> string \<Rightarrow> string \<Rightarrow> string" where
  "patch_path l from to = Join [PatchesDir l, from @ ''-to-'' @ to @ ''.patch'']"

text \<open>Whether the blob was made from a patch.\<close>

definition try_patch ::
  "env \<Rightarrow> config \<Rightarrow> client \<Rightarrow> layout \<Rightarrow> cstate \<Rightarrow> Manifest \<Rightarrow> string \<Rightarrow> bool res act"
where
  "try_patch env cfg tr l st m version =
     (if s_Current st \<noteq> [] \<and> s_Current st \<noteq> version then
        let oldBlob = BlobPath l (s_Current st) in do {
          r \<leftarrow> os_stat env oldBlob;
          case r of
            Inl _ \<Rightarrow> ok False
          | Inr _ \<Rightarrow>
              (case pickPatch (PatchesIn m) (s_Current st) (b_Size (m_Blob m)) (fallbackRatio cfg) of
                 None \<Rightarrow> ok False
               | Some pref \<Rightarrow>
                   let patchPath = patch_path l (s_Current st) version in
                   attempt_as ''upgrade: download patch''
                     (DownloadPatch env tr (p_SHA256 pref) patchPath) (\<lambda>_.
                   attempt (Apply env oldBlob patchPath (BlobPath l version) (b_SHA256 (m_Blob m))
                     (p_Patcher pref)) (\<lambda>_. ok True))) }
      else ok False)"

definition obtain_blob ::
  "env \<Rightarrow> config \<Rightarrow> client \<Rightarrow> layout \<Rightarrow> cstate \<Rightarrow> Manifest \<Rightarrow> string \<Rightarrow> unit res act"
where
  "obtain_blob env cfg tr l st m version =
     attempt (try_patch env cfg tr l st m version) (\<lambda>transferred.
       if transferred then ok ()
       else attempt (DownloadBlob env tr (b_SHA256 (m_Blob m)) (BlobPath l version)) (\<lambda>_. ok ()))"

text \<open>The blob is read when it is opened: nothing else writes to it while it is unpacked.\<close>

definition unpack :: "env \<Rightarrow> layout \<Rightarrow> string \<Rightarrow> unit res act" where
  "unpack env l version =
     (let dist = DistributionDir l version; blobPath = BlobPath l version in do {
        _ \<leftarrow> os_remove_all env dist;
        attempt_as ''install: mkdir dist'' (os_mkdir_all env dist) (\<lambda>_.
        attempt_as ''install: open blob'' (os_read_file env blobPath) (\<lambda>bf. do {
          r \<leftarrow> Extract env bf dist;
          c \<leftarrow> os_close env blobPath;
          case r of Inl e \<Rightarrow> fail e | Inr _ \<Rightarrow> State_Monad.return c })) })"

text \<open>The record after an install.\<close>

definition install_record ::
  "cstate \<Rightarrow> string \<Rightarrow> string \<Rightarrow> string \<Rightarrow> string \<Rightarrow> string \<Rightarrow> string \<Rightarrow> cstate"
where
  "install_record st software version serverURL pubHex os arch =
     (let st1 = st\<lparr>s_Software := software\<rparr>;
          st2 = (if s_Current st1 \<noteq> version then
                   let st' = (if s_Current st1 \<noteq> [] then st1\<lparr>s_Previous := s_Current st1\<rparr> else st1)
                   in st'\<lparr>s_Current := version, s_History := s_History st' @ [version]\<rparr>
                 else st1)
      in st2\<lparr>s_ServerURL := serverURL, s_ServerPubKeyHX := pubHex, s_OS := os, s_Arch := arch\<rparr>)"

definition older_version :: "cstate \<Rightarrow> string option" where
  "older_version st =
     (if length (s_History st) < 3 then None
      else Some (s_History st ! (length (s_History st) - 3)))"

fun remove_patches :: "env \<Rightarrow> layout \<Rightarrow> string \<Rightarrow> (string \<times> node) list \<Rightarrow> unit act" where
  "remove_patches env l pre [] = State_Monad.return ()"
| "remove_patches env l pre ((name, n) # es) =
     (if n \<noteq> DirNode \<and> length name > length pre \<and> hasPrefix name pre
      then do { _ \<leftarrow> os_remove env (Join [PatchesDir l, name]); remove_patches env l pre es }
      else remove_patches env l pre es)"

definition pruneOldArtefacts :: "env \<Rightarrow> layout \<Rightarrow> cstate \<Rightarrow> unit act" where
  "pruneOldArtefacts env l st =
     (case older_version st of
        None \<Rightarrow> State_Monad.return ()
      | Some older \<Rightarrow> do {
          _ \<leftarrow> os_remove_all env (BlobPath l older);
          _ \<leftarrow> os_remove_all env (Join [Root l, ''distribution-'' @ older @ ''.archived'']);
          r \<leftarrow> os_read_dir env (PatchesDir l);
          case r of
            Inl _ \<Rightarrow> State_Monad.return ()
          | Inr entries \<Rightarrow> remove_patches env l (older @ ''-to-'') entries })"

definition report_install ::
  "env \<Rightarrow> config \<Rightarrow> client \<Rightarrow> Manifest \<Rightarrow> string \<Rightarrow> string \<Rightarrow> string \<Rightarrow> unit res act"
where
  "report_install env cfg tr m software version prev =
     (let kind = (if cf_Kind cfg \<noteq> [] then cf_Kind cfg
                  else if prev = [] then ''install'' else ''upgrade'');
          curRID = releaseID (Software m) (m_OS m) (m_Arch m) version;
          prevRID = (if prev \<noteq> [] then releaseID (Software m) (m_OS m) (m_Arch m) prev else [])
      in ReportClientState env tr software curRID prevRID kind)"

definition commit ::
  "env \<Rightarrow> config \<Rightarrow> client \<Rightarrow> layout \<Rightarrow> cstate \<Rightarrow> Manifest \<Rightarrow> string \<Rightarrow> string \<Rightarrow> string \<Rightarrow> string res act"
where
  "commit env cfg tr l st m pubHex software version =
     (let st' = install_record st software version (cf_ServerURL cfg) pubHex (m_OS m) (m_Arch m) in
      attempt (Save env l st') (\<lambda>_. do {
        pruneOldArtefacts env l st';
        _ \<leftarrow> report_install env cfg tr m software version (s_Current st);
        ok version }))"

definition Install :: "env \<Rightarrow> config \<Rightarrow> string \<Rightarrow> string \<Rightarrow> string res act" where
  "Install env cfg0 software version0 =
     (if cf_ServerURL cfg0 = [] then fail (NewErr ''libota: ServerURL required'')
      else
        let cfg = (if cf_OTAHome cfg0 = [] then cfg0\<lparr>cf_OTAHome := defaultOTAHome env\<rparr> else cfg0);
            l = New (cf_OTAHome cfg) software in
        attempt (Ensure env l) (\<lambda>_.
        attempt (Load env l) (\<lambda>st0.
        attempt (resolve_auth env cfg (New_client (cf_ServerURL cfg)) st0) (\<lambda>(tr, st).
        attempt (resolve_version env tr software version0) (\<lambda>version.
        attempt (fetch_manifest env cfg tr st software version) (\<lambda>(m, pubHex).
        attempt (obtain_blob env cfg tr l st m version) (\<lambda>_.
        attempt (unpack env l version) (\<lambda>_.
        attempt (FlipCurrent env l version) (\<lambda>_.
          commit env cfg tr l st m pubHex software version)))))))))"

definition Upgrade :: "env \<Rightarrow> config \<Rightarrow> string \<Rightarrow> string \<Rightarrow> string res act" where
  "Upgrade env cfg software version = Install env cfg software version"


subsection \<open>Revert\<close>

definition revert_record :: "cstate \<Rightarrow> cstate" where
  "revert_record st = st\<lparr>s_Current := s_Previous st, s_Previous := s_Current st\<rparr>"

definition report_revert :: "env \<Rightarrow> config \<Rightarrow> string \<Rightarrow> cstate \<Rightarrow> unit act" where
  "report_revert env cfg software st =
     (let server = (if cf_ServerURL cfg = [] then s_ServerURL st else cf_ServerURL cfg) in
      if server \<noteq> [] \<and> s_BearerToken st \<noteq> [] \<and> s_OS st \<noteq> [] \<and> s_Arch st \<noteq> [] then do {
        _ \<leftarrow> ReportClientState env ((New_client server)\<lparr>Auth := s_BearerToken st\<rparr>) software
          (releaseID software (s_OS st) (s_Arch st) (s_Current st))
          (releaseID software (s_OS st) (s_Arch st) (s_Previous st)) ''revert'';
        State_Monad.return () }
      else State_Monad.return ())"

definition Revert :: "env \<Rightarrow> config \<Rightarrow> string \<Rightarrow> unit res act" where
  "Revert env cfg software =
     (let home = (if cf_OTAHome cfg = [] then defaultOTAHome env else cf_OTAHome cfg);
          l = New home software in
      attempt (Load env l) (\<lambda>st.
        if s_Previous st = [] then fail (NewErr ''revert: no previous distribution'')
        else
          attempt (FlipCurrent env l (s_Previous st)) (\<lambda>_.
          let st' = revert_record st in
          attempt (Save env l st') (\<lambda>_. do { report_revert env cfg software st'; ok () }))))"

text \<open>\<^verbatim>\<open>io.Copy(io.Discard, r)\<close>: the number of bytes, or the read error.\<close>

fun Drain :: "body \<Rightarrow> int res" where
  "Drain (Body cs e) = (if e then Inr (int (length (concat cs))) else Inl read_err)"


subsection \<open>The e-mail client\<close>

record EmailClient =
  ec_tr :: client
  ec_state :: cstate
  ec_server :: string

definition NewEmailClient :: "env \<Rightarrow> string \<Rightarrow> string \<Rightarrow> EmailClient res act" where
  "NewEmailClient env otaHome software =
     attempt (Load env (New otaHome software)) (\<lambda>st.
       if s_BearerToken st = [] then fail (NewErr ''email: no bearer token; install the software first'')
       else if s_ServerURL st = [] then fail (NewErr ''email: no server URL in state.json'')
       else ok \<lparr> ec_tr = (New_client (s_ServerURL st))\<lparr>Auth := s_BearerToken st\<rparr>,
                 ec_state = st, ec_server = s_ServerURL st \<rparr>)"

definition email_Set :: "env \<Rightarrow> EmailClient \<Rightarrow> string \<Rightarrow> unit res act" where
  "email_Set env c address = attempt (SetClientEmail env (ec_tr c) address) (\<lambda>_. ok ())"

definition email_Unset :: "env \<Rightarrow> EmailClient \<Rightarrow> string \<Rightarrow> int res act" where
  "email_Unset env c address = DeleteClientEmail env (ec_tr c) address"

definition email_Show :: "env \<Rightarrow> EmailClient \<Rightarrow> ClientEmail list res act" where
  "email_Show env c = ListClientEmails env (ec_tr c)"


subsection \<open>Which patch is taken\<close>

definition acceptable :: "string \<Rightarrow> int \<Rightarrow> PatchRef \<Rightarrow> bool" where
  "acceptable from lim p \<longleftrightarrow>
     p_From p = from \<and> p_Patcher p = ''bsdiff'' \<and> (lim \<le> 0 \<or> p_Size p \<le> lim)"

text \<open>The first of the smallest.\<close>

definition cheapest :: "PatchRef list \<Rightarrow> PatchRef option" where
  "cheapest ps = find (\<lambda>p. list_all (\<lambda>q. p_Size p \<le> p_Size q) ps) ps"

fun cheaper :: "PatchRef option \<Rightarrow> PatchRef \<Rightarrow> PatchRef option" where
  "cheaper None p = Some p"
| "cheaper (Some b) p = (if p_Size p < p_Size b then Some p else Some b)"

lemma pick_loop_foldl:
  "pick_loop from lim best ps = foldl cheaper best (filter (acceptable from lim) ps)"
  by (induction ps arbitrary: best) (auto simp: acceptable_def not_less split: option.split)

lemma find_cong_set: "(\<And>x. x \<in> set xs \<Longrightarrow> P x = Q x) \<Longrightarrow> find P xs = find Q xs"
  by (induction xs) auto

lemma foldl_cheaper_Some:
  "foldl cheaper (Some b) ps = cheapest (b # ps)"
proof (induction ps arbitrary: b)
  case Nil
  then show ?case by (simp add: cheapest_def)
next
  case (Cons p ps)
  show ?case
  proof (cases "p_Size p < p_Size b")
    case True
    then have "cheapest (b # p # ps) = cheapest (p # ps)"
      by (auto simp: cheapest_def list_all_iff intro!: find_cong_set)
    with True Cons show ?thesis by simp
  next
    case False
    then have "cheapest (b # p # ps) = cheapest (b # ps)"
      by (auto simp: cheapest_def list_all_iff intro!: find_cong_set)
    with False Cons show ?thesis by simp
  qed
qed

text \<open>\<open>C16\<close>. The patch chosen is the first of the smallest among those from the installed version
  that the client can apply and that stay under the cap, and none is chosen when there is
  none of these.\<close>

theorem pickPatch_cheapest:
  "pickPatch ps from blobSize ratio = cheapest (filter (acceptable from (patch_cap blobSize ratio)) ps)"
proof -
  have "foldl cheaper None qs = cheapest qs" for qs
    by (cases qs) (simp add: cheapest_def, simp add: foldl_cheaper_Some)
  then show ?thesis by (simp add: pickPatch_def pick_loop_foldl)
qed


subsection \<open>The record as a state machine\<close>

text \<open>The records a product's state.json goes through: none installed, then installs and reverts.\<close>

inductive record_step :: "cstate \<Rightarrow> cstate \<Rightarrow> bool" where
  installed_version: "version \<noteq> [] \<Longrightarrow>
     record_step st ((install_record (st\<lparr>s_ClientID := cid, s_BearerToken := bt\<rparr>) sw version url pub os arch)
       \<lparr>s_UpdatedAt := t\<rparr>)"
| reverted: "s_Previous st \<noteq> [] \<Longrightarrow> record_step st ((revert_record st)\<lparr>s_UpdatedAt := t\<rparr>)"

inductive record_reachable :: "cstate \<Rightarrow> bool" where
  initially: "record_reachable zero_state"
| further: "record_reachable st \<Longrightarrow> record_step st st' \<Longrightarrow> record_reachable st'"

inductive_cases record_stepE: "record_step st st'"

text \<open>What holds of every such record.\<close>

definition record_wf :: "cstate \<Rightarrow> bool" where
  "record_wf st \<longleftrightarrow>
     (if s_Current st = [] then s_Previous st = [] \<and> s_History st = []
      else s_Current st \<in> set (s_History st) \<and> s_Previous st \<noteq> s_Current st \<and>
           s_Previous st \<in> insert [] (set (s_History st)))"

lemma record_wf_step: "record_step st st' \<Longrightarrow> record_wf st \<Longrightarrow> record_wf st'"
  by (erule record_stepE)
    (auto simp: record_wf_def install_record_def revert_record_def Let_def split: if_splits)

text \<open>\<open>C14\<close>. In every record that installs and reverts lead to, the current and the previous
  version are distinct versions of the history, and before the first install there is none.\<close>

theorem record_invariant:
  assumes "record_reachable st"
  shows "record_wf st"
  using assms
proof induction
  case initially
  then show ?case by (simp add: record_wf_def zero_state_def)
qed (rule record_wf_step)

text \<open>The three releases of the examples: 1 is installed, then 2, then 1 again.\<close>

definition demo_install :: "string \<Rightarrow> cstate \<Rightarrow> cstate" where
  "demo_install v st = install_record st ''app'' v ''http://s'' ''ab'' ''linux'' ''x86_64''"

lemma install_record_UpdatedAt:
  "(install_record st sw v url pub os arch)\<lparr>s_UpdatedAt := s_UpdatedAt st\<rparr> =
   install_record st sw v url pub os arch"
  by (simp add: install_record_def Let_def)

lemma demo_step: "v \<noteq> [] \<Longrightarrow> record_step st (demo_install v st)"
  unfolding demo_install_def
  using installed_version [where version = v and st = st and cid = "s_ClientID st" and bt = "s_BearerToken st"
      and t = "s_UpdatedAt st"]
  by (simp add: install_record_UpdatedAt)

lemma demo_reachable:
  "record_reachable (demo_install ''1'' (demo_install ''2'' (demo_install ''1'' zero_state)))"
proof -
  let ?s1 = "demo_install ''1'' zero_state" and ?s2 = "demo_install ''2'' (demo_install ''1'' zero_state)"
  have 1: "record_reachable ?s1" by (rule further [OF initially demo_step]) simp
  have 2: "record_reachable ?s2" by (rule further [OF 1 demo_step]) simp
  show "record_reachable (demo_install ''1'' ?s2)" by (rule further [OF 2 demo_step]) simp
qed

theorem record_invariant_witness:
  "record_wf (demo_install ''1'' (demo_install ''2'' (demo_install ''1'' zero_state)))"
  by (rule record_invariant [OF demo_reachable])

text \<open>\<open>C33\<close>. The key a manifest is signed with passes the gate exactly when the user's set names it or,
  with no such set, when it is the pinned key or no key is pinned yet; the record of the
  install pins it, so that from then on only this key passes.\<close>

theorem trust_gate:
  "(checkTrust st trusted k = Inr () \<longleftrightarrow>
     (if trusted = [] then s_ServerPubKeyHX st \<in> {[], k} else k \<in> set trusted)) \<and>
   (k \<noteq> [] \<longrightarrow> (checkTrust (install_record st sw v url k os arch) [] k' = Inr () \<longleftrightarrow> k' = k))"
  by (auto simp: checkTrust_def install_record_def Let_def)

theorem trust_gate_witness:
  "checkTrust (install_record zero_state ''app'' ''1'' ''http://s'' ''ab'' ''linux'' ''x86'') [] ''cd'' \<noteq> Inr ()"
  using trust_gate [of zero_state "[]" "''ab''" "''app''" "''1''" "''http://s''" "''linux''" "''x86''" "''cd''"]
  by simp


subsection \<open>The e-mail commands\<close>

definition no_requests :: "world \<Rightarrow> world \<Rightarrow> bool" where
  "no_requests w w' \<longleftrightarrow> w_reqs w' = w_reqs w"

interpretation nr: preorder_frame no_requests
  by unfold_locales (auto simp: no_requests_def)

lemma keeps_no_requests_fs_op: "keeps no_requests (fs_op env f)"
  by (rule keepsI) (auto simp: run_state_fs_op no_requests_def Let_def split: prod.splits)

lemma keeps_no_requests_Load: "keeps no_requests (Load env l)"
  unfolding Load_def os_read_file_def
  by (intro nr.keeps_rules keeps_no_requests_fs_op)

text \<open>The e-mail commands read the record and nothing else: making the client sends no request;
  there is one only when the record has a bearer token and a server, and every command of it
  sends at most one request, with that token, changing no file.\<close>

theorem email_uses_the_record:
  assumes "run_state (NewEmailClient env home software) w = (res, w')"
  shows "same_files w w' \<and> w_reqs w' = w_reqs w \<and>
    (case res of
       Inl _ \<Rightarrow> True
     | Inr c \<Rightarrow> Auth (ec_tr c) = s_BearerToken (ec_state c) \<and> Auth (ec_tr c) \<noteq> [] \<and>
         BaseURL (ec_tr c) = s_ServerURL (ec_state c) \<and> BaseURL (ec_tr c) \<noteq> [] \<and>
         one_request (bearer (ec_tr c)) (email_Set env c a) \<and>
         one_request (bearer (ec_tr c)) (email_Unset env c a) \<and>
         one_request (bearer (ec_tr c)) (email_Show env c))"
proof -
  have "keeps same_files (NewEmailClient env home software)"
    unfolding NewEmailClient_def Load_def
    by (intro sf.keeps_rules keeps_same_files)
  then have 1: "same_files w w'" using assms by (rule keepsD)
  have "keeps no_requests (NewEmailClient env home software)"
    unfolding NewEmailClient_def
    by (intro nr.keeps_rules keeps_no_requests_Load)
  then have 2: "no_requests w w'" using assms by (rule keepsD)
  have 3: "one_request (bearer c) (attempt (SetClientEmail env c a) (\<lambda>_. ok ()))" for c
    by (rule one_request_attempt [OF one_request_endpoints(6)]) simp
  have "case res of Inl _ \<Rightarrow> True | Inr c \<Rightarrow>
      Auth (ec_tr c) = s_BearerToken (ec_state c) \<and> Auth (ec_tr c) \<noteq> [] \<and>
      BaseURL (ec_tr c) = s_ServerURL (ec_state c) \<and> BaseURL (ec_tr c) \<noteq> []"
    using assms by (auto simp: NewEmailClient_def New_client_def split: sum.splits if_splits prod.splits)
  with 1 2 3 show ?thesis
    by (auto simp: no_requests_def email_Set_def email_Unset_def email_Show_def one_request_endpoints
        split: sum.splits)
qed

theorem email_uses_the_record_witness:
  "\<exists>e. fst (run_state (NewEmailClient calm ''/home'' ''app'') demo_world) = Inl e \<and>
     w_reqs (snd (run_state (NewEmailClient calm ''/home'' ''app'') demo_world)) = []"
proof -
  let ?m = "run_state (NewEmailClient calm ''/home'' ''app'') demo_world"
  have run: "?m = (fst ?m, snd ?m)" by simp
  have "\<not> is_ok (fst ?m)" by code_simp
  then obtain e where "fst ?m = Inl e" by (cases "fst ?m") auto
  moreover have "w_reqs demo_world = []" by (simp add: demo_world_def world_of_def)
  ultimately show ?thesis using email_uses_the_record [OF run] by auto
qed

end
