(* ===== verification/Install_Safety.thy ===== *)
theory Install_Safety
  imports Libota
begin

section \<open>What Install and Revert guarantee\<close>

text \<open>
  The outcome of \<open>Install\<close> on every branch and at every crash point, composed from the
  contracts of its phases: either the links and the record are as they were, or a release
  whose manifest is authentic has been unpacked, the links were given to the flip, and the
  record is the old one or, exactly when the call succeeds, the next one.
\<close>

subsection \<open>Locations\<close>

text \<open>The links, their temporaries and the record of the product at \<open>r\<close>.\<close>

definition pointers :: "loc \<Rightarrow> loc set" where
  "pointers r = insert (r @ [''state.json'']) (flip_locs r)"

lemma pointers_iff:
  "k \<in> pointers r \<longleftrightarrow> k \<in> (\<lambda>n. r @ [n]) ` {''state.json'', ''current'', ''current.path'', ''current.tmp'',
     ''current.path.tmp'', ''previous'', ''previous.path''}"
  by (auto simp: pointers_def flip_locs_def)

lemma pointers_shape: "k \<in> pointers r \<Longrightarrow> length k = Suc (length r)"
  by (auto simp: pointers_iff)

lemma not_pointers [simp]: "r @ [a, b] \<notin> pointers r" "r \<notin> pointers r"
  "r @ [''blobs''] \<notin> pointers r" "r @ [''patches''] \<notin> pointers r" "r @ [''archived''] \<notin> pointers r"
  "r @ [''distribution-'' @ v] \<notin> pointers r"
  by (auto simp: pointers_iff)

lemma only_inside_pointers:
  assumes "only_inside (r @ [x]) w w'" and "r @ [x] \<notin> pointers r"
  shows "frame (- pointers r) w w'"
proof -
  have "\<not> under (r @ [x]) k \<and> \<not> under k (r @ [x])" if "k \<in> pointers r" for k
    using that assms(2) pointers_shape [OF that] by (auto simp: under_def pointers_iff)
  with assms(1) show ?thesis
    by (auto simp: frame_def only_inside_def)
qed

lemma keeps_pointers_inside:
  "keeps (only_inside (r @ [x])) m \<Longrightarrow> r @ [x] \<notin> pointers r \<Longrightarrow> keeps (frame (- pointers r)) m"
  by (erule keeps_mono) (rule only_inside_pointers)

lemma prefixes_not_pointers: "set (prefixes_of r) \<subseteq> - pointers r"
  by (auto simp: set_prefixes_of dest: pointers_shape)

lemma prefixes_snoc: "set (prefixes_of (r @ [x])) = insert (r @ [x]) (set (prefixes_of r))"
proof -
  have "take n (r @ [x]) = (if n \<le> length r then take n r else r @ [x])" for n
    by simp
  then show ?thesis
    unfolding set_prefixes_of by (auto simp: le_Suc_eq) (metis Suc_leI lessI not_less_eq_eq)+
qed

lemma at_BlobPath_part:
  assumes "layout_at env l r" and "slash \<notin> set v"
  shows "at env (BlobPath l v @ ''.part'') = r @ [''blobs'', (v @ ''.blob'') @ ''.part'']"
proof -
  have ne: "BlobsDir l \<noteq> []" using assms by (simp add: layout_at_def Join_pair_not_Nil del: Join.simps)
  have p: "plain (v @ ''.blob'')" by (rule plain_blob [OF assms(2)])
  have "slash \<notin> set ''.part''" by simp
  from loc_of_Join_suffix [OF ne p this plain_append [OF p this]] show ?thesis
    unfolding BlobPath_def using layout_locs0(4) [OF assms(1)] by simp
qed

lemma named_BlobPath: "layout_at env l r \<Longrightarrow> slash \<notin> set v \<Longrightarrow> named (BlobPath l v)"
  unfolding BlobPath_def layout_at_def
  by (simp add: named_Join plain_blob Join_pair_not_Nil del: Join.simps)

lemma plain_patch: "slash \<notin> set a \<Longrightarrow> slash \<notin> set b \<Longrightarrow> plain (a @ ''-to-'' @ b @ ''.patch'')"
  by (cases a) (auto simp: plain_def)

lemma patch_path_locs:
  assumes "layout_at env l r" and "slash \<notin> set a" and "slash \<notin> set b"
  shows "named (patch_path l a b)"
    "at env (patch_path l a b) = r @ [''patches'', a @ ''-to-'' @ b @ ''.patch'']"
    "at env (patch_path l a b @ ''.part'') = r @ [''patches'', (a @ ''-to-'' @ b @ ''.patch'') @ ''.part'']"
proof -
  have ne: "PatchesDir l \<noteq> []" using assms by (simp add: layout_at_def Join_pair_not_Nil del: Join.simps)
  have p: "plain (a @ ''-to-'' @ b @ ''.patch'')" by (rule plain_patch [OF assms(2,3)])
  show "named (patch_path l a b)"
    unfolding patch_path_def by (rule named_Join [OF ne p])
  show "at env (patch_path l a b) = r @ [''patches'', a @ ''-to-'' @ b @ ''.patch'']"
    unfolding patch_path_def using loc_of_Join_plain [OF ne p] layout_locs0(5) [OF assms(1)] by simp
  have "slash \<notin> set ''.part''" by simp
  from loc_of_Join_suffix [OF ne p this plain_append [OF p this]]
  show "at env (patch_path l a b @ ''.part'') = r @ [''patches'', (a @ ''-to-'' @ b @ ''.patch'') @ ''.part'']"
    unfolding patch_path_def using layout_locs0(5) [OF assms(1)] by simp
qed


subsection \<open>The phases before the flip\<close>

lemma keeps_Ensure:
  assumes "layout_at env l r"
  shows "keeps (frame (- pointers r)) (Ensure env l)"
proof -
  have "keeps (frame (- pointers r)) (os_mkdir_all env d)"
    if "at env d \<in> {r, r @ [''blobs''], r @ [''patches''], r @ [''archived'']}" for d
    using that prefixes_not_pointers [of r] by (intro keeps_mkdir_all) (auto simp: prefixes_snoc)
  then show ?thesis
    using layout_locs0 [OF assms] assms
    unfolding Ensure_def mkdir_each.simps by (intro fr.keeps_rules) (auto simp: layout_at_def)
qed

text \<open>A manifest this server can send for the release, signed by the given key, under the trust gate.\<close>

definition authentic :: "env \<Rightarrow> string list \<Rightarrow> cstate \<Rightarrow> string \<Rightarrow> string \<Rightarrow> Manifest \<Rightarrow> string \<Rightarrow> bool" where
  "authentic env trusted st software version m pub \<longleftrightarrow>
     (\<exists>data sig tr w w'. run_state (GetManifest env tr software version) w = (Inr (data, sig, pub), w') \<and>
        Verify env data sig pub = Inr () \<and> Parse data = Inr m) \<and>
     checkTrust st trusted pub = Inr () \<and> Software m = software \<and> Manifest.Version m = version"

lemma authenticI:
  "run_state (GetManifest env tr software version) w = (Inr (data, sig, pub), w') \<Longrightarrow>
   checkTrust st trusted pub = Inr () \<Longrightarrow> Verify env data sig pub = Inr () \<Longrightarrow> Parse data = Inr m \<Longrightarrow>
   Software m = software \<Longrightarrow> Manifest.Version m = version \<Longrightarrow>
   authentic env trusted st software version m pub"
  unfolding authentic_def by blast

lemma wp_run: "wp m (\<lambda>r w'. run_state m w = (r, w')) w"
  by (simp add: wp_def split: prod.split)

lemma wp_fetch_manifest:
  "wp (fetch_manifest env cfg tr st software version) (\<lambda>r w'. same_files w w' \<and>
     (case r of Inl _ \<Rightarrow> True
      | Inr (m, pub) \<Rightarrow> authentic env (cf_TrustedPubKeys cfg) st software version m pub)) w"
proof -
  let ?m = "GetManifest env tr software version"
  have k: "wp ?m (\<lambda>r w'. same_files w w' \<and> run_state ?m w = (r, w')) w"
    by (rule wp_keeps [OF keeps_endpoint [OF one_request_endpoints(1)] wp_run])
  show ?thesis
    unfolding fetch_manifest_def
  proof (rule wp_attemptI [OF k], goal_cases)
    case (2 x w1)
    then show ?case
      by (cases x) (auto simp: wp_simps intro: authenticI split: sum.split)
  qed simp
qed

text \<open>The identifier and the token a client goes on with: the recorded ones, or when there is no token
  those the server gives for the install token.\<close>

definition granted :: "env \<Rightarrow> config \<Rightarrow> cstate \<Rightarrow> string \<Rightarrow> string \<Rightarrow> bool" where
  "granted env cfg st cid bt \<longleftrightarrow>
     (cid = s_ClientID st \<and> bt = s_BearerToken st) \<or>
     (s_BearerToken st = [] \<and>
      (\<exists>tr ex w w'. run_state (ExchangeInstallToken env tr (cf_InstallToken cfg) (cf_Hwinfo cfg)) w = (Inr ex, w') \<and>
         cid = x_ClientID ex \<and> bt = x_BearerToken ex))"

lemma wp_resolve_auth:
  "wp (resolve_auth env cfg tr st) (\<lambda>r w'. same_files w w' \<and>
     (case r of Inl _ \<Rightarrow> True
      | Inr (tr', st') \<Rightarrow> \<exists>cid bt. granted env cfg st cid bt \<and>
          st' = st\<lparr>s_ClientID := cid, s_BearerToken := bt\<rparr>)) w"
proof -
  have eq: "\<exists>cid bt. granted env cfg st cid bt \<and> st = st\<lparr>s_ClientID := cid, s_BearerToken := bt\<rparr>"
    by (rule exI [of _ "s_ClientID st"], rule exI [of _ "s_BearerToken st"]) (simp add: granted_def)
  let ?m = "ExchangeInstallToken env tr (cf_InstallToken cfg) (cf_Hwinfo cfg)"
  have k: "wp ?m (\<lambda>r w'. same_files w w' \<and> run_state ?m w = (r, w')) w"
    by (rule wp_keeps [OF keeps_endpoint [OF one_request_endpoints(9)] wp_run])
  have "wp (attempt ?m (\<lambda>ex.
          ok (tr\<lparr>Auth := x_BearerToken ex\<rparr>,
              st\<lparr>s_ClientID := x_ClientID ex, s_BearerToken := x_BearerToken ex\<rparr>)))
     (\<lambda>r w'. same_files w w' \<and> (case r of Inl _ \<Rightarrow> True
      | Inr (tr', st') \<Rightarrow> \<exists>cid bt. granted env cfg st cid bt \<and>
          st' = st\<lparr>s_ClientID := cid, s_BearerToken := bt\<rparr>)) w" if "s_BearerToken st = []"
  proof (rule wp_attemptI [OF k], goal_cases)
    case (2 ex w1)
    then have "granted env cfg st (x_ClientID ex) (x_BearerToken ex)"
      using that by (auto simp: granted_def)
    with 2 show ?case by (auto simp: wp_simps)
  qed simp
  then show ?thesis
    unfolding resolve_auth_def using eq by (simp add: wp_simps)
qed

lemma keeps_resolve_version: "keeps same_files (resolve_version env tr software version)"
  unfolding resolve_version_def
  by (intro sf.keeps_rules keeps_endpoint [OF one_request_endpoints(3)])

text \<open>With no slash in the two versions the blob obtained is the manifest's.\<close>

lemma obtain_blob_frame:
  assumes "layout_at env l r" and "slash \<notin> set version" and "slash \<notin> set (s_Current st)"
  shows "keeps (frame (- pointers r)) (obtain_blob env cfg tr l st m version)"
proof -
  have b: "{at env (BlobPath l version), at env (BlobPath l version @ ''.part'')} \<subseteq> - pointers r"
    using at_BlobPath [OF assms(1,2)] at_BlobPath_part [OF assms(1,2)] by simp
  have p: "{at env (patch_path l (s_Current st) version), at env (patch_path l (s_Current st) version @ ''.part'')}
      \<subseteq> - pointers r"
    using patch_path_locs [OF assms(1,3,2)] by simp
  show ?thesis
    unfolding obtain_blob_def try_patch_def Let_def
    by (intro keeps_intros blob.touches patch.touches patched.touches b p)
qed

lemma wp_try_patch:
  assumes "named (BlobPath l version)"
  shows "wp (try_patch env cfg tr l st m version) (\<lambda>r w'. case r of
     Inr True \<Rightarrow> has_hash env w' (at env (BlobPath l version)) (b_SHA256 (m_Blob m)) | _ \<Rightarrow> True) w"
proof -
  have final: "wp (attempt (Apply env old p (BlobPath l version) (b_SHA256 (m_Blob m)) pt) (\<lambda>_. ok True))
      (\<lambda>r w'. case r of Inr True \<Rightarrow> has_hash env w' (at env (BlobPath l version)) (b_SHA256 (m_Blob m))
       | _ \<Rightarrow> True) w1" for old p pt w1
    by (rule wp_attemptI [OF patched.spec [OF assms]]) (auto simp: wp_simps)
  show ?thesis
  proof (cases "s_Current st \<noteq> [] \<and> s_Current st \<noteq> version")
    case False
    then show ?thesis by (auto simp: try_patch_def wp_ok)
  next
    case True
    show ?thesis
      unfolding try_patch_def Let_def if_P [OF True]
    proof (rule wp_bindI [OF wp_True], goal_cases)
      case (1 r w1)
      show ?case
      proof (cases r)
        case (Inr n)
        show ?thesis
        proof (cases "pickPatch (PatchesIn m) (s_Current st) (b_Size (m_Blob m)) (fallbackRatio cfg)")
          case (Some pref)
          show ?thesis
            unfolding Inr Some sum.case option.case
            by (rule wp_attempt_asI [OF wp_True]) (simp_all add: final)
        qed (simp add: Inr wp_ok)
      qed (simp add: wp_ok)
    qed
  qed
qed

lemma wp_obtain_blob:
  assumes "named (BlobPath l version)"
  shows "wp (obtain_blob env cfg tr l st m version) (\<lambda>r w'. case r of
     Inl _ \<Rightarrow> True | Inr _ \<Rightarrow> has_hash env w' (at env (BlobPath l version)) (b_SHA256 (m_Blob m))) w"
  unfolding obtain_blob_def
proof (rule wp_attemptI [OF wp_try_patch [OF assms]], goal_cases)
  case (2 transferred w1)
  have "wp (attempt (DownloadBlob env tr (b_SHA256 (m_Blob m)) (BlobPath l version)) (\<lambda>_. ok ()))
     (\<lambda>r w'. case r of Inl _ \<Rightarrow> True
       | Inr _ \<Rightarrow> has_hash env w' (at env (BlobPath l version)) (b_SHA256 (m_Blob m))) w1"
    by (rule wp_attemptI [OF blob.spec [OF assms]]) (auto simp: wp_simps)
  with 2 show ?case by (auto simp: wp_ok)
qed simp

text \<open>The distribution directory holds the files of an archive with the manifest's hash.\<close>

definition unpacked :: "env \<Rightarrow> layout \<Rightarrow> string \<Rightarrow> Manifest \<Rightarrow> world \<Rightarrow> bool" where
  "unpacked env l version m w \<longleftrightarrow>
     (\<exists>data. hex_encode (e_sha256 env data) = b_SHA256 (m_Blob m) \<and> snd (e_untar env data) = None \<and>
        (\<forall>h \<in> set (fst (e_untar env data)). h_regular h \<longrightarrow> safeName (h_name h) = Inr ()) \<and>
        files_hold (archive_files (at env (DistributionDir l version)) Map.empty (fst (e_untar env data))) w)"

lemma unpack_frame:
  assumes "layout_at env l r" and "slash \<notin> set version" and "\<forall>c \<in> set (e_cwd env). plain c"
  shows "keeps (only_inside (r @ [''distribution-'' @ version])) (unpack env l version)"
proof -
  let ?d = "DistributionDir l version"
  have at: "at env ?d = r @ [''distribution-'' @ version]" by (rule at_DistributionDir [OF assms(1,2)])
  have ra: "keeps (only_inside (at env ?d)) (os_remove_all env ?d)"
    by (intro keeps_only_inside keeps_remove_all) simp
  have mk: "keeps (only_inside (at env ?d)) (os_mkdir_all env ?d)"
    by (rule keeps_only_inside_mkdir_all [of env ?d "at env ?d"]) simp_all
  have rd: "keeps (only_inside (at env ?d)) (os_read_file env p)" "keeps (only_inside (at env ?d)) (os_close env p)" for p
    by (intro keeps_only_inside keeps_intros)+
  show ?thesis
    unfolding unpack_def Let_def at [symmetric]
    by (intro oi.keeps_rules ra mk rd keeps_Extract [OF assms(3)])
qed

lemma mkdirs_cut: "\<exists>e. mkdirs (Some 0) ds t = (Some e, t)"
  by (induction ds) (auto split: option.split node.split)

text \<open>When the machine stops after the first call of \<open>unpack\<close>, the directory is gone.\<close>

lemma unpack_cut:
  assumes "layout_at env l r" and "slash \<notin> set v" and "e_fault env (w_ops w) = None"
    and "e_fault env (Suc (w_ops w)) = Some 0"
  shows "wp (unpack env l v) (\<lambda>res w'. \<not> is_ok res \<and>
     (\<forall>k. look w' k = (if under (r @ [''distribution-'' @ v]) k then None else look w k))) w"
proof -
  let ?d = "DistributionDir l v" and ?D = "r @ [''distribution-'' @ v]"
  have at: "at env ?d = ?D" by (rule at_DistributionDir [OF assms(1,2)])
  have 1: "wp (os_remove_all env ?d) (\<lambda>_ w1. w_ops w1 = Suc (w_ops w) \<and>
      (\<forall>k. look w1 k = (if under ?D k then None else look w k))) w"
    using assms(3) by (auto intro!: wpI simp: os_remove_all_def run_state_fs_op Let_def t_remove_all_def at look_def)
  have 2: "wp (os_mkdir_all env ?d) (\<lambda>x w2. \<not> is_ok x \<and> (\<forall>k. look w2 k = look w1 k)) w1"
    if "w_ops w1 = Suc (w_ops w)" for w1
    using assms(4) mkdirs_cut [of "prefixes_of (at env ?d)" "w_tree w1"] that
    by (auto intro!: wpI simp: os_mkdir_all_def run_state_fs_op Let_def t_mkdir_all_def look_def split: prod.splits)
  show ?thesis
    unfolding unpack_def Let_def
    by (rule wp_bindI [OF 1], rule wp_attempt_asI [OF 2]) auto
qed

lemma wp_unpack:
  assumes "layout_at env l r" and "slash \<notin> set version" and "\<forall>c \<in> set (e_cwd env). plain c"
    and "has_hash env w (at env (BlobPath l version)) (b_SHA256 (m_Blob m))"
  shows "wp (unpack env l version) (\<lambda>r w'. case r of Inl _ \<Rightarrow> True | Inr _ \<Rightarrow> unpacked env l version m w') w"
proof -
  let ?d = "DistributionDir l version" and ?b = "BlobPath l version"
  have at: "at env ?d = r @ [''distribution-'' @ version]" by (rule at_DistributionDir [OF assms(1,2)])
  have out: "\<not> under (at env ?d) (at env ?b) \<and> \<not> under (at env ?b) (at env ?d)"
    using at at_BlobPath [OF assms(1,2)] by (auto simp: under_def)
  obtain fm d where d: "look w (at env ?b) = Some (FileNode fm d)" "hex_encode (e_sha256 env d) = b_SHA256 (m_Blob m)"
    using assms(4) by (auto simp: has_hash_def)
  have ra: "keeps (only_inside (at env ?d)) (os_remove_all env ?d)"
    by (intro keeps_only_inside keeps_remove_all) simp
  have mk: "keeps (only_inside (at env ?d)) (os_mkdir_all env ?d)"
    by (rule keeps_only_inside_mkdir_all [of env ?d "at env ?d"]) simp_all
  show ?thesis
    unfolding unpack_def Let_def
  proof (rule wp_bindI [OF keeps_wp [OF ra]], rule wp_attempt_asI [OF keeps_wp [OF mk]], goal_cases)
    case (2 r1 w1 u w2)
    then have "look w2 (at env ?b) = Some (FileNode fm d)"
      using out d(1) oi.trans unfolding only_inside_def by (metis option.distinct(1))
    then show ?case
    proof (intro wp_attempt_asI [OF wp_os_read_file], goal_cases)
      case (2 bf w3)
      then have bf: "bf = d" by simp
      show ?case
        unfolding bf
      proof (rule wp_bindI [OF wp_Extract [OF assms(3)]], rule wp_bindI [OF wp_os_close], goal_cases)
        case (1 r4 w4 c w5)
        then show ?case
          using d(2) by (auto simp: wp_fail wp_return unpacked_def split: sum.splits intro: holds_same)
      qed
    qed simp
  qed simp
qed


subsection \<open>The distribution after it was unpacked\<close>

lemma safeName_no_dots: "safeName n = Inr () \<Longrightarrow> ''..'' \<notin> set (path_comps n)"
  using dotdot_Clean [of n]
  by (auto simp: safeName_def dotdot_def IsAbs_def Let_def split: if_splits option.splits)

lemma resolve_safeName:
  assumes "safeName n = Inr ()"
  shows "under R (resolve R (splitOn slash n))"
proof -
  have "\<not> IsAbs n" using assms by (auto simp: safeName_def IsAbs_def split: if_splits)
  then have "resolve R (splitOn slash n) = resolve R (path_comps n)"
    using resolve_clean_comps [of False R n] by (simp add: path_comps_def)
  also have "\<dots> = R @ path_comps n"
    using safeName_no_dots [OF assms] clean_stack_foldl [of "IsAbs n" "[]" "splitOn slash n"] splitOn_no_sep
    by (intro resolve_plain_comps) (auto simp: path_comps_def clean_comps_def clean_stack_def)
  finally show ?thesis by simp
qed

lemma archive_files_under:
  assumes "\<forall>h \<in> set hs. h_regular h \<longrightarrow> safeName (h_name h) = Inr ()"
    and "\<And>l d. fs l = Some d \<Longrightarrow> under R l" and "archive_files R fs hs l = Some d"
  shows "under R l"
  using assms
proof (induction hs arbitrary: fs)
  case (Cons h hs)
  let ?fs = "if h_regular h then fs(resolve R (splitOn slash (h_name h)) \<mapsto> body_bytes (h_body h)) else fs"
  have "under R l" if "?fs l = Some d" for l d
    using that Cons.prems(1,2) resolve_safeName by (auto split: if_splits)
  then show ?case
    using Cons.IH [of ?fs] Cons.prems by simp
qed simp

lemma unpacked_frame:
  assumes "unpacked env l version m w" and "frame L w w'"
    and "\<And>k. k \<in> L \<Longrightarrow> \<not> under (at env (DistributionDir l version)) k"
  shows "unpacked env l version m w'"
proof -
  let ?D = "at env (DistributionDir l version)"
  obtain data where data: "hex_encode (e_sha256 env data) = b_SHA256 (m_Blob m)" "snd (e_untar env data) = None"
    "\<forall>h \<in> set (fst (e_untar env data)). h_regular h \<longrightarrow> safeName (h_name h) = Inr ()"
    "files_hold (archive_files ?D Map.empty (fst (e_untar env data))) w"
    using assms(1) by (auto simp: unpacked_def)
  have "look w' k = look w k" if "archive_files ?D Map.empty (fst (e_untar env data)) k = Some d" for k d
    using archive_files_under [OF data(3) _ that] assms(2,3) by (auto dest: frameD)
  then have "files_hold (archive_files ?D Map.empty (fst (e_untar env data))) w'"
    using data(4) by (auto simp: files_hold_def)
  with data show ?thesis by (auto simp: unpacked_def)
qed

lemma dist_apart:
  assumes "k \<in> pointers r \<or> k = r @ [''state.json.tmp'']"
  shows "\<not> under (r @ [''distribution-'' @ v]) k"
  using assms by (auto simp: pointers_iff under_def)


subsection \<open>The commit\<close>

text \<open>What the retention may remove.\<close>

definition prune_locs :: "loc \<Rightarrow> cstate \<Rightarrow> loc set" where
  "prune_locs r st =
     {k. \<exists>x \<in> {''blobs'', ''patches''} \<union> (\<lambda>h. ''distribution-'' @ h @ ''.archived'') ` set (s_History st).
        under (r @ [x]) k}"

lemma older_in_history: "older_version st = Some h \<Longrightarrow> h \<in> set (s_History st)"
  by (auto simp: older_version_def split: if_splits)

lemma wp_os_read_dir_plain:
  "wp (os_read_dir env p) (\<lambda>r w'. same_files w w' \<and>
     (case r of Inl _ \<Rightarrow> True | Inr es \<Rightarrow> \<forall>e \<in> set es. plain (fst e))) w"
  by (intro wp_keeps keeps_same_files wpI)
    (auto simp: os_read_dir_def run_state_fs_op Let_def t_read_dir_def child_names_def
      split: option.splits node.splits prod.splits sum.splits)

lemma keeps_remove_patches:
  assumes "layout_at env l r" and "\<And>n. r @ [''patches'', n] \<in> L" and "\<forall>e \<in> set es. plain (fst e)"
  shows "keeps (frame L) (remove_patches env l pre es)"
  using assms(3)
proof (induction es)
  case (Cons e es)
  obtain n nd where e: "e = (n, nd)" by (cases e)
  have ne: "PatchesDir l \<noteq> []" using assms by (simp add: layout_at_def Join_pair_not_Nil del: Join.simps)
  have "at env (Join [PatchesDir l, n]) = r @ [''patches'', n]"
    using loc_of_Join_plain [OF ne, of n] Cons.prems e layout_locs0(5) [OF assms(1)] by simp
  then have "keeps (frame L) (os_remove env (Join [PatchesDir l, n]))"
    using assms(2) by (intro keeps_remove) (simp del: Join.simps)
  with Cons e show ?case by (auto intro!: fr.keeps_rules simp del: Join.simps)
qed (simp add: fr.keeps_return)

text \<open>What the retention does once the blob is gone.\<close>

lemma wp_prune_rest:
  assumes l: "layout_at env l r" and h: "slash \<notin> set h"
  shows "wp (do {
        _ \<leftarrow> os_remove_all env (Join [Root l, ''distribution-'' @ h @ ''.archived'']);
        x \<leftarrow> os_read_dir env (PatchesDir l);
        case x of
          Inl _ \<Rightarrow> State_Monad.return ()
        | Inr entries \<Rightarrow> remove_patches env l (h @ ''-to-'') entries })
     (\<lambda>_ w'. frame {k. under (r @ [''patches'']) k \<or> under (r @ [''distribution-'' @ h @ ''.archived'']) k} w w') w"
    (is "wp _ (\<lambda>_ w'. frame ?L w w') w")
proof -
  have sl: "slash \<notin> set (h @ ''.archived'')" using h by auto
  have "at env (DistributionDir l (h @ ''.archived'')) = r @ [''distribution-'' @ h @ ''.archived'']"
    by (rule at_DistributionDir [OF l sl])
  then have d: "keeps (frame ?L) (os_remove_all env (DistributionDir l (h @ ''.archived'')))"
    by (intro keeps_remove_all) auto
  have p: "r @ [''patches'', n] \<in> ?L" for n by (simp add: under_def)
  have es: "wp (case x of Inl _ \<Rightarrow> State_Monad.return ()
      | Inr entries \<Rightarrow> remove_patches env l (h @ ''-to-'') entries) (\<lambda>_ w'. frame ?L w1 w') w1"
    if "case x of Inl _ \<Rightarrow> True | Inr es \<Rightarrow> \<forall>e \<in> set es. plain (fst e)" for x :: "(string \<times> node) list res" and w1
  proof (cases x)
    case (Inr es)
    have "keeps (frame ?L) (remove_patches env l (h @ ''-to-'') es)"
      by (rule keeps_remove_patches [OF l p]) (use that Inr in simp)
    then show ?thesis unfolding Inr sum.case by (rule keeps_wp)
  qed (simp add: wp_return fr.refl)
  show ?thesis
    apply (rule wp_bindI [OF keeps_wp [OF d [unfolded DistributionDir_def]]])
    apply (rule wp_bindI [OF wp_os_read_dir_plain])
    apply (rule wp_mono [OF es])
     apply simp
    subgoal premises p for _ w1 _ w2 _ w3
      by (rule fr.trans [OF p(1) fr.trans [OF same_files_frame [OF conjunct1 [OF p(2)]] p(3)]])
    done
qed

lemma wp_prune:
  assumes "layout_at env l r" and "\<forall>h \<in> set (s_History st). slash \<notin> set h"
  shows "wp (pruneOldArtefacts env l st) (\<lambda>_ w'. frame (prune_locs r st) w w') w"
proof (cases "older_version st")
  case None
  then show ?thesis by (simp add: pruneOldArtefacts_def wp_return fr.refl)
next
  case (Some h)
  have h: "h \<in> set (s_History st)" by (rule older_in_history [OF Some])
  then have sl: "slash \<notin> set h" using assms(2) by auto
  let ?L = "prune_locs r st"
  have "at env (BlobPath l h) = r @ [''blobs'', h @ ''.blob'']" by (rule at_BlobPath [OF assms(1) sl])
  then have b: "keeps (frame ?L) (os_remove_all env (BlobPath l h))"
    by (intro keeps_remove_all) (auto simp: prune_locs_def under_iff)
  have sub: "frame {k. under (r @ [''patches'']) k \<or> under (r @ [''distribution-'' @ h @ ''.archived'']) k} w1 w2 \<Longrightarrow>
      frame ?L w1 w2" for w1 w2
    by (erule frame_mono) (use h in \<open>auto simp: prune_locs_def\<close>)
  show ?thesis
    unfolding pruneOldArtefacts_def Some option.case
    by (rule wp_bindI [OF keeps_wp [OF b]], rule wp_mono [OF wp_prune_rest [OF assms(1) sl]])
      (blast intro: fr.trans sub)
qed

text \<open>The blob of the version that is the older one for the retention is gone afterwards, unless that
  one call fails.\<close>

lemma prune_removes_blob:
  assumes l: "layout_at env l r" and h: "older_version st = Some h" "slash \<notin> set h"
    and "e_fault env (w_ops w) = None"
  shows "look (snd (run_state (pruneOldArtefacts env l st) w)) (r @ [''blobs'', h @ ''.blob'']) = None"
proof -
  let ?b = "r @ [''blobs'', h @ ''.blob'']"
  have at: "at env (BlobPath l h) = ?b" by (rule at_BlobPath [OF l h(2)])
  have b: "wp (os_remove_all env (BlobPath l h)) (\<lambda>_ w1. look w1 ?b = None) w"
    using assms(4) by (auto intro!: wpI simp: os_remove_all_def run_state_fs_op Let_def t_remove_all_def at look_def)
  have out: "?b \<notin> {k. under (r @ [''patches'']) k \<or> under (r @ [''distribution-'' @ h @ ''.archived'']) k}"
    by (auto simp: under_def)
  have "wp (pruneOldArtefacts env l st) (\<lambda>_ w'. look w' ?b = None) w"
    unfolding pruneOldArtefacts_def h(1) option.case
    by (rule wp_bindI [OF b], rule wp_mono [OF wp_prune_rest [OF l h(2)]]) (use out in \<open>auto dest: frameD\<close>)
  then show ?thesis by (simp add: wp_def split: prod.splits)
qed


text \<open>The record and the links after the commit.\<close>

lemma install_record_fields [simp]:
  "s_Current (install_record st sw v url pub os arch) = v"
  "s_ServerPubKeyHX (install_record st sw v url pub os arch) = pub"
  "set (s_History (install_record st sw v url pub os arch)) \<subseteq> insert v (set (s_History st))"
  by (auto simp: install_record_def Let_def)

definition committed ::
  "env \<Rightarrow> config \<Rightarrow> loc \<Rightarrow> string \<Rightarrow> cstate \<Rightarrow> Manifest \<Rightarrow> string \<Rightarrow> string \<Rightarrow> world \<Rightarrow> bool"
where
  "committed env cfg r sw st m v pub w \<longleftrightarrow>
     (\<exists>cid bt n fm. granted env cfg st cid bt \<and>
        look w (r @ [''state.json'']) = Some (FileNode fm (enc_state
          ((install_record (st\<lparr>s_ClientID := cid, s_BearerToken := bt\<rparr>) sw v (cf_ServerURL cfg) pub
              (m_OS m) (m_Arch m))\<lparr>s_UpdatedAt := e_now env n\<rparr>))))"

lemma wp_commit:
  assumes l: "layout_at env l r" and v: "slash \<notin> set v" "\<not> hasSuffix v ''.archived''" "v \<noteq> []"
    and hist: "\<forall>h \<in> set (s_History st). slash \<notin> set h"
    and st: "st = st0\<lparr>s_ClientID := cid, s_BearerToken := bt\<rparr>" and g: "granted env cfg st0 cid bt"
    and u: "unpacked env l v m w"
  shows "wp (commit env cfg tr l st m pub sw v) (\<lambda>res w'. unpacked env l v m w' \<and>
     (\<forall>k \<in> flip_locs r. look w' k = look w k) \<and>
     (case res of Inl _ \<Rightarrow> look w' (r @ [''state.json'']) = look w (r @ [''state.json''])
      | Inr v' \<Rightarrow> v' = v \<and> committed env cfg r sw st0 m v pub w')) w"
proof -
  let ?st = "install_record st sw v (cf_ServerURL cfg) pub (m_OS m) (m_Arch m)"
  let ?s = "r @ [''state.json'']" and ?t = "r @ [''state.json.tmp'']"
  have sl: "at env (StateFile l) = ?s" "at env (StateFile l @ ''.tmp'') = ?t"
    using layout_locs0(1) [OF l] layout_locs(1) [OF l, of "''.tmp''"] by simp_all
  have D: "at env (DistributionDir l v) = r @ [''distribution-'' @ v]" by (rule at_DistributionDir [OF l v(1)])
  have hist': "\<forall>h \<in> set (s_History ?st). slash \<notin> set h"
    using hist v(1) install_record_fields(3) by blast
  have pl: "\<not> under (at env (DistributionDir l v)) k" if "k \<in> prune_locs r ?st" for k
    using that v(2) by (auto simp: prune_locs_def D under_iff hasSuffix_def)
  have pf: "k \<notin> prune_locs r ?st" if "k \<in> pointers r" for k
    using that by (auto simp: prune_locs_def under_def pointers_iff)
  have save: "wp (Save env l ?st) (\<lambda>x w1. frame {?s, ?t} w w1 \<and>
     (case x of Inl _ \<Rightarrow> look w1 ?s = look w ?s
      | Inr _ \<Rightarrow> \<exists>fm. look w1 ?s = Some (FileNode fm (enc_state (?st\<lparr>s_UpdatedAt := e_now env (w_ops w)\<rparr>))))) w"
    by (rule wp_Save [OF layout_named(1) [OF l], of env ?st w, unfolded sl])
  have c: "committed env cfg r sw st0 m v pub w2"
    if "look w2 ?s = Some (FileNode fm (enc_state (?st\<lparr>s_UpdatedAt := e_now env n\<rparr>)))" for w2 fm n
    unfolding committed_def using that g st by blast
  have fl: "?s \<in> pointers r" "flip_locs r \<subseteq> pointers r" "?s \<notin> flip_locs r" "?t \<notin> flip_locs r"
    by (auto simp: pointers_def flip_locs_def)
  have keep: "unpacked env l v m w1 \<and> (\<forall>k \<in> flip_locs r. look w1 k = look w k)" if f: "frame {?s, ?t} w w1" for w1
  proof
    show "unpacked env l v m w1"
      by (rule unpacked_frame [OF u f]) (use dist_apart [of _ r v] in \<open>auto simp: D pointers_def\<close>)
    show "\<forall>k \<in> flip_locs r. look w1 k = look w k"
      using frameD [OF f] fl(3,4) by (metis empty_iff insert_iff)
  qed
  show ?thesis
    unfolding commit_def Let_def
  proof (rule wp_attemptI [OF save], goal_cases)
    case (1 e w1)
    then show ?case using keep [of w1] by simp
  next
    case (2 x w1)
    then have u1: "unpacked env l v m w1" "\<forall>k \<in> flip_locs r. look w1 k = look w k"
      using keep [of w1] by simp_all
    show ?case
    proof (rule wp_bindI [OF wp_prune [OF l hist']], goal_cases)
      case (1 y w2)
      then have u2: "unpacked env l v m w2" by (rule unpacked_frame [OF u1(1)]) (rule pl)
      have k2: "look w2 k = look w1 k" if "k \<in> pointers r" for k
        using 1 pf [OF that] by (rule frameD)
      show ?case
        unfolding report_install_def Let_def
      proof (rule wp_bindI [OF keeps_wp [OF keeps_endpoint [OF one_request_endpoints(10)]]], goal_cases)
        case (1 z w3)
        then have w3: "look w3 k = look w2 k" for k by (rule same_files_look)
        have "unpacked env l v m w3"
          using u2 w3 by (auto simp: unpacked_def files_hold_def)
        moreover have "committed env cfg r sw st0 m v pub w3"
          using 2 w3 k2 [OF fl(1)] by (auto intro: c)
        moreover have "\<forall>k \<in> flip_locs r. look w3 k = look w k"
          using w3 k2 fl(2) u1(2) by auto
        ultimately show ?case by (simp add: wp_ok)
      qed
    qed
  qed
qed


subsection \<open>The outcome of Install\<close>

definition home_of :: "env \<Rightarrow> config \<Rightarrow> string" where
  "home_of env cfg = (if cf_OTAHome cfg = [] then defaultOTAHome env else cf_OTAHome cfg)"

definition sane_record :: "env \<Rightarrow> layout \<Rightarrow> world \<Rightarrow> bool" where
  "sane_record env l w \<longleftrightarrow> (\<forall>st. recorded env l w st \<longrightarrow>
     slash \<notin> set (s_Current st) \<and> (\<forall>h \<in> set (s_History st). slash \<notin> set h))"

text \<open>A version that is one path component and does not look archived.\<close>

definition single :: "string \<Rightarrow> bool" where
  "single v \<longleftrightarrow> slash \<notin> set v \<and> \<not> hasSuffix v ''.archived''"

text \<open>The version a call goes for: the one it was asked for, or one this server names as the latest.\<close>

definition names_version :: "env \<Rightarrow> string \<Rightarrow> string \<Rightarrow> string \<Rightarrow> bool" where
  "names_version env software version v \<longleftrightarrow>
     (\<exists>tr w w'. run_state (resolve_version env tr software version) w = (Inr v, w'))"

text \<open>The releases a call can come to accept, given its request, this server's replies and what the
  record and the trusted set let through, all satisfy \<open>P\<close>. What others sign with keys of their own,
  and what this server never sends, is not restricted.\<close>

definition offers_only ::
  "(Manifest \<Rightarrow> bool) \<Rightarrow> env \<Rightarrow> config \<Rightarrow> layout \<Rightarrow> string \<Rightarrow> string \<Rightarrow> world \<Rightarrow> bool"
where
  "offers_only P env cfg l software version w \<longleftrightarrow>
     (\<forall>st v m pub. recorded env l w st \<longrightarrow> names_version env software version v \<longrightarrow>
        authentic env (cf_TrustedPubKeys cfg) st software v m pub \<longrightarrow> P m)"

abbreviation single_release :: "Manifest \<Rightarrow> bool" where
  "single_release m \<equiv> single (Manifest.Version m)"

lemma names_version_explicit:
  "version \<noteq> [] \<Longrightarrow> version \<noteq> ''latest'' \<Longrightarrow> names_version env software version v \<Longrightarrow> v = version"
  by (auto simp: names_version_def resolve_version_def)

text \<open>For a version given by name that is a matter of the name alone.\<close>

lemma offers_only_explicit:
  assumes "version \<noteq> []" and "version \<noteq> ''latest''" and "single version"
  shows "offers_only single_release env cfg l software version w"
  using assms names_version_explicit [OF assms(1,2)] by (auto simp: offers_only_def authentic_def)

definition dist_target :: "env \<Rightarrow> layout \<Rightarrow> string \<Rightarrow> string" where
  "dist_target env l v =
     (case Abs env (absDistributionDir env l v) of Inl _ \<Rightarrow> [] | Inr d \<Rightarrow> d)"

definition current_names :: "env \<Rightarrow> layout \<Rightarrow> string \<Rightarrow> world \<Rightarrow> bool" where
  "current_names env l dest w \<longleftrightarrow>
     look w (at env (CurrentSymlink l)) = Some (LinkNode dest) \<or>
     (\<exists>m. look w (at env (CurrentSymlink l @ shimSuffix)) = Some (FileNode m (bytes_of (dest @ newline))))"

definition untouched :: "loc \<Rightarrow> world \<Rightarrow> world \<Rightarrow> bool" where
  "untouched r w w' \<longleftrightarrow> (\<forall>k \<in> pointers r. look w' k = look w k)"

text \<open>Version \<open>v\<close> of the authentic manifest \<open>m\<close> has been unpacked and the links given to the flip.\<close>

definition switched ::
  "env \<Rightarrow> config \<Rightarrow> layout \<Rightarrow> loc \<Rightarrow> string \<Rightarrow> cstate \<Rightarrow> string \<Rightarrow> Manifest \<Rightarrow> string \<Rightarrow>
   world \<Rightarrow> string res \<Rightarrow> world \<Rightarrow> bool"
where
  "switched env cfg l r software st v m pub w res w' \<longleftrightarrow>
     v \<noteq> [] \<and> authentic env (cf_TrustedPubKeys cfg) st software v m pub \<and> unpacked env l v m w' \<and>
     targets env (CurrentSymlink l) w' \<subseteq> targets env (CurrentSymlink l) w \<union>
       {dist_target env l v, trimRight (dist_target env l v) shim_trim} \<and>
     targets env (PreviousSymlink l) w' \<subseteq>
       targets env (PreviousSymlink l) w \<union> targets env (CurrentSymlink l) w \<and>
     (case res of
        Inl _ \<Rightarrow> look w' (r @ [''state.json'']) = look w (r @ [''state.json''])
      | Inr v' \<Rightarrow> v' = v \<and> committed env cfg r software st m v pub w' \<and> current_names env l (dist_target env l v) w')"

definition install_outcome ::
  "env \<Rightarrow> config \<Rightarrow> layout \<Rightarrow> loc \<Rightarrow> string \<Rightarrow> string \<Rightarrow> world \<Rightarrow> string res \<Rightarrow> world \<Rightarrow> bool"
where
  "install_outcome env cfg l r software version w res w' \<longleftrightarrow>
     (\<not> is_ok res \<and> untouched r w w') \<or>
     (\<exists>st v m pub. recorded env l w st \<and> names_version env software version v \<and> switched env cfg l r software st v m pub w res w')"

lemma Abs_ok: "e_getwd_ok env \<Longrightarrow> \<exists>q. Abs env p = Inr q"
  by (simp add: Abs_def)

lemma untouched_frame: "frame (- pointers r) w w' = untouched r w w'"
  by (auto simp: frame_def untouched_def)

lemma wp_flip_commit:
  assumes l: "layout_at env l r" and wd: "e_getwd_ok env"
    and v: "slash \<notin> set v" "\<not> hasSuffix v ''.archived''" "v \<noteq> []"
    and hist: "\<forall>h \<in> set (s_History st). slash \<notin> set h"
    and st: "st = st0\<lparr>s_ClientID := cid, s_BearerToken := bt\<rparr>" and g: "granted env cfg st0 cid bt"
    and u: "unpacked env l v m w1"
    and a: "authentic env (cf_TrustedPubKeys cfg) st0 software v m pub" and un: "untouched r w w1"
    and rec: "recorded env l w st0" and nv: "names_version env software version v"
  shows "wp (attempt (FlipCurrent env l v) (\<lambda>_. commit env cfg tr l st m pub software v))
     (install_outcome env cfg l r software version w) w1"
proof -
  obtain dest where dest: "Abs env (absDistributionDir env l v) = Inr dest" using Abs_ok [OF wd] by blast
  then have dt: "dist_target env l v = dest" by (simp add: dist_target_def)
  let ?c = "CurrentSymlink l" and ?p = "PreviousSymlink l"
  have cover: "link_locs env ?c \<union> {at env ?p, at env (?p @ shimSuffix)} = flip_locs r"
    by (rule flip_locs_cover [OF l])
  then have links: "at env ?c \<in> flip_locs r" "at env (?c @ shimSuffix) \<in> flip_locs r"
    "at env ?p \<in> flip_locs r" "at env (?p @ shimSuffix) \<in> flip_locs r"
    by (auto simp: link_locs_def)
  then have old: "targets env ?c w1 = targets env ?c w" "targets env ?p w1 = targets env ?p w"
    using un by (auto intro!: targets_same simp: untouched_def pointers_def)
  have s: "r @ [''state.json''] \<notin> flip_locs r" by (auto simp: flip_locs_def)
  have D: "at env (DistributionDir l v) = r @ [''distribution-'' @ v]" by (rule at_DistributionDir [OF l v(1)])
  have out: "install_outcome env cfg l r software version w res w3"
    if f: "frame (flip_locs r) w1 w2" and fp: "flip_post env l dest w1 x w2" and u3: "unpacked env l v m w3"
      and same: "\<forall>k \<in> flip_locs r. look w3 k = look w2 k"
      and res: "case res of Inl _ \<Rightarrow> look w3 (r @ [''state.json'']) = look w2 (r @ [''state.json''])
        | Inr v' \<Rightarrow> v' = v \<and> committed env cfg r software st0 m v pub w3" and x: "is_ok res \<longrightarrow> is_ok x" for res x w2 w3
  proof -
    have t3: "targets env ?c w3 = targets env ?c w2" "targets env ?p w3 = targets env ?p w2"
      using same links by (auto intro!: targets_same)
    have "look w2 (r @ [''state.json'']) = look w (r @ [''state.json''])"
      using frameD [OF f s] un by (simp add: untouched_def pointers_def)
    moreover have "is_ok res \<longrightarrow> current_names env l dest w3"
      using fp x same links by (auto simp: flip_post_def current_names_def)
    ultimately have "switched env cfg l r software st0 v m pub w res w3"
      using a v(3) u3 fp res unfolding switched_def flip_post_def dt old t3 by (cases res) simp_all
    with rec nv show ?thesis unfolding install_outcome_def by blast
  qed
  show ?thesis
  proof (rule wp_attemptI [OF wp_FlipCurrent [OF l dest]], goal_cases)
    case (1 e w2)
    then have f: "frame (flip_locs r) w1 w2" "flip_post env l dest w1 (Inl e) w2" by simp_all
    have "unpacked env l v m w2"
      by (rule unpacked_frame [OF u f(1)]) (use dist_apart [of _ r v] in \<open>auto simp: D pointers_def\<close>)
    from out [OF f this] show ?case by simp
  next
    case (2 x w2)
    then have f: "frame (flip_locs r) w1 w2" "flip_post env l dest w1 (Inr x) w2" by simp_all
    have u2: "unpacked env l v m w2"
      by (rule unpacked_frame [OF u f(1)]) (use dist_apart [of _ r v] in \<open>auto simp: D pointers_def\<close>)
    show ?case
      by (rule wp_mono [OF wp_commit [OF l v hist st g u2]]) (use out [OF f] in auto)
  qed
qed


text \<open>The action between the record and the flip: each step leaves links and record alone.\<close>

lemma untouched_trans: "untouched r w w1 \<Longrightarrow> untouched r w1 w2 \<Longrightarrow> untouched r w w2"
  by (simp add: untouched_def)

lemma untouched_same: "untouched r w w1 \<Longrightarrow> same_files w1 w2 \<Longrightarrow> untouched r w w2"
  by (simp add: untouched_def same_files_look [of w1 w2])

lemma outcome_failed: "untouched r w w' \<Longrightarrow> install_outcome env cfg l r software version w (Inl e) w'"
  by (simp add: install_outcome_def)

lemma wp_resolve_version:
  "wp (resolve_version env tr software version) (\<lambda>r w'. same_files w w' \<and>
     (case r of Inl _ \<Rightarrow> True | Inr v \<Rightarrow> v \<noteq> [] \<and> names_version env software version v)) w"
proof -
  let ?m = "resolve_version env tr software version"
  have n: "wp ?m (\<lambda>r w'. case r of Inl _ \<Rightarrow> True | Inr v \<Rightarrow> names_version env software version v) w"
    by (rule wp_mono [OF wp_run]) (auto simp: names_version_def split: sum.split)
  have v: "wp (resolve_version env tr software version) (\<lambda>r w'. case r of Inl _ \<Rightarrow> True | Inr v \<Rightarrow> v \<noteq> []) w"
    unfolding resolve_version_def wp_if
    by (auto simp: wp_ok intro!: wp_attemptI [OF wp_True] split: option.splits)
      (auto simp: wp_simps)
  show ?thesis
    by (rule wp_mono [OF wp_keeps [OF keeps_resolve_version wp_conj [OF n v]]]) (auto split: sum.split)
qed

lemma wp_from_manifest:
  assumes l: "layout_at env l r" and wd: "e_getwd_ok env" and cwd: "\<forall>c \<in> set (e_cwd env). plain c"
    and sv: "offers_only single_release env cfg l software version w" and nv: "names_version env software version v"
    and sr: "sane_record env l w" and rec: "recorded env l w st0"
    and st: "st = st0\<lparr>s_ClientID := cid, s_BearerToken := bt\<rparr>" and g: "granted env cfg st0 cid bt"
    and un: "untouched r w w1" and v: "v \<noteq> []"
  shows "wp (attempt (fetch_manifest env cfg tr st software v) (\<lambda>(m, pub).
      attempt (obtain_blob env cfg tr l st m v) (\<lambda>_. attempt (unpack env l v) (\<lambda>_.
      attempt (FlipCurrent env l v) (\<lambda>_. commit env cfg tr l st m pub software v)))))
     (install_outcome env cfg l r software version w) w1"
proof (rule wp_attemptI [OF wp_fetch_manifest], goal_cases)
  case (1 e w2)
  then show ?case using un by (auto intro: outcome_failed untouched_same)
next
  case (2 mp w2)
  obtain m pub where mp: "mp = (m, pub)" by (cases mp)
  with 2 have a: "authentic env (cf_TrustedPubKeys cfg) st software v m pub" and s2: "same_files w1 w2" by auto
  have "checkTrust st (cf_TrustedPubKeys cfg) pub = checkTrust st0 (cf_TrustedPubKeys cfg) pub"
    by (simp add: st checkTrust_def)
  with a have a0: "authentic env (cf_TrustedPubKeys cfg) st0 software v m pub"
    by (simp add: authentic_def)
  have single: "single_release m"
    using sv rec nv a0 unfolding offers_only_def by blast
  have vs: "slash \<notin> set v" "\<not> hasSuffix v ''.archived''"
    using single a0 by (auto simp: single_def authentic_def)
  have cs: "slash \<notin> set (s_Current st)" and hist: "\<forall>h \<in> set (s_History st). slash \<notin> set h"
    using sr rec st by (auto simp: sane_record_def)
  have un2: "untouched r w w2" by (rule untouched_same [OF un s2])
  note ob = wp_keeps [OF obtain_blob_frame [OF l vs(1) cs] wp_obtain_blob [OF named_BlobPath [OF l vs(1)]]]
  have up: "wp (attempt (unpack env l v) (\<lambda>_.
      attempt (FlipCurrent env l v) (\<lambda>_. commit env cfg tr l st m pub software v)))
      (install_outcome env cfg l r software version w) w3"
    if un3: "untouched r w w3" and hh: "has_hash env w3 (at env (BlobPath l v)) (b_SHA256 (m_Blob m))" for w3
  proof -
    have k: "keeps (frame (- pointers r)) (unpack env l v)"
      by (rule keeps_pointers_inside [OF unpack_frame [OF l vs(1) cwd] not_pointers(6)])
    show ?thesis
    proof (rule wp_attemptI [OF wp_keeps [OF k wp_unpack [OF l vs(1) cwd hh]]], goal_cases)
      case (1 e w4)
      then show ?case using un3 by (auto simp: untouched_frame intro: outcome_failed untouched_trans)
    next
      case (2 x w4)
      then have "unpacked env l v m w4" "untouched r w w4"
        using un3 by (auto simp: untouched_frame intro: untouched_trans)
      then show ?case by (rule wp_flip_commit [OF l wd vs v hist st g _ a0 _ rec nv])
    qed
  qed
  show ?case
    unfolding mp prod.case
  proof (rule wp_attemptI [OF ob], goal_cases)
    case (1 e w3)
    then show ?case using un2 by (auto simp: untouched_frame intro: outcome_failed untouched_trans)
  next
    case (2 x w3)
    then show ?case using un2 by (intro up) (auto simp: untouched_frame intro: untouched_trans)
  qed
qed

lemma committed_home: "committed env (cfg\<lparr>cf_OTAHome := h\<rparr>) = committed env cfg"
  by (intro ext) (simp add: committed_def granted_def)

lemma install_outcome_home: "install_outcome env (cfg\<lparr>cf_OTAHome := h\<rparr>) = install_outcome env cfg"
  by (intro ext) (unfold install_outcome_def switched_def committed_home, simp)

lemma wp_Install:
  assumes l: "layout_at env (New (home_of env cfg) software) r" and wd: "e_getwd_ok env"
    and cwd: "\<forall>c \<in> set (e_cwd env). plain c"
    and sv: "offers_only single_release env cfg (New (home_of env cfg) software) software version w"
    and sr: "sane_record env (New (home_of env cfg) software) w"
  shows "wp (Install env cfg software version)
    (install_outcome env cfg (New (home_of env cfg) software) r software version w) w"
proof (cases "cf_ServerURL cfg = []")
  case True
  then show ?thesis by (simp add: Install_def wp_fail install_outcome_def untouched_def)
next
  case False
  let ?l = "New (home_of env cfg) software"
  let ?cfg = "if cf_OTAHome cfg = [] then cfg\<lparr>cf_OTAHome := defaultOTAHome env\<rparr> else cfg"
  have cfg: "cf_TrustedPubKeys ?cfg = cf_TrustedPubKeys cfg" "New (cf_OTAHome ?cfg) software = ?l"
    by (simp_all add: home_of_def)
  have same: "install_outcome env ?cfg = install_outcome env cfg"
    by (simp add: install_outcome_home)
  have sv': "offers_only single_release env ?cfg ?l software version w"
    using sv by (simp add: offers_only_def)
  show ?thesis
    unfolding Install_def if_not_P [OF False] Let_def cfg(2)
  proof (rule wp_attemptI [OF keeps_wp [OF keeps_Ensure [OF l]]], goal_cases)
    case (1 e w1)
    then show ?case by (auto simp: untouched_frame intro: outcome_failed)
  next
    case (2 x w1)
    then have un1: "untouched r w w1" by (simp add: untouched_frame)
    show ?case
    proof (rule wp_attemptI [OF wp_Load], goal_cases)
      case (1 e w2)
      then show ?case using un1 by (auto intro: outcome_failed untouched_same)
    next
      case (2 st0 w2)
      then have un2: "untouched r w w2" using un1 by (auto intro: untouched_same)
      have rec: "recorded env ?l w st0"
        using 2 un1 layout_locs0(1) [OF l] by (auto simp: recorded_def untouched_def pointers_def)
      show ?case
      proof (rule wp_attemptI [OF wp_resolve_auth], goal_cases)
        case (1 e w3)
        then show ?case using un2 by (auto intro: outcome_failed untouched_same)
      next
        case (2 p w3)
        obtain tr st where p: "p = (tr, st)" by (cases p)
        with 2 obtain cid bt where st: "st = st0\<lparr>s_ClientID := cid, s_BearerToken := bt\<rparr>"
          and g: "granted env ?cfg st0 cid bt" by auto
        have un3: "untouched r w w3" using 2 un2 by (auto intro: untouched_same)
        show ?case
          unfolding p prod.case
        proof (rule wp_attemptI [OF wp_resolve_version], goal_cases)
          case (1 e w4)
          then show ?case using un3 by (auto intro: outcome_failed untouched_same)
        next
          case (2 v w4)
          then have "names_version env software version v" "untouched r w w4" "v \<noteq> []"
            using un3 by (auto intro: untouched_same)
          from wp_from_manifest [OF l wd cwd sv' this(1) sr rec st g this(2,3)] show ?case
            unfolding same .
        qed
      qed
    qed
  qed
qed


lemma home_of_not_Nil: "home_of env cfg \<noteq> []"
  by (auto simp: home_of_def defaultOTAHome_def Let_def split: option.split)

text \<open>\<open>C1\<close>. Whatever call fails and wherever the machine stops, an install leaves one of two things:
  the links and the record as they were, after an error; or a release whose manifest this server sends,
  with a valid signature by a key the gate lets through, for the product and the version asked for (or
  the one the server names as the latest), its archive with the manifest's hash completely unpacked in
  its own directory, \<^verbatim>\<open>current\<close> naming this directory or what it named before, \<^verbatim>\<open>previous\<close> a target one
  of the two links had, and the record the old one after an error and \<open>install_record\<close> of it on
  success, when \<^verbatim>\<open>current\<close> does name the new directory. Of the server nothing is asked but that the
  versions it can get this call to accept, with a manifest that verifies and passes the gate, are single
  path components and do not end in \<^verbatim>\<open>.archived\<close>; of any other signature nothing. The versions in the
  record have no slash.\<close>

theorem install_outcomes:
  assumes "plain software" and "e_getwd_ok env" and "\<forall>c \<in> set (e_cwd env). plain c"
    and "offers_only single_release env cfg (New (home_of env cfg) software) software version w"
    and "sane_record env (New (home_of env cfg) software) w"
    and "run_state (Install env cfg software version) w = (res, w')"
  shows "install_outcome env cfg (New (home_of env cfg) software)
    (at env (home_of env cfg) @ [software]) software version w res w'"
  using wpD [OF wp_Install [OF layout_at_New [OF home_of_not_Nil assms(1)] assms(2-5)] assms(6)] .


subsection \<open>The outcome of Revert\<close>

definition revert_outcome :: "env \<Rightarrow> layout \<Rightarrow> loc \<Rightarrow> world \<Rightarrow> unit res \<Rightarrow> world \<Rightarrow> bool" where
  "revert_outcome env l r w res w' \<longleftrightarrow>
     frame (insert (r @ [''state.json.tmp'']) (pointers r)) w w' \<and>
     (\<not> is_ok res \<and> untouched r w w' \<or>
      (\<exists>st. recorded env l w st \<and> s_Previous st \<noteq> [] \<and>
         targets env (CurrentSymlink l) w' \<subseteq> targets env (CurrentSymlink l) w \<union>
           {dist_target env l (s_Previous st), trimRight (dist_target env l (s_Previous st)) shim_trim} \<and>
         targets env (PreviousSymlink l) w' \<subseteq>
           targets env (PreviousSymlink l) w \<union> targets env (CurrentSymlink l) w \<and>
         (case res of
            Inl _ \<Rightarrow> look w' (r @ [''state.json'']) = look w (r @ [''state.json''])
          | Inr _ \<Rightarrow> current_names env l (dist_target env l (s_Previous st)) w' \<and>
              (\<exists>fm n. look w' (r @ [''state.json'']) =
                 Some (FileNode fm (enc_state ((revert_record st)\<lparr>s_UpdatedAt := e_now env n\<rparr>)))))))"

lemma keeps_report_revert: "keeps same_files (report_revert env cfg software st)"
  unfolding report_revert_def Let_def
  by (intro sf.keeps_rules keeps_endpoint [OF one_request_endpoints(10)])

lemma wp_revert_save:
  assumes l: "layout_at env l r" and s: "same_files w w1" and rec: "recorded env l w st" and p: "s_Previous st \<noteq> []"
    and wd: "e_getwd_ok env"
  shows "wp (attempt (FlipCurrent env l (s_Previous st)) (\<lambda>_. attempt (Save env l (revert_record st))
      (\<lambda>_. do { report_revert env cfg software (revert_record st); ok () })))
    (revert_outcome env l r w) w1"
proof -
  let ?v = "s_Previous st" and ?c = "CurrentSymlink l" and ?p = "PreviousSymlink l"
  let ?s = "r @ [''state.json'']" and ?t = "r @ [''state.json.tmp'']"
  obtain dest where dest: "Abs env (absDistributionDir env l ?v) = Inr dest" using Abs_ok [OF wd] by blast
  then have dt: "dist_target env l ?v = dest" by (simp add: dist_target_def)
  have sl: "at env (StateFile l) = ?s" "at env (StateFile l @ ''.tmp'') = ?t"
    using layout_locs0(1) [OF l] layout_locs(1) [OF l, of "''.tmp''"] by simp_all
  have links: "at env ?c \<in> flip_locs r" "at env (?c @ shimSuffix) \<in> flip_locs r"
    "at env ?p \<in> flip_locs r" "at env (?p @ shimSuffix) \<in> flip_locs r"
    using flip_locs_cover [OF l] by (auto simp: link_locs_def)
  have fl: "?s \<notin> flip_locs r" "?t \<notin> flip_locs r" by (auto simp: flip_locs_def)
  have lw: "look w1 k = look w k" for k using s by (rule same_files_look)
  then have old: "targets env x w1 = targets env x w" for x by (intro targets_same)
  have out: "revert_outcome env l r w res w3"
    if f: "frame (flip_locs r) w1 w2" and fp: "flip_post env l dest w1 x w2" and f2: "frame {?s, ?t} w2 w3"
      and res: "case res of Inl _ \<Rightarrow> look w3 ?s = look w2 ?s
        | Inr _ \<Rightarrow> \<exists>fm n. look w3 ?s = Some (FileNode fm (enc_state ((revert_record st)\<lparr>s_UpdatedAt := e_now env n\<rparr>)))"
      and x: "is_ok res \<longrightarrow> is_ok x" for res x w2 w3
  proof -
    have same: "look w3 k = look w2 k" if "k \<in> flip_locs r" for k
      using that fl frameD [OF f2, of k] by auto
    have t3: "targets env ?c w3 = targets env ?c w2" "targets env ?p w3 = targets env ?p w2"
      using same links by (auto intro!: targets_same)
    have fr: "frame (insert ?t (pointers r)) w w3"
      using f f2 lw unfolding frame_def pointers_def by auto
    have "look w2 ?s = look w ?s" using frameD [OF f fl(1)] lw by simp
    moreover have "is_ok res \<longrightarrow> current_names env l dest w3"
      using fp x same links by (auto simp: flip_post_def current_names_def)
    ultimately show ?thesis
      unfolding revert_outcome_def
      using fr rec p fp res unfolding flip_post_def old t3
      by (intro conjI disjI2 exI [of _ st]) (cases res; simp add: dt)+
  qed
  have sv: "wp (Save env l (revert_record st)) (\<lambda>x w3. frame {?s, ?t} w2 w3 \<and>
     (case x of Inl _ \<Rightarrow> look w3 ?s = look w2 ?s
      | Inr _ \<Rightarrow> \<exists>fm. look w3 ?s = Some (FileNode fm
          (enc_state ((revert_record st)\<lparr>s_UpdatedAt := e_now env (w_ops w2)\<rparr>))))) w2" for w2
    by (rule wp_Save [OF layout_named(1) [OF l], of env "revert_record st" w2, unfolded sl])
  show ?thesis
  proof (rule wp_attemptI [OF wp_FlipCurrent [OF l dest]], goal_cases)
    case (1 e w2)
    then show ?case using out [of w2 "Inl e" w2 "Inl e"] by (simp add: fr.refl)
  next
    case (2 u w2)
    then have f: "frame (flip_locs r) w1 w2" "flip_post env l dest w1 (Inr u) w2" by simp_all
    show ?case
    proof (rule wp_attemptI [OF sv], goal_cases)
      case (1 e w3)
      then show ?case using out [OF f, of w3 "Inl e"] by simp
    next
      case (2 u w3)
      show ?case
      proof (rule wp_bindI [OF keeps_wp [OF keeps_report_revert]], goal_cases)
        case (1 y w4)
        then have w4: "look w4 k = look w3 k" for k by (rule same_files_look)
        have "frame {?s, ?t} w2 w4" using 2 w4 by (simp add: frame_def)
        then show ?case using out [OF f, of w4 "Inr ()"] 2 w4 by (auto simp: wp_ok)
      qed
    qed
  qed
qed

lemma wp_Revert:
  assumes l: "layout_at env (New (home_of env cfg) software) r" and wd: "e_getwd_ok env"
  shows "wp (Revert env cfg software) (revert_outcome env (New (home_of env cfg) software) r w) w"
proof -
  let ?l = "New (home_of env cfg) software"
  have failed: "revert_outcome env ?l r w (Inl e) w1" if "same_files w w1" for e w1
    using that by (auto simp: revert_outcome_def untouched_def same_files_look [of w w1] frame_def)
  show ?thesis
    unfolding Revert_def Let_def home_of_def [symmetric]
  proof (rule wp_attemptI [OF wp_Load], goal_cases)
    case (1 e w1)
    then show ?case by (simp add: failed)
  next
    case (2 st w1)
    then have s: "same_files w w1" and rec: "recorded env ?l w st" by auto
    show ?case
    proof (cases "s_Previous st = []")
      case True
      then show ?thesis using s by (simp add: wp_fail failed)
    next
      case False
      from wp_revert_save [OF l s rec False wd] show ?thesis
        unfolding if_not_P [OF False] .
    qed
  qed
qed

text \<open>\<open>C2\<close>. A revert touches nothing but the links and the record. Either these are as they were,
  after an error; or the record named a previous version, \<^verbatim>\<open>current\<close> names that version's
  directory or what it named before, \<^verbatim>\<open>previous\<close> a target one of the two links had, and the
  record is the old one after an error and the one with the two versions exchanged on success,
  when \<^verbatim>\<open>current\<close> does name the previous version's directory.\<close>

theorem revert_outcomes:
  assumes "plain software" and "e_getwd_ok env" and "run_state (Revert env cfg software) w = (res, w')"
  shows "revert_outcome env (New (home_of env cfg) software) (at env (home_of env cfg) @ [software]) w res w'"
  using wpD [OF wp_Revert [OF layout_at_New [OF home_of_not_Nil assms(1)] assms(2)] assms(3)] .

end
