(* ===== verification/Install_Examples.thy ===== *)
theory Install_Examples
  imports Install_Safety
begin

section \<open>Installs and reverts that run\<close>

text \<open>
  A whole install of version 2 of the product \<^verbatim>\<open>app\<close>, over the server \<open>demo_server\<close> that answers
  with a signed manifest and the archive, and closed examples of what the phases do at the
  edges.
\<close>

definition demo_blob :: bytes where
  "demo_blob = tar_of [(''app'', [7, 9])]"

definition demo_manifest :: Manifest where
  "demo_manifest = zero_manifest\<lparr>SchemaVersion := 1, Software := ''app'', Manifest.Version := ''2'',
     m_Blob := zero_blob\<lparr>b_SHA256 := ''03617070''\<rparr>\<rparr>"

definition demo_data :: bytes where
  "demo_data = bytes_of
     ''{\"schema_version\":1,\"software\":\"app\",\"version\":\"2\",\"blob\":{\"sha256\":\"03617070\"}}''"

definition demo_pub :: string where
  "demo_pub = hex_encode (replicate 32 5)"

text \<open>The server answers \<open>x\<close> and then with the blob; only \<open>d\<close> is ever signed.\<close>

definition demo_server :: "http_result \<Rightarrow> bytes \<Rightarrow> env" where
  "demo_server x d = (serving [x, Resp 200 ''200 OK'' [] (Body [demo_blob] True)])
     \<lparr>e_ed25519 := (\<lambda>pub m s. m = d \<and> s = replicate 64 0), e_sha256 := take 4\<rparr>"

definition demo_answer :: http_result where
  "demo_answer = Resp 200 ''200 OK''
     [(''X-Ota-Signature'', hex_encode (replicate 64 0)), (''X-Ota-Public-Key'', demo_pub)] (Body [demo_data] True)"

definition demo_config :: config where
  "demo_config = zero_config\<lparr>cf_ServerURL := ''http://s'', cf_OTAHome := ''/home''\<rparr>"

text \<open>The product's directory, with the links it had, when the manifest has arrived, with the request
  sent for it. On the new machine there is no link.\<close>

definition demo_links :: tree where
  "demo_links = [([''home'', ''app'', ''current''], LinkNode ''/home/app/distribution-1'')]"

definition demo_ready :: "tree \<Rightarrow> request list \<Rightarrow> nat \<Rightarrow> world" where
  "demo_ready links rqs n = \<lparr> w_tree =
     [([''home''], DirNode), ([''home'', ''app''], DirNode)] @ links @
     [([''home'', ''app'', ''blobs''], DirNode), ([''home'', ''app'', ''patches''], DirNode),
      ([''home'', ''app'', ''archived''], DirNode)],
     w_ops = n, w_reqs = rqs \<rparr>"

definition demo_request :: request where
  "demo_request = \<lparr> rq_method = ''GET'', rq_url = ''http://s/v1/software/app/releases/2/manifest'',
     rq_auth = None, rq_ctype = None, rq_range = None, rq_body = [] \<rparr>"

lemma demo_parse: "Parse demo_data = Inr demo_manifest"
  by code_simp

lemma demo_dist_server:
  "Abs (demo_server x d) (absDistributionDir (demo_server x d) demo_layout ''2'') = Inr ''/home/app/distribution-2''"
  by code_simp

lemma demo_verify: "Verify (demo_server x d) data sig pub = Inr () \<Longrightarrow> data = d"
  by (auto simp: Verify_ok_iff demo_server_def)

lemma demo_verify_ok: "Verify (demo_server x demo_data) demo_data (hex_encode (replicate 64 0)) demo_pub = Inr ()"
  by (simp add: Verify_ok_iff demo_pub_def demo_server_def)

lemma demo_offers: "offers_only single_release env cfg l software ''2'' w"
  by (rule offers_only_explicit) (simp_all add: single_def hasSuffix_def)

definition new_machine :: world where
  "new_machine = world_of [([''home''], DirNode)]"

lemma demo_ensure:
  "run_state (Ensure (demo_server x d) demo_layout) demo_world = (Inr (), demo_ready demo_links [] 4)"
  "run_state (Ensure (demo_server x d) demo_layout) new_machine = (Inr (), demo_ready [] [] 4)"
  by code_simp+

lemma demo_load:
  "run_state (Load (demo_server x d) demo_layout) (demo_ready demo_links [] 4) =
     (Inr zero_state, demo_ready demo_links [] 5)"
  "run_state (Load (demo_server x d) demo_layout) (demo_ready [] [] 4) = (Inr zero_state, demo_ready [] [] 5)"
  by code_simp+

lemma demo_fetch:
  "run_state (fetch_manifest (demo_server demo_answer demo_data) cfg (New_client ''http://s'') zero_state ''app'' ''2'')
     (demo_ready links [] 5) =
   (case checkTrust zero_state (cf_TrustedPubKeys cfg) demo_pub of
      Inl e \<Rightarrow> (Inl e, demo_ready links [demo_request] 5)
    | Inr _ \<Rightarrow> (Inr (demo_manifest, demo_pub), demo_ready links [demo_request] 5))"
proof -
  have "e_http (demo_server demo_answer demo_data) 0 rq = demo_answer" for rq
    by (simp add: demo_server_def serving_def)
  moreover have "authedRequest (demo_server demo_answer demo_data) (New_client ''http://s'') ''GET''
      ''http://s/v1/software/app/releases/2/manifest'' = Inr demo_request"
    by (simp add: authedRequest_def newRequest_def withAuth_def New_client_def demo_request_def demo_server_def
        serving_def calm_def)
  moreover have "header_get [(''X-Ota-Signature'', a), (''X-Ota-Public-Key'', b)] ''X-Ota-Signature'' = a"
    "header_get [(''X-Ota-Signature'', a), (''X-Ota-Public-Key'', b)] ''X-Ota-Public-Key'' = b" for a b
    by code_simp+
  ultimately show ?thesis
    using demo_verify_ok [of demo_answer]
    by (auto simp: fetch_manifest_def GetManifest_def http_send_def http_do_def demo_ready_def demo_answer_def
        New_client_def demo_parse demo_manifest_def split: sum.splits)
qed

lemma demo_rest:
  "fst (run_state (attempt (obtain_blob (demo_server x d) demo_config (New_client ''http://s'') demo_layout zero_state
        demo_manifest ''2'') (\<lambda>_.
      attempt (unpack (demo_server x d) demo_layout ''2'') (\<lambda>_.
      attempt (FlipCurrent (demo_server x d) demo_layout ''2'') (\<lambda>_.
        commit (demo_server x d) demo_config (New_client ''http://s'') demo_layout zero_state
          demo_manifest pub ''app'' ''2'')))) (demo_ready demo_links [rq] 5)) = Inr ''2''"
  "fst (run_state (attempt (obtain_blob (demo_server x d) demo_config (New_client ''http://s'') demo_layout zero_state
        demo_manifest ''2'') (\<lambda>_.
      attempt (unpack (demo_server x d) demo_layout ''2'') (\<lambda>_.
      attempt (FlipCurrent (demo_server x d) demo_layout ''2'') (\<lambda>_.
        commit (demo_server x d) demo_config (New_client ''http://s'') demo_layout zero_state
          demo_manifest pub ''app'' ''2'')))) (demo_ready [] [rq] 5)) = Inr ''2''"
  by code_simp+

lemma demo_installs:
  "fst (run_state (Install (demo_server demo_answer demo_data) demo_config ''app'' ''2'') demo_world) = Inr ''2''" (is ?A)
  "fst (run_state (Install (demo_server demo_answer demo_data) demo_config ''app'' ''2'') new_machine) = Inr ''2''" (is ?B)
proof -
  have c: "cf_ServerURL demo_config = ''http://s''" "cf_OTAHome demo_config = ''/home''"
    "cf_TrustedPubKeys demo_config = []" "cf_InstallToken demo_config = []"
    by (simp_all add: demo_config_def zero_config_def)
  have z: "s_BearerToken zero_state = []" "checkTrust zero_state [] demo_pub = Inr ()"
    by (simp_all add: zero_state_def checkTrust_def)
  show ?A ?B
    using demo_rest [of demo_answer demo_data demo_pub demo_request]
    by (simp_all add: Install_def c z demo_layout_def [symmetric] demo_ensure demo_load resolve_auth_def
        resolve_version_def demo_fetch)
qed

theorem install_outcomes_witness:
  "let w' = snd (run_state (Install (demo_server demo_answer demo_data) demo_config ''app'' ''2'') demo_world) in
   (\<exists>st pub m. switched (demo_server demo_answer demo_data) demo_config demo_layout [''home'', ''app''] ''app'' st ''2'' m pub
      demo_world (Inr ''2'') w') \<and>
   current_names (demo_server demo_answer demo_data) demo_layout ''/home/app/distribution-2'' w'"
proof -
  let ?E = "demo_server demo_answer demo_data"
  let ?m = "run_state (Install ?E demo_config ''app'' ''2'') demo_world"
  have run: "?m = (Inr ''2'', snd ?m)" using demo_installs(1) by (metis prod.collapse)
  have h: "home_of ?E demo_config = ''/home''" "cf_TrustedPubKeys demo_config = []"
    by (simp_all add: home_of_def demo_config_def zero_config_def)
  have cwd: "e_cwd ?E = []" "e_getwd_ok ?E" by (simp_all add: demo_server_def serving_def calm_def)
  have loc: "at ?E ''/home'' @ [''app''] = [''home'', ''app'']" by (simp add: loc_of_def IsAbs_def rstep_def)
  have sr: "sane_record ?E demo_layout demo_world"
    using layout_locs0(1) [OF demo_layout_at [OF cwd(1)]]
    by (auto simp: sane_record_def recorded_def zero_state_def demo_world_def world_of_def look_def node_at_def)
  have "install_outcome ?E demo_config demo_layout [''home'', ''app''] ''app'' ''2'' demo_world (Inr ''2'') (snd ?m)"
    using install_outcomes [OF _ cwd(2) _ demo_offers _ run] sr cwd(1)
    unfolding h loc demo_layout_def by (simp add: plain_def)
  then obtain st v m pub where
    sw: "switched ?E demo_config demo_layout [''home'', ''app''] ''app'' st v m pub demo_world (Inr ''2'') (snd ?m)"
    by (auto simp: install_outcome_def)
  then have v: "v = ''2''" and cn: "current_names ?E demo_layout (dist_target ?E demo_layout v) (snd ?m)"
    unfolding switched_def sum.case by blast+
  have "dist_target ?E demo_layout ''2'' = ''/home/app/distribution-2''"
    unfolding dist_target_def by (simp add: demo_dist_server)
  with cn sw show ?thesis unfolding v Let_def by auto
qed


subsection \<open>A revert\<close>

definition demo_record :: cstate where
  "demo_record = zero_state\<lparr>s_Software := ''app'', s_Current := ''2'', s_Previous := ''1'',
     s_History := [''1'', ''2'']\<rparr>"

definition demo_two :: "bytes \<Rightarrow> nat \<Rightarrow> world" where
  "demo_two b n = \<lparr> w_tree =
     [([''home''], DirNode), ([''home'', ''app''], DirNode),
      ([''home'', ''app'', ''state.json''], FileNode 420 b),
      ([''home'', ''app'', ''current''], LinkNode ''/home/app/distribution-2''),
      ([''home'', ''app'', ''previous''], LinkNode ''/home/app/distribution-1''),
      ([''home'', ''app'', ''distribution-2''], DirNode),
      ([''home'', ''app'', ''distribution-2'', ''app''], FileNode 420 [7, 9])],
     w_ops = n, w_reqs = [] \<rparr>"

lemma demo_two_load:
  "run_state (Load calm demo_layout) (demo_two (enc_state demo_record) 0) =
     (Inr demo_record, demo_two (enc_state demo_record) 1)"
proof -
  have "state_ok demo_record" by code_simp
  moreover have "at calm (StateFile demo_layout) = [''home'', ''app'', ''state.json'']" by code_simp
  moreover have "e_fault calm 0 = None" by (simp add: calm_def)
  ultimately show ?thesis
    by (simp add: Load_def os_read_file_def run_state_fs_op Let_def t_read_file_def demo_two_def node_at_def
        state_file.dec_enc)
qed

lemma demo_reverts_from:
  "fst (run_state (attempt (FlipCurrent calm demo_layout ''1'') (\<lambda>_.
      attempt (Save calm demo_layout (revert_record demo_record)) (\<lambda>_. do {
        report_revert calm demo_config ''app'' (revert_record demo_record); ok () }))) (demo_two b 1)) = Inr ()"
  by code_simp

lemma demo_reverts:
  "fst (run_state (Revert calm demo_config ''app'') (demo_two (enc_state demo_record) 0)) = Inr ()"
proof -
  have "cf_OTAHome demo_config = ''/home''" "s_Previous demo_record = ''1''"
    by (simp_all add: demo_config_def demo_record_def)
  then show ?thesis
    using demo_reverts_from [of "enc_state demo_record"]
    by (simp add: Revert_def Let_def demo_layout_def [symmetric] demo_two_load)
qed

theorem revert_outcomes_witness:
  "let w' = snd (run_state (Revert calm demo_config ''app'') (demo_two (enc_state demo_record) 0)) in
   \<exists>st. s_Previous st \<noteq> [] \<and> current_names calm demo_layout (dist_target calm demo_layout (s_Previous st)) w' \<and>
     (\<exists>fm t. look w' [''home'', ''app'', ''state.json''] =
        Some (FileNode fm (enc_state ((revert_record st)\<lparr>s_UpdatedAt := t\<rparr>))))"
proof -
  let ?m = "run_state (Revert calm demo_config ''app'') (demo_two (enc_state demo_record) 0)"
  have run: "?m = (Inr (), snd ?m)" using demo_reverts by (metis prod.collapse)
  have h: "home_of calm demo_config = ''/home''" by (simp add: home_of_def demo_config_def)
  have wd: "e_getwd_ok calm" by (simp add: calm_def)
  have loc: "at calm ''/home'' @ [''app''] = [''home'', ''app'']" by (simp add: loc_of_def IsAbs_def rstep_def)
  have "revert_outcome calm demo_layout [''home'', ''app''] (demo_two (enc_state demo_record) 0) (Inr ()) (snd ?m)"
    using revert_outcomes [OF _ wd run] unfolding h loc demo_layout_def by (simp add: plain_def)
  then show ?thesis
    by (auto simp: revert_outcome_def Let_def)
qed


subsection \<open>Edges\<close>

text \<open>\<open>C35\<close>. Unpacking begins by removing the directory it unpacks to, also when that is the one
  \<^verbatim>\<open>current\<close> names, as it is when the version that is current is installed again: when the machine
  stops at the next call, \<^verbatim>\<open>current\<close> still names the directory, and neither it nor any of its files is
  there; nothing else has changed.\<close>

theorem reinstall_removes_the_running_version:
  assumes "layout_at env l r" and "slash \<notin> set v"
    and "pointer env (CurrentSymlink l) w = Some (dist_target env l v)"
    and "e_fault env (w_ops w) = None" and "e_fault env (Suc (w_ops w)) = Some 0"
    and "run_state (unpack env l v) w = (res, w')"
  shows "\<not> is_ok res \<and> pointer env (CurrentSymlink l) w' = Some (dist_target env l v) \<and>
    look w' (at env (DistributionDir l v)) = None \<and>
    (\<forall>k. look w' k = (if under (at env (DistributionDir l v)) k then None else look w k))"
proof -
  have D: "at env (DistributionDir l v) = r @ [''distribution-'' @ v]"
    by (rule at_DistributionDir [OF assms(1,2)])
  have u: "\<not> is_ok res \<and> (\<forall>k. look w' k = (if under (r @ [''distribution-'' @ v]) k then None else look w k))"
    by (rule wpD [OF unpack_cut [OF assms(1,2,4,5)] assms(6)])
  have "at env (CurrentSymlink l) \<in> pointers r" "at env (CurrentSymlink l @ shimSuffix) \<in> pointers r"
    using flip_locs_cover [OF assms(1)] by (auto simp: link_locs_def pointers_def)
  then have "pointer env (CurrentSymlink l) w' = pointer env (CurrentSymlink l) w"
    using u dist_apart [of _ r v] by (intro pointer_same) simp_all
  with u assms(3) show ?thesis unfolding D by simp
qed

theorem reinstall_removes_the_running_version_witness:
  "let w' = snd (run_state (unpack (cut_at 1) demo_layout ''2'') (demo_two [] 0)) in
   look (demo_two [] 0) [''home'', ''app'', ''distribution-2'', ''app''] = Some (FileNode 420 [7, 9]) \<and>
   look w' [''home'', ''app'', ''distribution-2'', ''app''] = None \<and>
   pointer (cut_at 1) (CurrentSymlink demo_layout) w' = Some ''/home/app/distribution-2''"
proof -
  let ?m = "run_state (unpack (cut_at 1) demo_layout ''2'') (demo_two [] 0)"
  have 1: "?m = (fst ?m, snd ?m)" by simp
  have c: "pointer (cut_at 1) (CurrentSymlink demo_layout) (demo_two [] 0) =
      Some (dist_target (cut_at 1) demo_layout ''2'')"
    by code_simp
  have d: "dist_target (cut_at 1) demo_layout ''2'' = ''/home/app/distribution-2''" by code_simp
  have l: "look (demo_two [] 0) [''home'', ''app'', ''distribution-2'', ''app''] = Some (FileNode 420 [7, 9])"
    by code_simp
  have a: "loc_of [] (DistributionDir demo_layout ''2'') = [''home'', ''app'', ''distribution-2'']" by code_simp
  have f: "slash \<notin> set ''2''" "e_fault (cut_at 1) (w_ops (demo_two [] 0)) = None"
    "e_fault (cut_at 1) (Suc (w_ops (demo_two [] 0))) = Some 0"
    by (simp_all add: cut_at_def calm_def demo_two_def)
  from reinstall_removes_the_running_version [OF demo_layout_at f(1) c f(2,3) 1] show ?thesis
    by (simp add: Let_def d a l under_def del: One_nat_def)
qed



text \<open>And when it succeeds the flip makes \<^verbatim>\<open>previous\<close> name that version too, while the record
  goes on naming the one before: a revert then moves \<^verbatim>\<open>current\<close> to a version that \<^verbatim>\<open>previous\<close>
  no longer named.\<close>

theorem reinstall_splits_links_and_record:
  "pointer calm (PreviousSymlink demo_layout)
     (snd (run_state (FlipCurrent calm demo_layout ''2'') (demo_two b 0))) = Some ''/home/app/distribution-2'' \<and>
   s_Previous (install_record demo_record ''app'' ''2'' url pub os arch) = ''1''"
  by code_simp

text \<open>The flip, and with it \<open>Revert\<close>, does not look whether the distribution is there: the
  example's flip to version 1 succeeds and leaves \<^verbatim>\<open>current\<close> naming a directory that does not
  exist.\<close>

theorem flip_to_a_missing_distribution:
  "case run_state (FlipCurrent calm demo_layout ''1'') (demo_two b 0) of
     (res, w') \<Rightarrow> res = Inr () \<and> pointer calm (CurrentSymlink demo_layout) w' = Some ''/home/app/distribution-1'' \<and>
       look w' [''home'', ''app'', ''distribution-1''] = None"
  by code_simp

text \<open>The cap on the size of a patch is off when it comes out as zero: for a blob of one byte
  a patch of any size is taken.\<close>

theorem cap_zero_is_no_cap:
  "patch_cap 1 f_0_7 = 0 \<and>
   pickPatch [zero_patch\<lparr>p_From := ''1'', p_Patcher := ''bsdiff'', p_Size := 1000000\<rparr>] ''1'' 1 f_0_7 \<noteq> None \<and>
   patch_cap 10 f_0_7 = 7 \<and> patch_cap 180 f_0_7 = 125 \<and>
   pickPatch [zero_patch\<lparr>p_From := ''1'', p_Patcher := ''bsdiff'', p_Size := 126\<rparr>] ''1'' 180 f_0_7 = None"
  by code_simp

end
