(* ===== verification/Product_History.thy ===== *)
theory Product_History
  imports Install_Examples
begin

section \<open>Histories of a product\<close>

text \<open>
  What installs and reverts do to a product, abstractly: a state machine over its record and
  the releases unpacked so far, whose steps ask for a signed release and the trust gate. Any
  sequence of \<open>Install\<close> and \<open>Revert\<close> calls, each with its own server, faults and crash point,
  with whatever happens elsewhere on the machine in between, refines this machine; its
  invariant is then an invariant of the files.
\<close>

subsection \<open>The abstract machine\<close>

record product =
  p_record :: cstate
  p_releases :: "(string \<times> string) set"

text \<open>\<open>S v k\<close>: version \<open>v\<close> was released under key \<open>k\<close>. A release can be unpacked without ever being
  recorded, when the install fails later.\<close>

inductive product_step :: "(string \<Rightarrow> string \<Rightarrow> bool) \<Rightarrow> string list \<Rightarrow> product \<Rightarrow> product \<Rightarrow> bool"
  for S trusted
where
  unpacked_only: "S v k \<Longrightarrow> checkTrust (p_record p) trusted k = Inr () \<Longrightarrow>
     product_step S trusted p (p\<lparr>p_releases := insert (v, k) (p_releases p)\<rparr>)"
| installed: "S v k \<Longrightarrow> checkTrust (p_record p) trusted k = Inr () \<Longrightarrow>
     product_step S trusted p
       \<lparr> p_record = (install_record ((p_record p)\<lparr>s_ClientID := cid, s_BearerToken := bt\<rparr>) sw v url k os arch)
           \<lparr>s_UpdatedAt := t\<rparr>,
         p_releases = insert (v, k) (p_releases p) \<rparr>"
| exchanged: "s_Previous (p_record p) \<noteq> [] \<Longrightarrow>
     product_step S trusted p (p\<lparr>p_record := (revert_record (p_record p))\<lparr>s_UpdatedAt := t\<rparr>\<rparr>)"

inductive product_reach :: "(string \<Rightarrow> string \<Rightarrow> bool) \<Rightarrow> string list \<Rightarrow> product \<Rightarrow> bool"
  for S trusted
where
  nothing: "product_reach S trusted \<lparr> p_record = zero_state, p_releases = {} \<rparr>"
| next_step: "product_reach S trusted p \<Longrightarrow> product_step S trusted p p' \<Longrightarrow> product_reach S trusted p'"

inductive_cases product_stepE: "product_step S trusted p p'"

text \<open>The key that vouches for the recorded versions: a trusted one, or without a trusted set the
  pinned one.\<close>

definition vouched :: "string list \<Rightarrow> cstate \<Rightarrow> string \<Rightarrow> bool" where
  "vouched trusted st k \<longleftrightarrow> (if trusted = [] then k = s_ServerPubKeyHX st else k \<in> set trusted)"

definition product_ok :: "(string \<Rightarrow> string \<Rightarrow> bool) \<Rightarrow> string list \<Rightarrow> product \<Rightarrow> bool" where
  "product_ok S trusted p \<longleftrightarrow> record_wf (p_record p) \<and>
     (\<forall>(v, k) \<in> p_releases p. S v k) \<and>
     (\<forall>v \<in> set (s_History (p_record p)). \<exists>k. (v, k) \<in> p_releases p \<and> vouched trusted (p_record p) k)"

lemma record_wf_UpdatedAt [simp]: "record_wf (st\<lparr>s_UpdatedAt := t\<rparr>) = record_wf st"
  by (simp add: record_wf_def)

lemma vouched_step:
  assumes "checkTrust st trusted k = Inr ()" and "vouched trusted st k'" and "k' \<noteq> []"
    and "trusted = [] \<Longrightarrow> s_ServerPubKeyHX st' = k"
  shows "vouched trusted st' k'"
  using assms by (auto simp: vouched_def checkTrust_def split: if_splits)

lemma product_ok_step:
  assumes "product_step S trusted p p'" and "product_ok S trusted p"
    and key: "\<And>v k. S v k \<Longrightarrow> v \<noteq> [] \<and> k \<noteq> []"
  shows "product_ok S trusted p'"
  using assms(1)
proof cases
  case (unpacked_only v k)
  with assms(2) show ?thesis by (fastforce simp: product_ok_def)
next
  case (installed v k t bt cid sw url os arch)
  let ?st = "p_record p"
  have step: "record_step ?st (p_record p')"
    unfolding installed(1) product.simps using key [OF installed(2)] by (intro record_step.intros) simp
  have wf: "record_wf (p_record p')"
    using record_wf_step [OF step] assms(2) by (simp add: product_ok_def)
  have kv: "vouched trusted (p_record p') k"
    using installed(3) by (auto simp: installed(1) vouched_def checkTrust_def split: if_splits)
  have old: "\<exists>k'. (u, k') \<in> p_releases p' \<and> vouched trusted (p_record p') k'" if u: "u \<in> set (s_History ?st)" for u
  proof -
    obtain k' where k': "(u, k') \<in> p_releases p" "vouched trusted ?st k'"
      using assms(2) u by (auto simp: product_ok_def)
    then have "S u k'" using assms(2) by (auto simp: product_ok_def)
    then have ne: "k' \<noteq> []" using key [of u k'] by simp
    have "vouched trusted (p_record p') k'"
      by (rule vouched_step [OF installed(3) k'(2) ne]) (simp add: installed(1))
    with k'(1) show ?thesis by (auto simp: installed(1))
  qed
  have "set (s_History (p_record p')) \<subseteq> insert v (set (s_History ?st))"
    using install_record_fields(3) [of "?st\<lparr>s_ClientID := cid, s_BearerToken := bt\<rparr>"]
    by (simp add: installed(1))
  then have "\<exists>k'. (u, k') \<in> p_releases p' \<and> vouched trusted (p_record p') k'" if "u \<in> set (s_History (p_record p'))" for u
    using that old kv by (cases "u = v") (auto simp: installed(1))
  moreover have "\<forall>(v, k) \<in> p_releases p'. S v k"
    using assms(2) installed(2) by (auto simp: product_ok_def installed(1))
  ultimately show ?thesis using wf by (simp add: product_ok_def)
next
  case (exchanged t)
  have "record_step (p_record p) (p_record p')"
    using exchanged by (auto intro: record_step.intros)
  then have "record_wf (p_record p')"
    using assms(2) by (auto simp: product_ok_def intro: record_wf_step)
  moreover have "vouched trusted (p_record p') k = vouched trusted (p_record p) k" for k
    by (simp add: exchanged(1) vouched_def revert_record_def)
  moreover have "s_History (p_record p') = s_History (p_record p)" "p_releases p' = p_releases p"
    by (simp_all add: exchanged(1) revert_record_def)
  ultimately show ?thesis
    using assms(2) by (simp add: product_ok_def)
qed

lemma product_invariant:
  assumes "product_reach S trusted p" and "\<And>v k. S v k \<Longrightarrow> v \<noteq> [] \<and> k \<noteq> []"
  shows "product_ok S trusted p"
  using assms(1)
proof induction
  case nothing
  then show ?case by (simp add: product_ok_def record_wf_def zero_state_def)
next
  case (next_step p p')
  from product_ok_step [OF next_step(2,3) assms(2)] show ?case .
qed


subsection \<open>The runs\<close>

text \<open>The machine across the calls: the working directory and the signature check are the ones of
  \<open>B\<close>, the rest of the environment is each call's own.\<close>

definition same_machine :: "env \<Rightarrow> env \<Rightarrow> bool" where
  "same_machine B env \<longleftrightarrow> e_cwd env = e_cwd B \<and> e_getwd_ok env \<and> e_ed25519 env = e_ed25519 B"

text \<open>The texts that can get into the record are ASCII, as the JSON model needs them, and the clock
  prints RFC 3339.\<close>

definition clock_ok :: "env \<Rightarrow> bool" where
  "clock_ok env \<longleftrightarrow> (\<forall>n. ascii (e_now env n) \<and> rfc3339_ok (e_now env n))"

definition ascii_server :: "env \<Rightarrow> config \<Rightarrow> bool" where
  "ascii_server env cfg \<longleftrightarrow> ascii (cf_ServerURL cfg) \<and>
     (\<forall>tr w ex w'. run_state (ExchangeInstallToken env tr (cf_InstallToken cfg) (cf_Hwinfo cfg)) w = (Inr ex, w') \<longrightarrow>
        ascii (x_ClientID ex) \<and> ascii (x_BearerToken ex))"

text \<open>The releases a call can come to accept: the publisher's texts, as those of the record.\<close>

definition ascii_manifest :: "Manifest \<Rightarrow> bool" where
  "ascii_manifest m \<longleftrightarrow> ascii (Manifest.Version m) \<and> ascii (m_OS m) \<and> ascii (m_Arch m)"

definition proper_offers :: "env \<Rightarrow> config \<Rightarrow> string \<Rightarrow> string \<Rightarrow> world \<Rightarrow> bool" where
  "proper_offers env cfg software version w \<longleftrightarrow>
     offers_only (\<lambda>m. single_release m \<and> ascii_manifest m) env cfg (New (home_of env cfg) software) software version w"

inductive product_run :: "env \<Rightarrow> string \<Rightarrow> string \<Rightarrow> string list \<Rightarrow> world \<Rightarrow> world \<Rightarrow> bool"
  for B home software trusted w0
where
  begins: "product_run B home software trusted w0 w0"
| install_call: "product_run B home software trusted w0 w \<Longrightarrow> same_machine B env \<Longrightarrow> clock_ok env \<Longrightarrow>
     ascii_server env cfg \<Longrightarrow> home_of env cfg = home \<Longrightarrow> cf_TrustedPubKeys cfg = trusted \<Longrightarrow>
     proper_offers env cfg software version w \<Longrightarrow>
     run_state (Install env cfg software version) w = (res, w') \<Longrightarrow>
     product_run B home software trusted w0 w'"
| revert_call: "product_run B home software trusted w0 w \<Longrightarrow> same_machine B env \<Longrightarrow> clock_ok env \<Longrightarrow>
     home_of env cfg = home \<Longrightarrow>
     run_state (Revert env cfg software) w = (r, w') \<Longrightarrow>
     product_run B home software trusted w0 w'"
| elsewhere: "product_run B home software trusted w0 w \<Longrightarrow> untouched (at B home @ [software]) w w' \<Longrightarrow>
     product_run B home software trusted w0 w'"

text \<open>Nothing of the product is there yet.\<close>

definition fresh :: "env \<Rightarrow> string \<Rightarrow> string \<Rightarrow> world \<Rightarrow> bool" where
  "fresh B home software w \<longleftrightarrow> (\<forall>k \<in> pointers (at B home @ [software]). look w k = None)"

text \<open>A release of the product: a version of one path component, in a manifest signed under the key.\<close>

definition signed :: "env \<Rightarrow> string \<Rightarrow> string \<Rightarrow> string \<Rightarrow> bool" where
  "signed env software v k \<longleftrightarrow> v \<noteq> [] \<and> single v \<and>
     (\<exists>data sig m. Verify env data sig k = Inr () \<and> Parse data = Inr m \<and>
        Software m = software \<and> Manifest.Version m = v)"

text \<open>The names a link can show for the distribution of a version: its directory, or what reading a
  shim trims it to.\<close>

definition dist_names :: "env \<Rightarrow> layout \<Rightarrow> string \<Rightarrow> string set" where
  "dist_names env l v = {dist_target env l v, trimRight (dist_target env l v) shim_trim}"

text \<open>The files represent the abstract product.\<close>

definition represents :: "env \<Rightarrow> string \<Rightarrow> string \<Rightarrow> product \<Rightarrow> world \<Rightarrow> bool" where
  "represents B home software p w \<longleftrightarrow>
     (let l = New home software; s = at B home @ [software, ''state.json''] in
      state_ok (p_record p) \<and>
      (look w s = None \<and> p_record p = zero_state \<or>
       (\<exists>fm. look w s = Some (FileNode fm (enc_state (p_record p))))) \<and>
      targets B (CurrentSymlink l) w \<union> targets B (PreviousSymlink l) w \<subseteq>
        (\<Union>(v, k) \<in> p_releases p. dist_names B l v))"

lemma Verify_key: "Verify env data sig k = Inr () \<Longrightarrow> k \<noteq> [] \<and> ascii k"
proof -
  have "ascii s" if "hex_decode s = Some b" for s b
    using that
    by (induction s arbitrary: b rule: hex_decode.induct)
      (auto simp: ascii_def hex_value_def Let_def split: option.splits if_splits)
  then show "Verify env data sig k = Inr () \<Longrightarrow> k \<noteq> [] \<and> ascii k"
    by (auto simp: Verify_ok_iff)
qed

lemma signed_key: "signed env software v k \<Longrightarrow> v \<noteq> [] \<and> k \<noteq> []"
  using Verify_key by (auto simp: signed_def)


subsection \<open>The refinement\<close>

lemma same_machine_at: "same_machine B env \<Longrightarrow> at env p = at B p"
  by (simp add: same_machine_def)

lemma same_machine_signed:
  assumes "same_machine B env" and "authentic env trusted st software v m pub" and "v \<noteq> []"
    and "single v"
  shows "signed B software v pub"
proof -
  have "Verify env data sig k = Verify B data sig k" for data sig k
    using assms(1) by (simp add: Verify_def ed25519_verify_def same_machine_def split: option.splits)
  then show ?thesis
    using assms(2-4) by (auto simp: signed_def authentic_def)
qed

lemma same_machine_dist:
  assumes "same_machine B env" and "e_getwd_ok B"
  shows "dist_target env l v = dist_target B l v"
  using assms by (simp add: dist_target_def absDistributionDir_def Abs_def same_machine_def)

lemma same_machine_targets: "same_machine B env \<Longrightarrow> targets env link w = targets B link w"
  by (simp add: targets_def same_machine_def)

lemma state_ok_UpdatedAt: "clock_ok env \<Longrightarrow> state_ok st \<Longrightarrow> state_ok (st\<lparr>s_UpdatedAt := e_now env n\<rparr>)"
  by (simp add: state_ok_def clock_ok_def)

lemma state_ok_revert: "state_ok st \<Longrightarrow> state_ok (revert_record st)"
  by (simp add: state_ok_def revert_record_def)

lemma ascii_Nil [simp]: "ascii []"
  by (simp add: ascii_def)

lemma state_ok_install:
  assumes "state_ok st" and "list_all ascii [cid, bt, sw, v, url, pub, os, arch]"
  shows "state_ok (install_record (st\<lparr>s_ClientID := cid, s_BearerToken := bt\<rparr>) sw v url pub os arch)"
  using assms by (simp add: state_ok_def install_record_def Let_def)

lemma state_ok_zero: "state_ok zero_state"
  by code_simp

lemma represents_untouched:
  assumes "represents B home software p w" and "untouched (at B home @ [software]) w w'"
    and "home \<noteq> []" and "plain software"
  shows "represents B home software p w'"
proof -
  let ?r = "at B home @ [software]" and ?l = "New home software"
  have l: "layout_at B ?l ?r" by (rule layout_at_New [OF assms(3,4)])
  have un: "look w' k = look w k" if "k \<in> pointers ?r" for k
    using assms(2) that by (simp add: untouched_def)
  have s: "?r @ [''state.json''] \<in> pointers ?r" "flip_locs ?r \<subseteq> pointers ?r"
    by (auto simp: pointers_def)
  have links: "at B (CurrentSymlink ?l) \<in> flip_locs ?r" "at B (CurrentSymlink ?l @ shimSuffix) \<in> flip_locs ?r"
    "at B (PreviousSymlink ?l) \<in> flip_locs ?r" "at B (PreviousSymlink ?l @ shimSuffix) \<in> flip_locs ?r"
    using flip_locs_cover [OF l] by (auto simp: link_locs_def)
  have "targets B (CurrentSymlink ?l) w' = targets B (CurrentSymlink ?l) w"
    "targets B (PreviousSymlink ?l) w' = targets B (PreviousSymlink ?l) w"
    using un s links by (auto intro!: targets_same)
  then show ?thesis
    using assms(1) un [OF s(1)] by (simp add: represents_def Let_def)
qed

text \<open>The record that is represented is the one \<open>Load\<close> reads.\<close>

lemma represents_recorded:
  assumes "represents B home software p w" and "same_machine B env" and "home \<noteq> []" and "plain software"
    and "recorded env (New home software) w st"
  shows "st = p_record p"
proof -
  have "at env (StateFile (New home software)) = at B home @ [software, ''state.json'']"
    using layout_locs0(1) [OF layout_at_New [OF assms(3,4), of env]] assms(2) by (simp add: same_machine_at)
  then show ?thesis
    using assms(1,5) by (auto simp: represents_def Let_def recorded_def state_file.dec_enc)
qed


text \<open>What all the calls of a history share.\<close>

definition site :: "env \<Rightarrow> string \<Rightarrow> string \<Rightarrow> bool" where
  "site B home software \<longleftrightarrow> e_getwd_ok B \<and> (\<forall>c \<in> set (e_cwd B). plain c) \<and> home \<noteq> [] \<and>
     plain software \<and> ascii software"

lemma signed_versions:
  assumes "product_ok (signed B software) trusted p"
  shows "slash \<notin> set (s_Current (p_record p))" "\<forall>h \<in> set (s_History (p_record p)). slash \<notin> set h"
proof -
  show h: "\<forall>h \<in> set (s_History (p_record p)). slash \<notin> set h"
    using assms by (fastforce simp: product_ok_def signed_def single_def)
  have "s_Current (p_record p) = [] \<or> s_Current (p_record p) \<in> set (s_History (p_record p))"
    using assms by (auto simp: product_ok_def record_wf_def split: if_splits)
  with h show "slash \<notin> set (s_Current (p_record p))" by auto
qed

lemma install_refines:
  assumes site: "site B home software" and rep: "represents B home software p w"
    and ok: "product_ok (signed B software) trusted p" and m: "same_machine B env" and c: "clock_ok env"
    and a: "ascii_server env cfg" and h: "home_of env cfg = home" "cf_TrustedPubKeys cfg = trusted"
    and po: "proper_offers env cfg software version w"
    and run: "run_state (Install env cfg software version) w = (res, w')"
  shows "\<exists>p'. (p' = p \<or> product_step (signed B software) trusted p p') \<and> represents B home software p' w'"
proof -
  let ?l = "New home software" and ?r = "at B home @ [software]"
  note st = site [unfolded site_def]
  have l: "layout_at env ?l ?r"
    using layout_at_New [of home software env] st by (simp add: same_machine_at [OF m])
  have sr: "sane_record env ?l w"
    using represents_recorded [OF rep m] st signed_versions [OF ok] by (auto simp: sane_record_def)
  have "offers_only single_release env cfg ?l software version w"
    using po unfolding proper_offers_def h offers_only_def by blast
  then have "install_outcome env cfg ?l ?r software version w res w'"
    by (intro wpD [OF wp_Install [of env cfg software ?r version w, unfolded h] run])
      (use l m st sr in \<open>auto simp: same_machine_def\<close>)
  then show ?thesis
    unfolding install_outcome_def
  proof (elim disjE exE conjE)
    assume "untouched ?r w w'"
    then show ?thesis using represents_untouched [OF rep] st by blast
  next
    fix s v mf pub
    assume rec: "recorded env ?l w s" and nv: "names_version env software version v"
      and sw: "switched env cfg ?l ?r software s v mf pub w res w'"
    have s: "s = p_record p" by (rule represents_recorded [OF rep m _ _ rec]) (use st in auto)
    have v: "v \<noteq> []" and au: "authentic env trusted s software v mf pub"
      using sw by (simp_all add: switched_def h)
    have "single_release mf \<and> ascii_manifest mf"
      using po rec nv au unfolding proper_offers_def h offers_only_def by blast
    then have v1: "single v" and va: "ascii v \<and> ascii (m_OS mf) \<and> ascii (m_Arch mf)"
      using au by (auto simp: authentic_def ascii_manifest_def)
    have S: "signed B software v pub" by (rule same_machine_signed [OF m au v v1])
    have trust: "checkTrust (p_record p) trusted pub = Inr ()" using au s by (simp add: authentic_def)
    have dn: "{dist_target env ?l v, trimRight (dist_target env ?l v) shim_trim} = dist_names B ?l v"
      using same_machine_dist [OF m] st by (simp add: dist_names_def)
    let ?rel = "insert (v, pub) (p_releases p)"
    have links: "targets B (CurrentSymlink ?l) w' \<union> targets B (PreviousSymlink ?l) w' \<subseteq>
        (\<Union>(v, k) \<in> ?rel. dist_names B ?l v)"
      using sw rep unfolding switched_def dn same_machine_targets [OF m] represents_def Let_def by fastforce
    show ?thesis
    proof (cases res)
      case (Inl e)
      then have "look w' (?r @ [''state.json'']) = look w (?r @ [''state.json''])"
        using sw by (simp add: switched_def)
      then have "represents B home software (p\<lparr>p_releases := ?rel\<rparr>) w'"
        using rep links by (simp add: represents_def Let_def)
      with product_step.unpacked_only [where S = "signed B software", OF S trust] show ?thesis by blast
    next
      case (Inr v')
      then obtain cid bt n fm where g: "granted env cfg s cid bt"
        and js: "look w' (?r @ [''state.json'']) = Some (FileNode fm (enc_state
          ((install_record (s\<lparr>s_ClientID := cid, s_BearerToken := bt\<rparr>) software v (cf_ServerURL cfg) pub
              (m_OS mf) (m_Arch mf))\<lparr>s_UpdatedAt := e_now env n\<rparr>)))"
        using sw by (auto simp: switched_def committed_def)
      let ?s = "(install_record (s\<lparr>s_ClientID := cid, s_BearerToken := bt\<rparr>) software v (cf_ServerURL cfg) pub
              (m_OS mf) (m_Arch mf))\<lparr>s_UpdatedAt := e_now env n\<rparr>"
      have so: "state_ok s" using rep s by (simp add: represents_def Let_def)
      have "ascii cid \<and> ascii bt"
        using g so a by (auto simp: granted_def ascii_server_def state_ok_def)
      moreover have "ascii pub" using au Verify_key by (auto simp: authentic_def)
      moreover have "ascii (cf_ServerURL cfg)" "ascii software" using a st by (simp_all add: ascii_server_def)
      ultimately have "list_all ascii [cid, bt, software, v, cf_ServerURL cfg, pub, m_OS mf, m_Arch mf]"
        using va by simp
      then have "state_ok ?s" by (intro state_ok_UpdatedAt [OF c] state_ok_install [OF so])
      with js obtain s' where s': "s' = ?s" "state_ok s'"
        "look w' (?r @ [''state.json'']) = Some (FileNode fm (enc_state s'))" by blast
      then have "represents B home software \<lparr>p_record = s', p_releases = ?rel\<rparr> w'"
        using links by (simp add: represents_def Let_def)
      moreover have "product_step (signed B software) trusted p \<lparr>p_record = s', p_releases = ?rel\<rparr>"
        unfolding s'(1) s by (rule product_step.installed [where S = "signed B software", OF S trust])
      ultimately show ?thesis by blast
    qed
  qed
qed

lemma revert_refines:
  assumes site: "site B home software" and rep: "represents B home software p w"
    and ok: "product_ok (signed B software) trusted p" and m: "same_machine B env" and c: "clock_ok env"
    and h: "home_of env cfg = home" and run: "run_state (Revert env cfg software) w = (res, w')"
  shows "\<exists>p'. (p' = p \<or> product_step (signed B software) trusted p p') \<and> represents B home software p' w'"
proof -
  let ?l = "New home software" and ?r = "at B home @ [software]"
  note st = site [unfolded site_def]
  have l: "layout_at env ?l ?r"
    using layout_at_New [of home software env] st by (simp add: same_machine_at [OF m])
  have "revert_outcome env ?l ?r w res w'"
    by (rule wpD [OF wp_Revert [of env cfg software ?r w, unfolded h] run]) (use l m in \<open>auto simp: same_machine_def\<close>)
  then show ?thesis
    unfolding revert_outcome_def
  proof (elim disjE exE conjE)
    assume "untouched ?r w w'"
    then show ?thesis using represents_untouched [OF rep] st by blast
  next
    fix s
    assume rec: "recorded env ?l w s" and prev: "s_Previous s \<noteq> []"
      and cur: "targets env (CurrentSymlink ?l) w' \<subseteq> targets env (CurrentSymlink ?l) w \<union>
           {dist_target env ?l (s_Previous s), trimRight (dist_target env ?l (s_Previous s)) shim_trim}"
      and pre: "targets env (PreviousSymlink ?l) w' \<subseteq>
           targets env (PreviousSymlink ?l) w \<union> targets env (CurrentSymlink ?l) w"
      and js: "case res of
            Inl _ \<Rightarrow> look w' (?r @ [''state.json'']) = look w (?r @ [''state.json''])
          | Inr _ \<Rightarrow> current_names env ?l (dist_target env ?l (s_Previous s)) w' \<and>
              (\<exists>fm n. look w' (?r @ [''state.json'']) =
                 Some (FileNode fm (enc_state ((revert_record s)\<lparr>s_UpdatedAt := e_now env n\<rparr>))))"
    have s: "s = p_record p" by (rule represents_recorded [OF rep m _ _ rec]) (use st in auto)
    have dn: "{dist_target env ?l v, trimRight (dist_target env ?l v) shim_trim} = dist_names B ?l v" for v
      using same_machine_dist [OF m] st by (simp add: dist_names_def)
    have "s_Previous s \<in> set (s_History s)"
      using ok prev by (auto simp: product_ok_def record_wf_def s split: if_splits)
    then obtain k where "(s_Previous s, k) \<in> p_releases p" using ok by (auto simp: product_ok_def s)
    then have links: "targets B (CurrentSymlink ?l) w' \<union> targets B (PreviousSymlink ?l) w' \<subseteq>
        (\<Union>(v, k) \<in> p_releases p. dist_names B ?l v)"
      using cur pre rep unfolding dn same_machine_targets [OF m] represents_def Let_def by fastforce
    show ?thesis
    proof (cases res)
      case (Inl e)
      then have "represents B home software p w'"
        using rep links js by (simp add: represents_def Let_def)
      then show ?thesis by blast
    next
      case (Inr u)
      then obtain n fm where f: "look w' (?r @ [''state.json'']) =
          Some (FileNode fm (enc_state ((revert_record s)\<lparr>s_UpdatedAt := e_now env n\<rparr>)))"
        using js by auto
      have "state_ok ((revert_record s)\<lparr>s_UpdatedAt := e_now env n\<rparr>)"
        using rep s by (intro state_ok_UpdatedAt [OF c] state_ok_revert) (simp add: represents_def Let_def)
      then have "represents B home software
          (p\<lparr>p_record := (revert_record (p_record p))\<lparr>s_UpdatedAt := e_now env n\<rparr>\<rparr>) w'"
        using f links by (simp add: represents_def Let_def s)
      with product_step.exchanged [of p] prev show ?thesis unfolding s by blast
    qed
  qed
qed

lemma fresh_represents:
  assumes "fresh B home software w" and "site B home software"
  shows "represents B home software \<lparr> p_record = zero_state, p_releases = {} \<rparr> w"
proof -
  let ?r = "at B home @ [software]" and ?l = "New home software"
  have l: "layout_at B ?l ?r" using assms(2) by (intro layout_at_New) (auto simp: site_def)
  have "link_locs B (CurrentSymlink ?l) \<union> {at B (PreviousSymlink ?l), at B (PreviousSymlink ?l @ shimSuffix)} =
      flip_locs ?r"
    by (rule flip_locs_cover [OF l])
  then have "at B (CurrentSymlink ?l) \<in> pointers ?r" "at B (CurrentSymlink ?l @ shimSuffix) \<in> pointers ?r"
    "at B (PreviousSymlink ?l) \<in> pointers ?r" "at B (PreviousSymlink ?l @ shimSuffix) \<in> pointers ?r"
    "?r @ [''state.json''] \<in> pointers ?r"
    by (auto simp: link_locs_def pointers_def)
  then show ?thesis
    using assms(1) by (simp add: represents_def Let_def fresh_def targets_def state_ok_zero)
qed


lemma run_refines:
  assumes "site B home software" and "fresh B home software w0"
    and "product_run B home software trusted w0 w"
  shows "\<exists>p. product_reach (signed B software) trusted p \<and> represents B home software p w"
  using assms(3)
proof induction
  case begins
  then show ?case using fresh_represents [OF assms(2,1)] product_reach.nothing by blast
next
  case (install_call w env cfg version res w')
  then obtain p where p: "product_reach (signed B software) trusted p" "represents B home software p w" by blast
  have ok: "product_ok (signed B software) trusted p" by (rule product_invariant [OF p(1) signed_key])
  from install_refines [OF assms(1) p(2) ok install_call(2-8)] p(1) show ?case
    by (blast intro: product_reach.next_step)
next
  case (revert_call w env cfg r w')
  then obtain p where p: "product_reach (signed B software) trusted p" "represents B home software p w" by blast
  have ok: "product_ok (signed B software) trusted p" by (rule product_invariant [OF p(1) signed_key])
  from revert_refines [OF assms(1) p(2) ok revert_call(2-5)] p(1) show ?case
    by (blast intro: product_reach.next_step)
next
  case (elsewhere w w')
  then show ?case using represents_untouched assms(1) by (auto simp: site_def)
qed

text \<open>\<open>C4\<close>. Any history of a product that begins with nothing of it on the machine, of installs and
  reverts that each meet their own server, faults and crash point, with anything happening
  elsewhere in between, refines the abstract machine: \<^verbatim>\<open>state.json\<close> is the encoding of the record
  the machine has reached (or there is none and it is the empty one), and the targets the links
  show are the directories of the signed releases it has unpacked. Each install is one whose server
  can get it to accept, past the signature and the gate, only releases whose version is a single path
  component not ending in \<^verbatim>\<open>.archived\<close> and whose texts are ASCII, and whose client identifiers are
  ASCII; what anybody else signs is not restricted.\<close>

theorem history_refines:
  assumes "site B home software" and "fresh B home software w0"
    and "product_run B home software trusted w0 w"
  shows "\<exists>p. product_reach (signed B software) trusted p \<and> represents B home software p w"
  using assms by (rule run_refines)

lemma represents_load:
  assumes "represents B home software p w" and "site B home software"
  shows "recorded B (New home software) w (p_record p)"
proof -
  have "at B (StateFile (New home software)) = at B home @ [software, ''state.json'']"
    using layout_locs0(1) [OF layout_at_New, of home software B] assms(2) by (simp add: site_def)
  then show ?thesis
    using assms(1) by (auto simp: represents_def Let_def recorded_def state_file.dec_enc)
qed

lemma represents_links:
  assumes "represents B home software p w" and "product_ok (signed B software) trusted p"
    and "same_machine B env" and "link \<in> {CurrentSymlink (New home software), PreviousSymlink (New home software)}"
    and "fst (run_state (ReadCurrent env link) w) = Inr t"
  shows "\<exists>v k. signed B software v k \<and> t \<in> dist_names B (New home software) v"
proof -
  have "t \<in> targets B link w"
    using ReadCurrent_in_targets [of env link w t "snd (run_state (ReadCurrent env link) w)"] assms(5)
    by (simp add: same_machine_targets [OF assms(3)] prod_eq_iff)
  moreover have "targets B (CurrentSymlink (New home software)) w \<union> targets B (PreviousSymlink (New home software)) w \<subseteq>
      (\<Union>(v, k) \<in> p_releases p. dist_names B (New home software) v)"
    using assms(1) by (simp add: represents_def Let_def)
  ultimately have "t \<in> (\<Union>(v, k) \<in> p_releases p. dist_names B (New home software) v)"
    using assms(4) by blast
  with assms(2) show ?thesis by (fastforce simp: product_ok_def)
qed

text \<open>\<open>C3\<close>. In every such history \<^verbatim>\<open>state.json\<close> can be read, its current and previous version are
  distinct versions of its history, and each version of the history was released for this
  product, in a signed manifest, under a key of the user's trusted set or, without such a set, under
  the one key the record pins; and what a process reads from \<^verbatim>\<open>current\<close> or \<^verbatim>\<open>previous\<close> is the directory
  of a signed release of this product, after any faults and crashes. As there, no server gets an
  install to accept a version that is more than one path component, or texts that are not ASCII.\<close>

theorem history_is_vouched:
  assumes "site B home software" and "fresh B home software w0"
    and "product_run B home software trusted w0 w"
  shows "(\<exists>st. recorded B (New home software) w st \<and> record_wf st \<and>
       (\<forall>v \<in> set (s_History st). \<exists>k. signed B software v k \<and> vouched trusted st k)) \<and>
    (\<forall>env link t. same_machine B env \<longrightarrow>
       link \<in> {CurrentSymlink (New home software), PreviousSymlink (New home software)} \<longrightarrow>
       fst (run_state (ReadCurrent env link) w) = Inr t \<longrightarrow>
       (\<exists>v k. signed B software v k \<and> t \<in> dist_names B (New home software) v))"
proof -
  obtain p where p: "product_reach (signed B software) trusted p" "represents B home software p w"
    using run_refines [OF assms] by blast
  have ok: "product_ok (signed B software) trusted p" by (rule product_invariant [OF p(1) signed_key])
  have "\<forall>v \<in> set (s_History (p_record p)). \<exists>k. signed B software v k \<and> vouched trusted (p_record p) k"
    using ok by (fastforce simp: product_ok_def)
  moreover have "record_wf (p_record p)" using ok by (simp add: product_ok_def)
  ultimately show ?thesis
    using represents_load [OF p(2) assms(1)] represents_links [OF p(2) ok] by blast
qed


subsection \<open>A history that runs\<close>

text \<open>On a new machine version 2 is installed; then the machine stops in the third call of a revert.\<close>

definition first_install :: world where
  "first_install = snd (run_state (Install (demo_server demo_answer demo_data) demo_config ''app'' ''2'') new_machine)"

definition after_revert :: world where
  "after_revert = snd (run_state (Revert ((demo_server demo_answer demo_data)\<lparr>e_fault :=
     (\<lambda>i. if i < w_ops first_install + 2 then None else Some 0)\<rparr>) demo_config ''app'') first_install)"

lemma demo_config_fields:
  "cf_TrustedPubKeys demo_config = []" "cf_InstallToken demo_config = []" "cf_ServerURL demo_config = ''http://s''"
  "home_of env demo_config = ''/home''"
  by (simp_all add: demo_config_def zero_config_def home_of_def)

lemma demo_same: "same_machine (demo_server x d) (demo_server x d)"
  "same_machine (demo_server x d) ((demo_server x d)\<lparr>e_fault := f\<rparr>)"
  by (simp_all add: same_machine_def demo_server_def serving_def calm_def)

lemma demo_clock: "clock_ok (demo_server x d)" "clock_ok ((demo_server x d)\<lparr>e_fault := f\<rparr>)"
proof -
  have "ascii ''2026-01-01T00:00:00Z''" "rfc3339_ok ''2026-01-01T00:00:00Z''" by code_simp+
  then show "clock_ok (demo_server x d)" "clock_ok ((demo_server x d)\<lparr>e_fault := f\<rparr>)"
    by (simp_all add: clock_ok_def demo_server_def serving_def calm_def)
qed

lemma demo_proper: "proper_offers (demo_server x demo_data) cfg software ''2'' w"
proof -
  have "ascii (Manifest.Version demo_manifest)" "ascii (m_OS demo_manifest)" "ascii (m_Arch demo_manifest)"
    by code_simp+
  then have "ascii_manifest m" if "authentic (demo_server x demo_data) trusted st software v m pub" for trusted st v m pub
    using that by (auto simp: authentic_def ascii_manifest_def demo_parse dest!: demo_verify)
  moreover have "offers_only single_release (demo_server x demo_data) cfg l software ''2'' w" for l
    by (rule demo_offers)
  ultimately show ?thesis unfolding proper_offers_def offers_only_def by blast
qed

lemma demo_exchange:
  "case decode_as ''exchange decode''
     (dec_struct dec_exchange_field \<lparr> x_ClientID = [], x_BearerToken = [], x_Classifications = [] \<rparr>)
     (Body [b] True) of
   Inl _ \<Rightarrow> True | Inr ex \<Rightarrow> ascii (x_ClientID ex) \<and> ascii (x_BearerToken ex)"
  if "b = demo_data \<or> b = demo_blob"
  using that by (elim disjE; clarify; code_simp)

lemma demo_server_replies:
  "e_http (demo_server demo_answer d) n rq = demo_answer \<or>
   e_http (demo_server demo_answer d) n rq = Resp 200 ''200 OK'' [] (Body [demo_blob] True) \<or>
   e_http (demo_server demo_answer d) n rq = NetErr (NewErr ''offline'')"
  by (cases n) (auto simp: demo_server_def serving_def less_Suc_eq)

lemma demo_ascii_server: "ascii_server (demo_server demo_answer d) demo_config"
proof -
  have "ascii (x_ClientID ex) \<and> ascii (x_BearerToken ex)"
    if run: "run_state (ExchangeInstallToken (demo_server demo_answer d) tr tok hw) w = (Inr ex, w')" for tr tok hw w ex w'
  proof -
    have "\<exists>n rq st status hdrs b. e_http (demo_server demo_answer d) n rq = Resp st status hdrs b \<and>
        decode_as ''exchange decode''
          (dec_struct dec_exchange_field \<lparr> x_ClientID = [], x_BearerToken = [], x_Classifications = [] \<rparr>) b = Inr ex"
      using run by (auto simp: ExchangeInstallToken_def http_send_def http_do_def Let_def
          split: sum.splits http_result.splits if_splits; blast)
    then obtain n rq st status hdrs b where "e_http (demo_server demo_answer d) n rq = Resp st status hdrs b"
      "decode_as ''exchange decode''
          (dec_struct dec_exchange_field \<lparr> x_ClientID = [], x_BearerToken = [], x_Classifications = [] \<rparr>) b = Inr ex"
      by blast
    then show ?thesis
      using demo_server_replies [of d n rq] demo_exchange [of demo_data] demo_exchange [of demo_blob]
      by (auto simp: demo_answer_def split: sum.splits)
  qed
  moreover have "ascii ''http://s''" by code_simp
  ultimately show ?thesis by (simp add: ascii_server_def demo_config_fields)
qed

lemma demo_site: "site (demo_server demo_answer demo_data) ''/home'' ''app''"
proof -
  have "ascii ''app''" by code_simp
  then show ?thesis
    by (simp add: site_def plain_def) (simp add: demo_server_def serving_def calm_def)
qed

lemma demo_fresh: "fresh (demo_server demo_answer demo_data) ''/home'' ''app'' new_machine"
proof -
  have "at (demo_server demo_answer demo_data) ''/home'' = [''home'']"
    by (simp add: loc_of_def IsAbs_def rstep_def)
  then show ?thesis
    by (auto simp: fresh_def pointers_iff new_machine_def world_of_def look_def node_at_def)
qed

lemma demo_run: "product_run (demo_server demo_answer demo_data) ''/home'' ''app'' [] new_machine first_install"
  by (rule product_run.install_call [OF product_run.begins demo_same(1) demo_clock(1) demo_ascii_server
      demo_config_fields(4,1) demo_proper]) (simp add: first_install_def prod_eq_iff)

theorem history_refines_witness:
  "\<exists>p. product_reach (signed (demo_server demo_answer demo_data) ''app'') [] p \<and>
     represents (demo_server demo_answer demo_data) ''/home'' ''app'' p first_install"
  by (rule history_refines [OF demo_site demo_fresh demo_run])

theorem history_is_vouched_witness:
  "\<exists>st. recorded (demo_server demo_answer demo_data) (New ''/home'' ''app'') after_revert st \<and> record_wf st"
proof -
  have "product_run (demo_server demo_answer demo_data) ''/home'' ''app'' [] new_machine after_revert"
    by (rule product_run.revert_call [OF demo_run demo_same(2) demo_clock(2) demo_config_fields(4)])
      (simp add: after_revert_def prod_eq_iff)
  from history_is_vouched [OF demo_site demo_fresh this] show ?thesis by blast
qed

end
