(* ===== verification/Walk.thy ===== *)
theory Walk
  imports Samples
begin

section \<open>Walking a directory tree\<close>

text \<open>
  Two parts of the client go through a tree with \<^verbatim>\<open>os.ReadDir\<close>: \<^verbatim>\<open>walkDir\<close> of the verify command
  and \<^verbatim>\<open>filepath.WalkDir\<close> under the disk usage of the listing. They differ in how a child's path is
  made and in what a visit does; the recursion is the same and is written here once, over the
  client's visit. Nothing bounds it but the depth of the tree, which is its fuel. The locale
  \<open>walker\<close> holds what the two visits promise (no file changes, and it descends into directories
  only), and proves for both that more fuel than the depth changes nothing and that what every visit
  keeps the walk keeps.
\<close>

fun walk_entries ::
  "(string \<Rightarrow> 's \<Rightarrow> 's act) \<Rightarrow> (string \<Rightarrow> node \<Rightarrow> 's \<Rightarrow> ('s \<times> bool) act) \<Rightarrow> (string \<Rightarrow> string) \<Rightarrow>
   (string \<times> node) list \<Rightarrow> 's \<Rightarrow> 's act"
where
  "walk_entries rec visit child [] s = State_Monad.return s"
| "walk_entries rec visit child ((name, n) # es) s = do {
     (s1, descend) \<leftarrow> visit (child name) n s;
     s2 \<leftarrow> (if descend then rec (child name) s1 else State_Monad.return s1);
     walk_entries rec visit child es s2 }"

primrec walk_tree ::
  "nat \<Rightarrow> env \<Rightarrow> (string \<Rightarrow> string \<Rightarrow> string) \<Rightarrow> (string \<Rightarrow> node \<Rightarrow> 's \<Rightarrow> ('s \<times> bool) act) \<Rightarrow>
   string \<Rightarrow> 's \<Rightarrow> 's act"
where
  "walk_tree 0 env child visit root s = State_Monad.return s"
| "walk_tree (Suc k) env child visit root s = do {
     r \<leftarrow> os_read_dir env root;
     case r of
       Inl _ \<Rightarrow> State_Monad.return s
     | Inr es \<Rightarrow> walk_entries (walk_tree k env child visit) visit (child root) es s }"

text \<open>The longest location in the tree, and with it the depth of recursion that is always enough.\<close>

definition tree_height :: "tree \<Rightarrow> nat" where
  "tree_height t = foldr (\<lambda>(l, n). max (length l)) t 0"

definition walk_all ::
  "env \<Rightarrow> (string \<Rightarrow> string \<Rightarrow> string) \<Rightarrow> (string \<Rightarrow> node \<Rightarrow> 's \<Rightarrow> ('s \<times> bool) act) \<Rightarrow> string \<Rightarrow> 's \<Rightarrow> 's act"
where
  "walk_all env child visit root s = do {
     w \<leftarrow> State_Monad.get;
     walk_tree (Suc (tree_height (w_tree w))) env child visit root s }"

lemma tree_height: "node_at t l = Some n \<Longrightarrow> length l \<le> tree_height t"
proof (cases "l = []")
  case False
  assume "node_at t l = Some n"
  with False have "(l, n) \<in> set t" by (auto simp: node_at_def dest: map_of_SomeD)
  then show ?thesis by (induction t) (auto simp: tree_height_def)
qed simp

lemma child_names_node:
  assumes "x \<in> set (child_names t l)"
  shows "plain x \<and> (\<exists>n. node_at t (l @ [x]) = Some n)"
proof -
  obtain k where k: "k \<in> set (map fst t)" "k \<noteq> []" "butlast k = l" "x = last k" and "plain x"
    using assms by (auto simp: child_names_def)
  then have "k = l @ [x]" by (metis append_butlast_last_id)
  moreover have "map_of t k \<noteq> None" using k(1) by (simp add: map_of_eq_None_iff)
  ultimately show ?thesis using \<open>plain x\<close> by (auto simp: node_at_def)
qed

lemma wp_os_lstat:
  "wp (os_lstat env p) (\<lambda>r w'. same_files w w' \<and>
     (case r of Inl _ \<Rightarrow> True | Inr n \<Rightarrow> look w (at env p) = Some n)) w"
  by (intro wp_keeps keeps_same_files wpI)
    (auto simp: os_lstat_def run_state_fs_op Let_def t_lstat_def look_def
      split: sum.splits option.splits prod.splits)

lemma os_read_dir_ok:
  assumes "run_state (os_read_dir env p) w = (Inr es, w')"
  shows "(x, n) \<in> set es \<Longrightarrow> plain x \<and> look w (at env p @ [x]) = Some n"
    and "look w (at env p) = Some DirNode"
  using assms child_names_node [of _ "w_tree w" "at env p"]
  by (fastforce simp: os_read_dir_def run_state_fs_op Let_def t_read_dir_def look_def
      split: option.splits node.splits prod.splits)+

lemma wp_os_read_dir:
  "wp (os_read_dir env p) (\<lambda>r w'. same_files w w' \<and>
     (case r of Inl _ \<Rightarrow> True
      | Inr es \<Rightarrow> look w (at env p) = Some DirNode \<and>
          (\<forall>(x, n) \<in> set es. plain x \<and> look w (at env p @ [x]) = Some n))) w"
  by (intro wp_keeps keeps_same_files wpI) (auto split: sum.splits dest: os_read_dir_ok)

text \<open>A relation that the visits and the reading of directories respect.\<close>

lemma keeps_walk:
  fixes visit :: "string \<Rightarrow> node \<Rightarrow> 's \<Rightarrow> ('s \<times> bool) act"
  assumes R: "preorder_frame R" and "\<And>p n s. keeps R (visit p n s)" and "\<And>p. keeps R (os_read_dir env p)"
  shows "keeps R (walk_all env child visit root s)"
proof -
  note rules = preorder_frame.keeps_rules [OF R]
  have entries: "keeps R (walk_entries rec visit c es s)" if "\<And>p s. keeps R (rec p s)" for rec c es s
    using that by (induction es arbitrary: s) (auto intro!: rules assms(2))
  have "keeps R (walk_tree k env child visit root s)" for k
    by (induction k arbitrary: root s) (auto intro!: rules assms(3) entries)
  moreover have "keeps R (State_Monad.get :: (world, world) state)"
    using preorder_frame.refl [OF R] by (simp add: keeps_def)
  ultimately show ?thesis unfolding walk_all_def by (intro rules)
qed


subsection \<open>The contract of a visit\<close>

locale walker =
  fixes env :: env
    and child :: "string \<Rightarrow> string \<Rightarrow> string"
    and visit :: "string \<Rightarrow> node \<Rightarrow> 's \<Rightarrow> ('s \<times> bool) act"
  assumes at_child: "root \<noteq> [] \<Longrightarrow> plain x \<Longrightarrow> child root x \<noteq> [] \<and> at env (child root x) = at env root @ [x]"
    and visit_files: "keeps same_files (visit p n s)"
    and visit_dirs: "wp (visit p n s) (\<lambda>(s', descend) w'. descend \<longrightarrow> n = DirNode) w"
begin

lemma keeps_walk_all: "keeps same_files (walk_all env child visit root s)"
  by (rule keeps_walk [OF sf.preorder_frame_axioms visit_files keeps_same_files(6)])

lemma keeps_walk_tree: "keeps same_files (walk_tree k env child visit root s)"
proof (induction k arbitrary: root s)
  case (Suc k)
  have "keeps same_files (walk_entries (walk_tree k env child visit) visit c es s)" for c es s
    by (induction es arbitrary: s) (auto intro!: sf.keeps_rules visit_files Suc.IH)
  then show ?case by (auto intro!: sf.keeps_rules keeps_same_files)
qed (simp add: sf.keeps_return)

text \<open>What every visit below the root keeps, the walk keeps.\<close>

definition visits :: "world \<Rightarrow> loc \<Rightarrow> ('s \<Rightarrow> bool) \<Rightarrow> bool" where
  "visits w r P \<longleftrightarrow> (\<forall>p n s w1. same_files w w1 \<and> r \<noteq> at env p \<and> under r (at env p) \<and>
     look w (at env p) = Some n \<and> P s \<longrightarrow> wp (visit p n s) (\<lambda>(s', d) w'. P s') w1)"

lemma wp_walk_entries:
  assumes inv: "visits w r P" and "under r (at env root)" and "root \<noteq> []"
    and rec: "\<And>p s w1. p \<noteq> [] \<Longrightarrow> under r (at env p) \<Longrightarrow> P s \<Longrightarrow> same_files w w1 \<Longrightarrow>
      wp (rec p s) (\<lambda>s' w'. same_files w w' \<and> P s') w1"
    and "\<forall>(x, n) \<in> set es. plain x \<and> look w (at env root @ [x]) = Some n"
    and "P s" and "same_files w w1"
  shows "wp (walk_entries rec visit (child root) es s) (\<lambda>s' w'. same_files w w' \<and> P s') w1"
  using assms(5-7)
proof (induction es arbitrary: s w1)
  case Nil
  then show ?case by (simp add: wp_return)
next
  case (Cons e es)
  obtain x n where e: "e = (x, n)" by (cases e)
  let ?p = "child root x"
  have x: "plain x" "look w (at env root @ [x]) = Some n" using Cons.prems(1) e by auto
  then have at: "?p \<noteq> []" "at env ?p = at env root @ [x]" using at_child [OF assms(3) x(1)] by auto
  then have un: "under r (at env ?p)" "r \<noteq> at env ?p"
    using assms(2) by (auto simp: under_iff)
  have v: "wp (visit ?p n s) (\<lambda>(s', d) w'. same_files w w' \<and> P s') w1"
  proof (rule wpI, clarify)
    fix s1 d w2
    assume run: "run_state (visit ?p n s) w1 = ((s1, d), w2)"
    have "same_files w w2"
      using keepsD [OF visit_files run] Cons.prems(3) by (blast intro: sf.trans)
    moreover have "wp (visit ?p n s) (\<lambda>(s', d) w'. P s') w1"
      using inv un at x(2) Cons.prems(2,3) by (auto simp: visits_def)
    from wpD [OF this run] have "P s1" by simp
    ultimately show "same_files w w2 \<and> P s1" ..
  qed
  show ?case
    unfolding e walk_entries.simps
  proof (rule wp_bindI [OF v], clarify)
    fix s1 d w2
    assume 2: "same_files w w2" "P s1"
    show "wp (do { s2 \<leftarrow> (if d then rec ?p s1 else State_Monad.return s1);
        walk_entries rec visit (child root) es s2 }) (\<lambda>s' w'. same_files w w' \<and> P s') w2"
    proof (rule wp_bindI)
      show "wp (if d then rec ?p s1 else State_Monad.return s1) (\<lambda>s' w'. same_files w w' \<and> P s') w2"
        using rec [OF at(1) un(1) 2(2,1)] 2 by (simp add: wp_return)
      show "wp (walk_entries rec visit (child root) es s2) (\<lambda>s' w'. same_files w w' \<and> P s') w3"
        if "same_files w w3 \<and> P s2" for s2 w3
        using that Cons.IH [of s2 w3] Cons.prems(1) by simp
    qed
  qed
qed

lemma wp_walk_tree:
  assumes "visits w r P"
  shows "root \<noteq> [] \<Longrightarrow> under r (at env root) \<Longrightarrow> P s \<Longrightarrow> same_files w w1 \<Longrightarrow>
    wp (walk_tree k env child visit root s) (\<lambda>s' w'. same_files w w' \<and> P s') w1"
proof (induction k arbitrary: root s w1)
  case 0
  then show ?case by (simp add: wp_return)
next
  case (Suc k)
  show ?case unfolding walk_tree.simps
  proof (rule wp_bindI [OF wp_os_read_dir])
    fix res w2
    assume 1: "same_files w1 w2 \<and> (case res of Inl _ \<Rightarrow> True | Inr es \<Rightarrow> look w1 (at env root) = Some DirNode \<and>
        (\<forall>(x, n) \<in> set es. plain x \<and> look w1 (at env root @ [x]) = Some n))"
    then have 2: "same_files w w2" using Suc.prems(4) by (blast intro: sf.trans)
    show "wp (case res of Inl _ \<Rightarrow> State_Monad.return s
        | Inr es \<Rightarrow> walk_entries (walk_tree k env child visit) visit (child root) es s)
      (\<lambda>s' w'. same_files w w' \<and> P s') w2"
    proof (cases res)
      case (Inl e)
      with 2 Suc.prems show ?thesis by (simp add: wp_return)
    next
      case (Inr es)
      then have "\<forall>(x, n) \<in> set es. plain x \<and> look w (at env root @ [x]) = Some n"
        using 1 same_files_look [OF Suc.prems(4)] by auto
      then have "wp (walk_entries (walk_tree k env child visit) visit (child root) es s)
          (\<lambda>s' w'. same_files w w' \<and> P s') w2"
        by (intro wp_walk_entries [OF assms Suc.prems(2,1) Suc.IH] Suc.prems(3) 2)
      with Inr show ?thesis by simp
    qed
  qed
qed

lemma wp_walk_all:
  assumes "visits w (at env root) P" and "root \<noteq> []" and "P s"
  shows "wp (walk_all env child visit root s) (\<lambda>s' w'. same_files w w' \<and> P s') w"
  unfolding walk_all_def wp_bind wp_get
  by (rule wp_walk_tree [OF assms(1,2) under_refl assms(3) same_files_refl])

text \<open>The depth of the tree is fuel enough.\<close>

lemma walk_entries_cong:
  assumes "root \<noteq> []"
    and "\<And>x s w1. plain x \<Longrightarrow> (x, DirNode) \<in> set es \<Longrightarrow> same_files w w1 \<Longrightarrow>
      run_state (rec (child root x) s) w1 = run_state (rec' (child root x) s) w1"
    and "\<And>p s. keeps same_files (rec' p s)"
    and "list_all (\<lambda>(x, n). plain x) es" and "same_files w w1"
  shows "run_state (walk_entries rec visit (child root) es s) w1 =
    run_state (walk_entries rec' visit (child root) es s) w1"
  using assms(2,4,5)
proof (induction es arbitrary: s w1)
  case (Cons e es)
  obtain x n where e: "e = (x, n)" by (cases e)
  obtain s1 d w2 where v: "run_state (visit (child root x) n s) w1 = ((s1, d), w2)"
    by (metis prod.exhaust)
  have 2: "same_files w w2"
    using keepsD [OF visit_files v] Cons.prems(3) by (blast intro: sf.trans)
  have d: "d \<Longrightarrow> n = DirNode" using wpD [OF visit_dirs v] by simp
  let ?m = "if d then rec (child root x) s1 else State_Monad.return s1"
  let ?m' = "if d then rec' (child root x) s1 else State_Monad.return s1"
  have eq: "run_state ?m w2 = run_state ?m' w2"
    using Cons.prems(1) [of x w2 s1] Cons.prems(2) 2 d e by auto
  obtain s2 w3 where m': "run_state ?m' w2 = (s2, w3)" by (metis prod.exhaust)
  have "keeps same_files ?m'" by (intro sf.keeps_rules assms(3))
  from keepsD [OF this m'] 2 have "same_files w w3" by (blast intro: sf.trans)
  then have "run_state (walk_entries rec visit (child root) es s2) w3 =
      run_state (walk_entries rec' visit (child root) es s2) w3"
    using Cons.prems by (intro Cons.IH) auto
  with v eq m' show ?case by (simp add: e)
qed simp

lemma walk_tree_fuel:
  "root \<noteq> [] \<Longrightarrow> same_files w w1 \<Longrightarrow> tree_height (w_tree w) < k + length (at env root) \<Longrightarrow> 0 < k \<Longrightarrow>
   run_state (walk_tree (k + j) env child visit root s) w1 = run_state (walk_tree k env child visit root s) w1"
proof (induction k arbitrary: root s w1)
  case (Suc k)
  obtain r w2 where rd: "run_state (os_read_dir env root) w1 = (r, w2)" by (metis prod.exhaust)
  have 2: "same_files w w2"
    using keepsD [OF keeps_same_files(6) rd] Suc.prems(2) by (blast intro: sf.trans)
  show ?case
  proof (cases r)
    case (Inl e)
    with rd show ?thesis by simp
  next
    case (Inr es)
    have es: "plain x \<and> look w (at env root @ [x]) = Some n" if "(x, n) \<in> set es" for x n
      using os_read_dir_ok(1) [OF rd [unfolded Inr] that] same_files_look [OF Suc.prems(2)] by auto
    have "run_state (walk_entries (walk_tree (k + j) env child visit) visit (child root) es s) w2 =
        run_state (walk_entries (walk_tree k env child visit) visit (child root) es s) w2"
    proof (rule walk_entries_cong [OF Suc.prems(1) _ keeps_walk_tree _ 2])
      fix x s w3
      assume x: "plain x" "(x, DirNode) \<in> set es" "same_files w w3"
      then have c: "child root x \<noteq> []" "at env (child root x) = at env root @ [x]"
        using at_child [OF Suc.prems(1)] by auto
      have "length (at env root @ [x]) \<le> tree_height (w_tree w)"
        using es [OF x(2)] by (intro tree_height) (simp add: look_def)
      with c Suc.prems(3) show "run_state (walk_tree (k + j) env child visit (child root x) s) w3 =
          run_state (walk_tree k env child visit (child root x) s) w3"
        by (intro Suc.IH x(3)) auto
    qed (use es in \<open>auto simp: list_all_iff\<close>)
    with rd Inr show ?thesis by simp
  qed
qed simp

lemma walk_all_fuel:
  assumes "root \<noteq> []" and "tree_height (w_tree w) < k"
  shows "run_state (walk_all env child visit root s) w = run_state (walk_tree k env child visit root s) w"
proof -
  obtain j where "k = Suc (tree_height (w_tree w)) + j" using assms(2) by (metis less_iff_Suc_add add_Suc)
  then show ?thesis
    using walk_tree_fuel [OF assms(1) same_files_refl, of w "Suc (tree_height (w_tree w))" j s]
    by (simp add: walk_all_def del: walk_tree.simps)
qed

end

lemma at_slash_child:
  assumes "root \<noteq> []" and "plain x"
  shows "root @ slash # x \<noteq> [] \<and> at env (root @ slash # x) = at env root @ [x]"
proof -
  have "at env (root @ slash # x) = resolve (at env root) (splitOn slash x)"
    using assms(1) by (simp add: loc_of_def IsAbs_append splitOn_append)
  with assms(2) show ?thesis by (simp add: splitOn_id plain_def [of x] rstep_plain [OF assms(2)])
qed

lemma at_Join_child:
  assumes "root \<noteq> []" and "plain x"
  shows "Join [root, x] \<noteq> [] \<and> at env (Join [root, x]) = at env root @ [x]"
  using loc_of_Join_plain [OF assms] Join_pair_not_Nil [OF assms(1)] by (simp del: Join.simps)

end
