(* ===== verification/Verify_Cmd.thy ===== *)
theory Verify_Cmd
  imports Walk Install_Examples
begin

section \<open>client/internal/verify: checking an installation\<close>

text \<open>
  Models \<^verbatim>\<open>client/internal/verify/verify.go\<close>. \<open>verify_Verify\<close> adds one finding after another to a
  report; it is cut where the source's comments cut it, each part returning the report and, where
  the source returns early, whether to go on. The error beside the report is always \<^verbatim>\<open>nil\<close> and left
  out. The lemmas: the walk ends, the checks change nothing, and a report without a failed check
  says that the installation is what the signed manifest describes.
\<close>

record Check =
  ck_Name :: string
  ck_OK :: bool
  ck_Detail :: string

record Report =
  rp_Software :: string
  rp_Version :: string
  rp_Checks :: "Check list"

fun checks_ok :: "Check list \<Rightarrow> bool" where
  "checks_ok [] = True"
| "checks_ok (c # cs) = (if \<not> ck_OK c then False else checks_ok cs)"

definition AllOK :: "Report \<Rightarrow> bool" where
  "AllOK r = checks_ok (rp_Checks r)"

record VerifyOptions =
  vo_Offline :: bool
  vo_Server :: string
  vo_Trusted :: "string list"
  vo_Transport :: "client option"

definition add_check :: "string \<Rightarrow> bool \<Rightarrow> string \<Rightarrow> Report \<Rightarrow> Report" where
  "add_check name good detail r =
     r\<lparr>rp_Checks := rp_Checks r @ [\<lparr> ck_Name = name, ck_OK = good, ck_Detail = detail \<rparr>]\<rparr>"

text \<open>The ellipsis is the three bytes of U+2026.\<close>

definition verify_short :: "string \<Rightarrow> string" where
  "verify_short h =
     (if length h \<le> 16 then h
      else take 8 h @ [CHR 0xE2, CHR 0x80, CHR 0xA6] @ drop (length h - 8) h)"


subsection \<open>Counting files\<close>

definition walk_visit ::
  "env \<Rightarrow> (string \<Rightarrow> node \<Rightarrow> 's \<Rightarrow> 's) \<Rightarrow> string \<Rightarrow> node \<Rightarrow> 's \<Rightarrow> ('s \<times> bool) act"
where
  "walk_visit env fn p n s = do {
     r \<leftarrow> os_lstat env p;
     case r of
       Inl _ \<Rightarrow> State_Monad.return (s, False)
     | Inr info \<Rightarrow> State_Monad.return (fn p info s, n = DirNode) }"

definition walkDir :: "env \<Rightarrow> (string \<Rightarrow> node \<Rightarrow> 's \<Rightarrow> 's) \<Rightarrow> string \<Rightarrow> 's \<Rightarrow> 's act" where
  "walkDir env fn root s = walk_all env (\<lambda>r n. r @ slash # n) (walk_visit env fn) root s"

fun count_file :: "string \<Rightarrow> node \<Rightarrow> int \<times> int \<Rightarrow> int \<times> int" where
  "count_file p (FileNode m d) (nFiles, nBytes) =
     (wrap64 (nFiles + 1), wrap64 (nBytes + node_size (FileNode m d)))"
| "count_file p _ s = s"

definition walkSize :: "env \<Rightarrow> string \<Rightarrow> (int \<times> int) act" where
  "walkSize env root = walkDir env count_file root (0, 0)"

definition sha256File :: "env \<Rightarrow> string \<Rightarrow> string res act" where
  "sha256File env path =
     attempt (os_read_file env path) (\<lambda>d. do {
       _ \<leftarrow> os_close env path;
       ok (hex_encode (e_sha256 env d)) })"


subsection \<open>The offline checks\<close>

definition check_current_link :: "env \<Rightarrow> layout \<Rightarrow> Report \<Rightarrow> Report act" where
  "check_current_link env l r = do {
     target \<leftarrow> CurrentTarget env l;
     State_Monad.return (case target of
       Inl e \<Rightarrow>
         if is_not_exist e
         then add_check ''current link'' False (''no current symlink/shim at '' @ CurrentSymlink l) r
         else add_check ''current link'' False (err_text e) r
     | Inr t \<Rightarrow> add_check ''current link'' True t r) }"

definition check_distribution :: "env \<Rightarrow> layout \<Rightarrow> string \<Rightarrow> Report \<Rightarrow> Report act" where
  "check_distribution env l cur r =
     (let distroDir = DistributionDir l cur in do {
        info \<leftarrow> os_stat env distroDir;
        case info of
          Inl e \<Rightarrow> State_Monad.return (add_check ''distribution dir'' False (err_text e) r)
        | Inr n \<Rightarrow>
            if n \<noteq> DirNode
            then State_Monad.return
              (add_check ''distribution dir'' False (distroDir @ '' is not a directory'') r)
            else do {
              (nFiles, nBytes) \<leftarrow> walkSize env distroDir;
              let good = nFiles > 0;
              let detail = distroDir @ '' ('' @ itoa nFiles @ '' file(s), '' @ itoa nBytes @ '' bytes)'';
              State_Monad.return (add_check ''distribution dir'' good
                (if good then detail else detail @ '' '' @ em_dash @ '' empty'') r) } })"

definition offline_checks :: "env \<Rightarrow> layout \<Rightarrow> Report \<Rightarrow> (Report \<times> bool) act" where
  "offline_checks env l r = do {
     st \<leftarrow> Load env l;
     case st of
       Inl e \<Rightarrow> State_Monad.return (add_check ''state.json'' False (err_text e) r, False)
     | Inr st \<Rightarrow>
         let r1 = add_check ''state.json'' True (StateFile l) r in
         if s_Current st = []
         then State_Monad.return (add_check ''current version'' False
           ''state.json names no current version (never installed?)'' r1, False)
         else do {
           r2 \<leftarrow> check_current_link env l
             (add_check ''current version'' True (s_Current st) (r1\<lparr>rp_Version := s_Current st\<rparr>));
           r3 \<leftarrow> check_distribution env l (s_Current st) r2;
           State_Monad.return (r3, True) } }"


subsection \<open>The online checks\<close>

definition check_blob :: "env \<Rightarrow> layout \<Rightarrow> string \<Rightarrow> Manifest \<Rightarrow> Report \<Rightarrow> Report act" where
  "check_blob env l cur m r =
     (let blobPath = BlobPath l cur in do {
        info \<leftarrow> os_stat env blobPath;
        case info of
          Inl e \<Rightarrow> State_Monad.return
            (if is_not_exist e
             then add_check ''blob on disk'' True ''absent (likely pruned); skipping hash check'' r
             else add_check ''blob on disk'' False (err_text e) r)
        | Inr _ \<Rightarrow> do {
            got \<leftarrow> sha256File env blobPath;
            State_Monad.return (case got of
              Inl e \<Rightarrow> add_check ''blob sha256'' False (err_text e) r
            | Inr h \<Rightarrow>
                if h \<noteq> b_SHA256 (m_Blob m)
                then add_check ''blob sha256'' False
                  (''on-disk '' @ verify_short h @ '' vs manifest '' @ verify_short (b_SHA256 (m_Blob m))) r
                else add_check ''blob sha256'' True (verify_short h) r) } })"

text \<open>The answer of the server: signature, trust and parsing; the manifest when all is well.\<close>

definition check_manifest ::
  "env \<Rightarrow> VerifyOptions \<Rightarrow> bytes \<times> string \<times> string \<Rightarrow> Report \<Rightarrow> Report \<times> Manifest option"
where
  "check_manifest env opt = (\<lambda>(mdata, sigHex, pubHex) r.
     let r1 = add_check ''manifest fetch'' True
           (itoa (int (length mdata)) @ '' bytes from '' @ vo_Server opt) r in
     case Verify env mdata sigHex pubHex of
       Inl e \<Rightarrow> (add_check ''manifest signature'' False (err_text e) r1, None)
     | Inr _ \<Rightarrow>
         let r2 = add_check ''manifest signature'' True (''Ed25519 OK; pubkey '' @ verify_short pubHex) r1 in
         if vo_Trusted opt \<noteq> [] \<and> pubHex \<notin> set (vo_Trusted opt)
         then (add_check ''pubkey trusted'' False
                 (''server pubkey '' @ verify_short pubHex @ '' not in trusted set'') r2, None)
         else
           let r3 = (if vo_Trusted opt \<noteq> []
                     then add_check ''pubkey trusted'' True (verify_short pubHex) r2 else r2) in
           (case Parse mdata of
              Inl e \<Rightarrow> (add_check ''manifest parse'' False (err_text e) r3, None)
            | Inr m \<Rightarrow> (r3, Some m)))"

definition verify_client :: "VerifyOptions \<Rightarrow> client" where
  "verify_client opt =
     (case vo_Transport opt of Some tr \<Rightarrow> tr | None \<Rightarrow> New_client (vo_Server opt))"

definition online_checks ::
  "env \<Rightarrow> layout \<Rightarrow> string \<Rightarrow> VerifyOptions \<Rightarrow> string \<Rightarrow> Report \<Rightarrow> Report act"
where
  "online_checks env l software opt cur r =
     (if vo_Server opt = []
      then State_Monad.return (add_check ''manifest'' False
        ''--server / OTA_SERVER not set; cannot fetch manifest (use --offline to skip)'' r)
      else do {
        fetched \<leftarrow> GetManifest env (verify_client opt) software cur;
        case fetched of
          Inl e \<Rightarrow> State_Monad.return (add_check ''manifest fetch'' False (err_text e) r)
        | Inr answer \<Rightarrow>
            (case check_manifest env opt answer r of
               (r1, None) \<Rightarrow> State_Monad.return r1
             | (r1, Some m) \<Rightarrow> check_blob env l cur m r1) })"

definition verify_Verify :: "env \<Rightarrow> string \<Rightarrow> string \<Rightarrow> VerifyOptions \<Rightarrow> Report act" where
  "verify_Verify env otaHome software opt =
     (let l = New otaHome software in do {
        (r, go) \<leftarrow> offline_checks env l \<lparr> rp_Software = software, rp_Version = [], rp_Checks = [] \<rparr>;
        if \<not> go \<or> vo_Offline opt then State_Monad.return r
        else online_checks env l software opt (rp_Version r) r })"


subsection \<open>The walk\<close>

lemma keeps_walk_visit: "keeps same_files (walk_visit env fn p n s)"
  unfolding walk_visit_def by (intro sf.keeps_rules keeps_same_files)

interpretation vw: walker env "\<lambda>r n. r @ slash # n" "walk_visit env fn" for env fn
proof
  show "wp (walk_visit env fn p n s) (\<lambda>(s', descend) w'. descend \<longrightarrow> n = DirNode) w" for p n s w
    unfolding walk_visit_def wp_bind
    by (rule wp_mono [OF wp_True]) (auto simp: wp_simps split: sum.split)
qed (simp_all add: at_slash_child keeps_walk_visit)

text \<open>\<open>C18\<close>. The walk of the verify command ends: any fuel above the height of the tree gives the
  same result, the same calls and the same world.\<close>

theorem walkDir_ends:
  assumes "root \<noteq> []" and "tree_height (w_tree w) < fuel"
  shows "run_state (walk_tree fuel env (\<lambda>r n. r @ slash # n) (walk_visit env fn) root s) w =
    run_state (walkDir env fn root s) w"
  unfolding walkDir_def by (rule vw.walk_all_fuel [OF assms, symmetric])

text \<open>A positive count means that there is a file.\<close>

definition file_below :: "world \<Rightarrow> loc \<Rightarrow> bool" where
  "file_below w l \<longleftrightarrow> (\<exists>k m d. k \<noteq> l \<and> under l k \<and> look w k = Some (FileNode m d))"

lemma file_belowI: "look w k = Some (FileNode m d) \<Longrightarrow> k \<noteq> l \<Longrightarrow> under l k \<Longrightarrow> file_below w l"
  unfolding file_below_def by blast

lemma file_below_same: "same_files w w1 \<Longrightarrow> file_below w1 l = file_below w l"
  by (simp add: file_below_def same_files_look)

lemma wp_walkSize:
  assumes "root \<noteq> []"
  shows "wp (walkSize env root) (\<lambda>(nFiles, nBytes) w'. same_files w w' \<and>
     (0 < nFiles \<longrightarrow> file_below w (at env root))) w"
proof -
  let ?P = "\<lambda>(nFiles, nBytes). 0 < nFiles \<longrightarrow> file_below w (at env root)"
  have "vw.visits env count_file w (at env root) ?P"
    unfolding vw.visits_def
  proof (intro allI impI, elim conjE)
    fix p n and s :: "int \<times> int" and w1
    assume 1: "same_files w w1" "at env root \<noteq> at env p" "under (at env root) (at env p)" "?P s"
    have "?P (count_file p info s)" if "look w1 (at env p) = Some info" for info
      using 1 that by (cases s; cases info) (auto simp: same_files_look intro: file_belowI)
    then show "wp (walk_visit env count_file p n s) (\<lambda>(s', d) w'. ?P s') w1"
      unfolding walk_visit_def wp_bind
      by (intro wp_mono [OF wp_os_lstat]) (use 1(4) in \<open>auto simp: wp_simps split: sum.splits\<close>)
  qed
  from vw.wp_walk_all [OF this assms, of "(0, 0)"]
  show ?thesis
    unfolding walkSize_def walkDir_def by (auto elim: wp_mono)
qed


subsection \<open>Nothing changes\<close>

lemma keeps_CurrentTarget: "keeps same_files (CurrentTarget env l)"
  unfolding CurrentTarget_def by (intro sf.keeps_rules keeps_ReadCurrent)

lemma keeps_walkSize: "keeps same_files (walkSize env root)"
  unfolding walkSize_def walkDir_def by (rule vw.keeps_walk_all)

lemma keeps_check_current_link: "keeps same_files (check_current_link env l r)"
  unfolding check_current_link_def by (intro sf.keeps_rules keeps_CurrentTarget)

lemma keeps_check_distribution: "keeps same_files (check_distribution env l cur r)"
  unfolding check_distribution_def Let_def
  by (intro sf.keeps_rules keeps_same_files keeps_walkSize)

lemma keeps_Load: "keeps same_files (Load env l)"
  unfolding Load_def by (intro sf.keeps_rules keeps_same_files)

lemma keeps_offline_checks: "keeps same_files (offline_checks env l r)"
  unfolding offline_checks_def Let_def
  by (intro sf.keeps_rules keeps_Load keeps_check_current_link keeps_check_distribution)

lemma keeps_check_blob: "keeps same_files (check_blob env l cur m r)"
  unfolding check_blob_def sha256File_def Let_def
  by (intro sf.keeps_rules keeps_same_files)

lemma keeps_online_checks: "keeps same_files (online_checks env l sw opt cur r)"
  unfolding online_checks_def
  by (intro sf.keeps_rules keeps_check_blob keeps_endpoint [OF one_request_endpoints(1)])

lemma keeps_verify_Verify: "keeps same_files (verify_Verify env home sw opt)"
  unfolding verify_Verify_def Let_def
  by (intro sf.keeps_rules keeps_offline_checks keeps_online_checks)


subsection \<open>A report without a failed check\<close>

lemma checks_ok_iff: "checks_ok cs \<longleftrightarrow> list_all ck_OK cs"
  by (induction cs) auto

lemma AllOK_add_check [simp]: "AllOK (add_check name good detail r) \<longleftrightarrow> AllOK r \<and> good"
  by (auto simp: AllOK_def add_check_def checks_ok_iff)

lemma rp_Version_add_check [simp]: "rp_Version (add_check name good detail r) = rp_Version r"
  by (simp add: add_check_def)

lemma AllOK_Version [simp]: "AllOK (r\<lparr>rp_Version := v\<rparr>) = AllOK r"
  by (simp add: AllOK_def)

lemma wp_check_current_link:
  "wp (check_current_link env l r) (\<lambda>r' w'. same_files w w' \<and> rp_Version r' = rp_Version r \<and>
     (AllOK r' \<longrightarrow> AllOK r \<and> targets env (CurrentSymlink l) w \<noteq> {})) w"
proof (intro wp_keeps keeps_check_current_link wpI)
  fix r' w'
  assume "run_state (check_current_link env l r) w = (r', w')"
  then show "rp_Version r' = rp_Version r \<and> (AllOK r' \<longrightarrow> AllOK r \<and> targets env (CurrentSymlink l) w \<noteq> {})"
    by (auto simp: check_current_link_def CurrentTarget_def split: prod.splits sum.splits if_splits
        dest!: ReadCurrent_in_targets)
qed

lemma wp_check_distribution:
  assumes "DistributionDir l cur \<noteq> []"
  shows "wp (check_distribution env l cur r) (\<lambda>r' w'. same_files w w' \<and> rp_Version r' = rp_Version r \<and>
     (AllOK r' \<longrightarrow> AllOK r \<and> look w (at env (DistributionDir l cur)) = Some DirNode \<and>
        file_below w (at env (DistributionDir l cur)))) w"
  unfolding check_distribution_def Let_def
proof (rule wp_bindI [OF wp_os_stat], goal_cases)
  case (1 res w1)
  note sl = same_files_look [OF conjunct1 [OF 1]]
  have "wp (walkSize env (DistributionDir l cur)) (\<lambda>(nFiles, nBytes) w'. same_files w w' \<and>
      (0 < nFiles \<longrightarrow> file_below w (at env (DistributionDir l cur)))) w1"
    using wp_walkSize [OF assms, of env w1] 1
    by (elim wp_mono) (auto simp: file_below_def sl intro: sf.trans)
  with 1 show ?case
    by (cases res) (auto simp: wp_simps Let_def elim!: wp_mono)
qed

lemma wp_check_blob:
  "wp (check_blob env l cur m r) (\<lambda>r' w'. same_files w w' \<and> rp_Version r' = rp_Version r \<and>
     (AllOK r' \<longrightarrow> AllOK r \<and>
        (\<forall>fm d. look w (at env (BlobPath l cur)) = Some (FileNode fm d) \<longrightarrow>
           hex_encode (e_sha256 env d) = b_SHA256 (m_Blob m)))) w"
proof (intro wp_keeps keeps_check_blob wpI)
  fix r' w'
  assume run: "run_state (check_blob env l cur m r) w = (r', w')"
  obtain res w1 where st: "run_state (os_stat env (BlobPath l cur)) w = (res, w1)" by (metis prod.exhaust)
  have same: "same_files w w1" by (rule keepsD [OF keeps_same_files(2) st])
  show "rp_Version r' = rp_Version r \<and> (AllOK r' \<longrightarrow> AllOK r \<and>
        (\<forall>fm d. look w (at env (BlobPath l cur)) = Some (FileNode fm d) \<longrightarrow>
           hex_encode (e_sha256 env d) = b_SHA256 (m_Blob m)))"
  proof (cases res)
    case (Inl e)
    have "\<not> is_not_exist e" if "look w (at env (BlobPath l cur)) = Some (FileNode fm d)" for fm d
      using st that Inl
      by (auto simp: os_stat_def run_state_fs_op Let_def t_stat_def look_def split: option.splits)
    with run st Inl show ?thesis by (auto simp: check_blob_def Let_def split: if_splits)
  next
    case (Inr n)
    with run st same show ?thesis
      by (auto simp: check_blob_def sha256File_def Let_def same_files_look split: prod.splits sum.splits if_splits
          dest!: os_read_file_ok)
  qed
qed

text \<open>What the checks of the server's answer establish.\<close>

lemma check_manifest_sound:
  assumes "check_manifest env opt (mdata, sig, pub) r = (r', mo)"
  shows "rp_Version r' = rp_Version r \<and> (AllOK r' \<longrightarrow> AllOK r \<and> Verify env mdata sig pub = Inr () \<and>
     (vo_Trusted opt \<noteq> [] \<longrightarrow> pub \<in> set (vo_Trusted opt)) \<and>
     (\<exists>m. mo = Some m \<and> Parse mdata = Inr m))"
  using assms by (auto simp: check_manifest_def Let_def split: sum.splits if_splits)


definition checked ::
  "env \<Rightarrow> string \<Rightarrow> VerifyOptions \<Rightarrow> layout \<Rightarrow> string \<Rightarrow> world \<Rightarrow> bool"
where
  "checked env sw opt l v w \<longleftrightarrow> (\<exists>w1 w2 data sig pub m.
     run_state (GetManifest env (verify_client opt) sw v) w1 = (Inr (data, sig, pub), w2) \<and>
     Verify env data sig pub = Inr () \<and>
     (vo_Trusted opt \<noteq> [] \<longrightarrow> pub \<in> set (vo_Trusted opt)) \<and> Parse data = Inr m \<and>
     (\<forall>fm d. look w (at env (BlobPath l v)) = Some (FileNode fm d) \<longrightarrow>
        hex_encode (e_sha256 env d) = b_SHA256 (m_Blob m)))"

lemma checkedI:
  "run_state (GetManifest env (verify_client opt) sw v) w1 = (Inr (data, sig, pub), w2) \<Longrightarrow>
   Verify env data sig pub = Inr () \<Longrightarrow> (vo_Trusted opt \<noteq> [] \<longrightarrow> pub \<in> set (vo_Trusted opt)) \<Longrightarrow>
   Parse data = Inr m \<Longrightarrow>
   (\<forall>fm d. look w (at env (BlobPath l v)) = Some (FileNode fm d) \<longrightarrow>
      hex_encode (e_sha256 env d) = b_SHA256 (m_Blob m)) \<Longrightarrow> checked env sw opt l v w"
  unfolding checked_def by blast

lemma wp_online_checks:
  "wp (online_checks env l sw opt v r) (\<lambda>r' w'. same_files w w' \<and> rp_Version r' = rp_Version r \<and>
     (AllOK r' \<longrightarrow> AllOK r \<and> checked env sw opt l v w)) w"
proof (intro wp_keeps keeps_online_checks wpI)
  fix r' w'
  assume run: "run_state (online_checks env l sw opt v r) w = (r', w')"
  obtain res w1 where get: "run_state (GetManifest env (verify_client opt) sw v) w = (res, w1)"
    by (metis prod.exhaust)
  have same: "same_files w w1"
    by (rule keepsD [OF keeps_endpoint [OF one_request_endpoints(1)] get])
  consider "vo_Server opt = []" | e where "vo_Server opt \<noteq> []" "res = Inl e"
    | data sig pub where "vo_Server opt \<noteq> []" "res = Inr (data, sig, pub)"
    by (metis sum.exhaust prod.exhaust)
  then show "rp_Version r' = rp_Version r \<and> (AllOK r' \<longrightarrow> AllOK r \<and> checked env sw opt l v w)"
  proof cases
    case 3
    obtain r1 mo where ch: "check_manifest env opt (data, sig, pub) r = (r1, mo)" by (metis prod.exhaust)
    note sound = check_manifest_sound [OF ch]
    show ?thesis
    proof (cases mo)
      case None
      with run get 3 ch sound show ?thesis by (auto simp: online_checks_def)
    next
      case (Some m)
      with run get 3 ch have "run_state (check_blob env l v m r1) w1 = (r', w')"
        by (simp add: online_checks_def)
      from wpD [OF wp_check_blob this] sound Some get 3 show ?thesis
        by (auto simp: same_files_look [OF same] intro!: checkedI)
    qed
  qed (use run get in \<open>auto simp: online_checks_def\<close>)
qed

lemma DistributionDir_not_Nil: "DistributionDir l v \<noteq> []"
  by (simp add: DistributionDir_def)

lemma wp_offline_checks:
  "wp (offline_checks env l r) (\<lambda>(r', go) w'. same_files w w' \<and> (go \<and> AllOK r' \<longrightarrow>
     (\<exists>st. rp_Version r' = s_Current st \<and> s_Current st \<noteq> [] \<and>
        recorded env l w st \<and>
        targets env (CurrentSymlink l) w \<noteq> {} \<and>
        look w (at env (DistributionDir l (s_Current st))) = Some DirNode \<and>
        file_below w (at env (DistributionDir l (s_Current st)))) \<and> AllOK r) \<and>
     (\<not> go \<longrightarrow> \<not> AllOK r')) w"
  unfolding offline_checks_def Let_def
proof (rule wp_bindI [OF wp_Load], goal_cases)
  case (1 res w1)
  show ?case
  proof (cases res)
    case (Inl e)
    with 1 show ?thesis by (simp add: wp_simps)
  next
    case (Inr st)
    show ?thesis
    proof (cases "s_Current st = []")
      case True
      with 1 Inr show ?thesis by (simp add: wp_simps)
    next
      case False
      with 1 Inr have rec: "recorded env l w st"
        by simp
      have s1: "same_files w w1" using 1 by simp
      show ?thesis
        unfolding Inr sum.case if_not_P [OF False]
      proof (rule wp_bindI [OF wp_check_current_link], rule wp_bindI [OF wp_check_distribution [OF DistributionDir_not_Nil]],
          goal_cases)
        case (1 r2 w2 r3 w3)
        have t: "targets env (CurrentSymlink l) w1 = targets env (CurrentSymlink l) w"
          by (intro targets_same) (simp_all add: same_files_look [OF s1])
        have s2: "same_files w w2" using 1 s1 by (blast intro: sf.trans)
        with 1 s1 have "same_files w w3" by (blast intro: sf.trans)
        with 1 False rec t show ?case
          by (auto simp: wp_return file_below_same [OF s2] same_files_look [OF s2])
      qed
    qed
  qed
qed

text \<open>\<open>C8\<close>. When the online run of the verify command finds nothing wrong, the record names a current
  version, the current link has a target, the distribution directory of that version exists and has
  a file in it, the manifest the server sent for it carries a valid signature by the key that came with
  it, and the blob, if it is still there, has the hash of that manifest. That key is one of the trusted
  ones where such are configured; where none is, as by default, any key will do.\<close>

theorem verify_sound:
  assumes "run_state (verify_Verify env home sw opt) w = (rep, w')" and "AllOK rep"
  shows "\<exists>st. rp_Version rep = s_Current st \<and> s_Current st \<noteq> [] \<and>
    recorded env (New home sw) w st \<and>
    targets env (CurrentSymlink (New home sw)) w \<noteq> {} \<and>
    look w (at env (DistributionDir (New home sw) (s_Current st))) = Some DirNode \<and>
    file_below w (at env (DistributionDir (New home sw) (s_Current st))) \<and>
    (vo_Offline opt \<or> checked env sw opt (New home sw) (s_Current st) w)"
proof -
  let ?l = "New home sw"
  obtain r go w1 where off: "run_state (offline_checks env ?l
      \<lparr> rp_Software = sw, rp_Version = [], rp_Checks = [] \<rparr>) w = ((r, go), w1)"
    by (metis prod.exhaust)
  note o = wpD [OF wp_offline_checks off]
  show ?thesis
  proof (cases "\<not> go \<or> vo_Offline opt")
    case True
    with assms off o show ?thesis by (auto simp: verify_Verify_def Let_def)
  next
    case False
    with assms(1) off have on: "run_state (online_checks env ?l sw opt (rp_Version r) r) w1 = (rep, w')"
      by (simp add: verify_Verify_def Let_def)
    have same: "same_files w w1" using o by simp
    note o2 = wpD [OF wp_online_checks on]
    have "checked env sw opt ?l (rp_Version r) w"
      using o2 assms(2) by (simp add: checked_def same_files_look [OF same])
    with o o2 assms(2) False show ?thesis by auto
  qed
qed

lemma no_requests_offline_checks: "keeps no_requests (offline_checks env l r)"
proof -
  have ro: "keeps no_requests (os_lstat env p)" "keeps no_requests (os_stat env p)"
    "keeps no_requests (os_read_dir env p)" "keeps no_requests (os_readlink env p)"
    "keeps no_requests (os_read_file env p)" for p
    by (simp_all add: os_defs keeps_no_requests_fs_op)
  have visit: "keeps no_requests (walk_visit env fn p n s)" for fn p n and s :: "int \<times> int"
    unfolding walk_visit_def by (intro nr.keeps_rules ro)
  note walk = keeps_walk [OF nr.preorder_frame_axioms visit ro(3)]
  show ?thesis
    unfolding offline_checks_def check_current_link_def check_distribution_def CurrentTarget_def
      ReadCurrent_def walkSize_def walkDir_def Let_def
    by (intro nr.keeps_rules keeps_no_requests_Load ro walk)
qed

lemma requests_check_blob: "keeps no_requests (check_blob env l cur m r)"
  unfolding check_blob_def sha256File_def os_defs os_close_def Let_def
  by (intro nr.keeps_rules keeps_no_requests_fs_op)

lemma requests_online_checks:
  assumes "run_state (online_checks env l sw opt v r) w = (r', w')"
  shows "w_reqs w' \<in> insert (w_reqs w) ((\<lambda>rq. rq # w_reqs w) ` {rq. rq_auth rq = bearer (verify_client opt)})"
proof (cases "vo_Server opt = []")
  case False
  obtain res w1 where get: "run_state (GetManifest env (verify_client opt) sw v) w = (res, w1)"
    by (metis prod.exhaust)
  have 1: "w_reqs w1 \<in> insert (w_reqs w) ((\<lambda>rq. rq # w_reqs w) ` {rq. rq_auth rq = bearer (verify_client opt)})"
    using one_request_endpoints(1) [of "verify_client opt" env sw v] get
    by (auto simp: one_request_def Let_def dest!: spec [of _ w])
  have "w_reqs w' = w_reqs w1"
    using assms get False
    by (auto simp: online_checks_def no_requests_def split: sum.splits prod.splits option.splits
        dest: keepsD [OF requests_check_blob])
  with 1 show ?thesis by simp
qed (use assms in \<open>auto simp: online_checks_def\<close>)

text \<open>\<open>C36\<close>. The verify command changes no file; offline it sends no request, online at most the one for
  the manifest, with the client's authorization.\<close>

theorem verify_readonly:
  assumes "run_state (verify_Verify env home sw opt) w = (rep, w')"
  shows "same_files w w' \<and>
    (if vo_Offline opt then w_reqs w' = w_reqs w
     else w_reqs w' \<in> insert (w_reqs w) ((\<lambda>rq. rq # w_reqs w) ` {rq. rq_auth rq = bearer (verify_client opt)}))"
proof -
  let ?l = "New home sw"
  obtain r go w1 where off: "run_state (offline_checks env ?l
      \<lparr> rp_Software = sw, rp_Version = [], rp_Checks = [] \<rparr>) w = ((r, go), w1)"
    by (metis prod.exhaust)
  have 1: "w_reqs w1 = w_reqs w"
    using keepsD [OF no_requests_offline_checks off] by (simp add: no_requests_def)
  have "if vo_Offline opt then w_reqs w' = w_reqs w
     else w_reqs w' \<in> insert (w_reqs w) ((\<lambda>rq. rq # w_reqs w) ` {rq. rq_auth rq = bearer (verify_client opt)})"
    using assms off 1 requests_online_checks [of env ?l sw opt "rp_Version r" r w1 rep w']
    by (cases "go \<and> \<not> vo_Offline opt") (auto simp: verify_Verify_def Let_def)
  with keepsD [OF keeps_verify_Verify assms] show ?thesis by simp
qed


subsection \<open>A verified installation\<close>

definition demo_options :: VerifyOptions where
  "demo_options = \<lparr> vo_Offline = False, vo_Server = ''http://s'', vo_Trusted = [demo_pub], vo_Transport = None \<rparr>"

lemma demo_two_load':
  "run_state (Load (demo_server x d) demo_layout) (demo_two (enc_state demo_record) 0) =
     (Inr demo_record, demo_two (enc_state demo_record) 1)"
proof -
  have "run_state (Load (demo_server x d) demo_layout) w = run_state (Load calm demo_layout) w" for w
    by (simp add: Load_def os_read_file_def fs_op_def demo_server_def serving_def calm_def)
  then show ?thesis by (simp add: demo_two_load)
qed

definition demo_offline :: Report where
  "demo_offline = \<lparr> rp_Software = ''app'', rp_Version = ''2'', rp_Checks =
     [\<lparr> ck_Name = ''state.json'', ck_OK = True, ck_Detail = ''/home/app/state.json'' \<rparr>,
      \<lparr> ck_Name = ''current version'', ck_OK = True, ck_Detail = ''2'' \<rparr>,
      \<lparr> ck_Name = ''current link'', ck_OK = True, ck_Detail = ''/home/app/distribution-2'' \<rparr>,
      \<lparr> ck_Name = ''distribution dir'', ck_OK = True,
        ck_Detail = ''/home/app/distribution-2 (1 file(s), 2 bytes)'' \<rparr>] \<rparr>"

lemma demo_offline_rest:
  "run_state (do {
      r2 \<leftarrow> check_current_link (demo_server x d) demo_layout
        (add_check ''current version'' True ''2''
          ((add_check ''state.json'' True (StateFile demo_layout)
            \<lparr> rp_Software = ''app'', rp_Version = [], rp_Checks = [] \<rparr>)\<lparr>rp_Version := ''2''\<rparr>));
      r3 \<leftarrow> check_distribution (demo_server x d) demo_layout ''2'' r2;
      State_Monad.return (r3, True) }) (demo_two b 1) = ((demo_offline, True), demo_two b 5)"
  by code_simp

lemma demo_blob_absent:
  "run_state (check_blob (demo_server x d) demo_layout ''2'' m r) (w_reqs_update (\<lambda>_. rqs) (demo_two b 5)) =
   (add_check ''blob on disk'' True ''absent (likely pruned); skipping hash check'' r,
    w_reqs_update (\<lambda>_. rqs) (demo_two b 6))"
  by code_simp

lemma demo_offline_checks:
  "run_state (offline_checks (demo_server x d) demo_layout
      \<lparr> rp_Software = ''app'', rp_Version = [], rp_Checks = [] \<rparr>) (demo_two (enc_state demo_record) 0) =
   ((demo_offline, True), demo_two (enc_state demo_record) 5)"
proof -
  have "s_Current demo_record = ''2''" by (simp add: demo_record_def)
  then show ?thesis
    using demo_offline_rest [of x d "enc_state demo_record"]
    by (simp add: offline_checks_def demo_two_load' Let_def)
qed

lemma demo_get:
  "run_state (GetManifest (demo_server demo_answer demo_data) (New_client ''http://s'') ''app'' ''2'') (demo_two b 5) =
   (Inr (demo_data, hex_encode (replicate 64 0), demo_pub), w_reqs_update (\<lambda>_. [demo_request]) (demo_two b 5))"
proof -
  have "e_http (demo_server demo_answer demo_data) 0 rq = demo_answer" for rq
    by (simp add: demo_server_def serving_def)
  moreover have "authedRequest (demo_server demo_answer demo_data) (New_client ''http://s'') ''GET''
      ''http://s/v1/software/app/releases/2/manifest'' = Inr demo_request"
    by (simp add: authedRequest_def newRequest_def withAuth_def New_client_def demo_request_def demo_server_def
        serving_def calm_def)
  moreover have "header_get [(''X-Ota-Signature'', a), (''X-Ota-Public-Key'', b)] ''X-Ota-Signature'' = a"
    "header_get [(''X-Ota-Signature'', a), (''X-Ota-Public-Key'', b)] ''X-Ota-Public-Key'' = b" for a b
    by code_simp+
  ultimately show ?thesis
    by (simp add: GetManifest_def http_send_def http_do_def demo_two_def demo_answer_def New_client_def)
qed

lemma demo_verifies:
  "\<exists>rep. fst (run_state (verify_Verify (demo_server demo_answer demo_data) ''/home'' ''app'' demo_options)
      (demo_two (enc_state demo_record) 0)) = rep \<and> AllOK rep \<and> rp_Version rep = ''2''"
proof -
  have c: "verify_client demo_options = New_client ''http://s''" "vo_Server demo_options = ''http://s''"
    "\<not> vo_Offline demo_options" "vo_Trusted demo_options = [demo_pub]"
    by (simp_all add: verify_client_def demo_options_def)
  have o: "rp_Version demo_offline = ''2''" "AllOK demo_offline"
    by (simp_all add: demo_offline_def AllOK_def)
  show ?thesis
    using o demo_verify_ok [of demo_answer]
    by (simp add: verify_Verify_def Let_def demo_layout_def [symmetric] demo_offline_checks online_checks_def c
        demo_get check_manifest_def demo_parse demo_blob_absent)
qed

theorem verify_sound_witness:
  "look (demo_two (enc_state demo_record) 0) [''home'', ''app'', ''distribution-2''] = Some DirNode \<and>
   checked (demo_server demo_answer demo_data) ''app'' demo_options demo_layout ''2'' (demo_two (enc_state demo_record) 0)"
proof -
  let ?m = "run_state (verify_Verify (demo_server demo_answer demo_data) ''/home'' ''app'' demo_options)
      (demo_two (enc_state demo_record) 0)"
  have run: "?m = (fst ?m, snd ?m)" by simp
  have ok: "AllOK (fst ?m)" "rp_Version (fst ?m) = ''2''" "\<not> vo_Offline demo_options"
    using demo_verifies by (auto simp: demo_options_def)
  have "checked (demo_server demo_answer demo_data) ''app'' demo_options demo_layout ''2''
      (demo_two (enc_state demo_record) 0)"
    using verify_sound [OF run ok(1)] ok(2,3) unfolding demo_layout_def by auto
  then show ?thesis by (simp add: demo_two_def look_def node_at_def)
qed

theorem verify_readonly_witness:
  "w_reqs (snd (run_state (verify_Verify calm ''/home'' ''app'' \<lparr> vo_Offline = True, vo_Server = ''http://s'', vo_Trusted = [],
      vo_Transport = None \<rparr>) demo_world)) = []"
proof -
  let ?m = "run_state (verify_Verify calm ''/home'' ''app'' \<lparr> vo_Offline = True, vo_Server = ''http://s'', vo_Trusted = [],
      vo_Transport = None \<rparr>) demo_world"
  have "?m = (fst ?m, snd ?m)" by simp
  from verify_readonly [OF this] show ?thesis by (simp add: demo_world_def world_of_def)
qed

theorem walkDir_ends_witness:
  "run_state (walk_tree 9 calm (\<lambda>r n. r @ slash # n) (walk_visit calm count_file) ''/home'' (0, 0)) (demo_two [1] 0) =
   run_state (walkSize calm ''/home'') (demo_two [1] 0) \<and>
   fst (run_state (walkSize calm ''/home'') (demo_two [1] 0)) = (2, 3)"
proof -
  have "tree_height (w_tree (demo_two [1] 0)) < 9" by code_simp
  moreover have "fst (run_state (walkSize calm ''/home'') (demo_two [1] 0)) = (2, 3)" by code_simp
  ultimately show ?thesis
    using walkDir_ends [of "''/home''" "demo_two [1] 0" 9 calm count_file "(0, 0)"]
    by (simp add: walkSize_def del: walk_tree.simps)
qed

end
