(* ===== verification/Listing.thy ===== *)
theory Listing
  imports Walk Libota "HOL-Library.Multiset"
begin

section \<open>client/internal/listing: what is installed, what can be pruned\<close>

text \<open>
  Models \<^verbatim>\<open>client/internal/listing/listing.go\<close>: the rows of \<^verbatim>\<open>list\<close> and \<^verbatim>\<open>show\<close>, local and remote,
  and the choice and deletion of old distributions. \<^verbatim>\<open>sort.Slice\<close> sorts, but leaves open the order
  of equal elements: where the comparison is a linear order on the elements at hand the model uses
  \<open>sort\<close>, for which the items of \<open>scanDistributions\<close> are made a \<open>linorder\<close>; where it is not
  (\<open>ListRemoteReleases\<close>) the sorting function is an argument.
\<close>

record LocalEntry =
  le_Software :: string
  le_Current :: string
  le_Previous :: string
  le_ServerURL :: string
  le_UpdatedAt :: string
  le_Distributions :: "string list"
  le_HistoryLength :: int
  le_OnDiskBytes :: int


subsection \<open>The distributions on disk\<close>

text \<open>The order of the items: newest first, and among equals the greater name first.\<close>

datatype scan_item = ScanItem (si_name: string) (si_mtime: nat)

definition scan_before :: "scan_item \<Rightarrow> scan_item \<Rightarrow> bool" where
  "scan_before a b \<longleftrightarrow>
     (if si_mtime a = si_mtime b then si_name a > si_name b else si_mtime a > si_mtime b)"

instantiation scan_item :: linorder
begin

definition less_scan_item :: "scan_item \<Rightarrow> scan_item \<Rightarrow> bool" where
  "less_scan_item = scan_before"

definition less_eq_scan_item :: "scan_item \<Rightarrow> scan_item \<Rightarrow> bool" where
  "less_eq_scan_item a b \<longleftrightarrow> a < b \<or> a = b"

instance
  by standard
    (auto simp: less_scan_item_def scan_before_def less_eq_scan_item_def split: if_splits
      intro: scan_item.expand dest: linorder_cases [of "si_name _" "si_name _"])

end

definition distribution_prefix :: string where
  "distribution_prefix = ''distribution-''"

fun scan_entries :: "env \<Rightarrow> string \<Rightarrow> (string \<times> node) list \<Rightarrow> scan_item list \<Rightarrow> scan_item list act" where
  "scan_entries env root [] items = State_Monad.return items"
| "scan_entries env root ((name, n) # es) items =
     (if n \<noteq> DirNode then scan_entries env root es items
      else if \<not> hasPrefix name distribution_prefix then scan_entries env root es items
      else do {
        info \<leftarrow> os_lstat env (Join [root, name]);
        case info of
          Inl _ \<Rightarrow> scan_entries env root es items
        | Inr _ \<Rightarrow> scan_entries env root es
            (items @ [ScanItem name (e_mtime env (at env (Join [root, name])))]) })"

definition scanDistributions :: "env \<Rightarrow> string \<Rightarrow> string list act" where
  "scanDistributions env root = do {
     r \<leftarrow> os_read_dir env root;
     case r of
       Inl _ \<Rightarrow> State_Monad.return []
     | Inr es \<Rightarrow> do {
         items \<leftarrow> scan_entries env root es [];
         State_Monad.return (map si_name (sort items)) } }"


subsection \<open>Disk usage\<close>

definition size_visit :: "env \<Rightarrow> string \<Rightarrow> node \<Rightarrow> int \<Rightarrow> (int \<times> bool) act" where
  "size_visit env p n sum_bytes =
     (case n of
        LinkNode _ \<Rightarrow> State_Monad.return (sum_bytes, False)
      | _ \<Rightarrow> do {
          info \<leftarrow> os_lstat env p;
          State_Monad.return (case info of
              Inl _ \<Rightarrow> sum_bytes
            | Inr i \<Rightarrow> if i \<noteq> DirNode then wrap64 (sum_bytes + node_size i) else sum_bytes,
            n = DirNode) })"

text \<open>\<^verbatim>\<open>filepath.WalkDir\<close> asks for the root itself first; that entry's \<^verbatim>\<open>Info\<close> is the answer it got.\<close>

definition totalBytes :: "env \<Rightarrow> string \<Rightarrow> int act" where
  "totalBytes env root = do {
     r \<leftarrow> os_lstat env root;
     case r of
       Inl _ \<Rightarrow> State_Monad.return 0
     | Inr (LinkNode _) \<Rightarrow> State_Monad.return 0
     | Inr (FileNode m d) \<Rightarrow> State_Monad.return (wrap64 (node_size (FileNode m d)))
     | Inr DirNode \<Rightarrow> walk_all env (\<lambda>r n. Join [r, n]) (size_visit env) root 0 }"


subsection \<open>Local rows\<close>

fun any_marker :: "env \<Rightarrow> string \<Rightarrow> string list \<Rightarrow> bool act" where
  "any_marker env root [] = State_Monad.return False"
| "any_marker env root (m # ms) = do {
     r \<leftarrow> os_lstat env (Join [root, m]);
     if is_ok r then State_Monad.return True else any_marker env root ms }"

definition hasOurMarkers :: "env \<Rightarrow> string \<Rightarrow> bool act" where
  "hasOurMarkers env root = do {
     found \<leftarrow> any_marker env root [''current'', ''blobs'', ''patches'', ''state.json''];
     if found then State_Monad.return True
     else do {
       dists \<leftarrow> scanDistributions env root;
       State_Monad.return (dists \<noteq> []) } }"

definition loadOne :: "env \<Rightarrow> string \<Rightarrow> string \<Rightarrow> LocalEntry option act" where
  "loadOne env otaHome software =
     (let l = New otaHome software in do {
        r \<leftarrow> Load env l;
        case r of
          Inl _ \<Rightarrow> State_Monad.return None
        | Inr st \<Rightarrow> do {
            ours \<leftarrow> (if s_Software st = [] then hasOurMarkers env (Root l) else State_Monad.return True);
            if \<not> ours then State_Monad.return None
            else do {
              dists \<leftarrow> scanDistributions env (Root l);
              bytes \<leftarrow> totalBytes env (Root l);
              State_Monad.return (Some \<lparr> le_Software = software, le_Current = s_Current st,
                le_Previous = s_Previous st, le_ServerURL = s_ServerURL st, le_UpdatedAt = s_UpdatedAt st,
                le_Distributions = dists, le_HistoryLength = int (length (s_History st)),
                le_OnDiskBytes = bytes \<rparr>) } } })"

fun load_entries :: "env \<Rightarrow> string \<Rightarrow> (string \<times> node) list \<Rightarrow> LocalEntry list \<Rightarrow> LocalEntry list act" where
  "load_entries env otaHome [] out = State_Monad.return out"
| "load_entries env otaHome ((name, n) # es) out =
     (if n \<noteq> DirNode then load_entries env otaHome es out
      else do {
        e \<leftarrow> loadOne env otaHome name;
        case e of
          None \<Rightarrow> load_entries env otaHome es out
        | Some entry \<Rightarrow> load_entries env otaHome es (out @ [entry]) })"

definition ListLocal :: "env \<Rightarrow> string \<Rightarrow> LocalEntry list res act" where
  "ListLocal env otaHome = do {
     r \<leftarrow> os_read_dir env otaHome;
     case r of
       Inl e \<Rightarrow> if is_not_exist e then ok []
               else fail (WrapErr (''listing: read '' @ otaHome) e)
     | Inr es \<Rightarrow> do {
         out \<leftarrow> load_entries env otaHome es [];
         ok (sort_key le_Software out) } }"

definition LoadLocal :: "env \<Rightarrow> string \<Rightarrow> string \<Rightarrow> LocalEntry res act" where
  "LoadLocal env otaHome software = do {
     e \<leftarrow> loadOne env otaHome software;
     case e of None \<Rightarrow> fail ErrNotExist | Some entry \<Rightarrow> ok entry }"


subsection \<open>Remote rows\<close>

record RemoteSoftware =
  rs_Name :: string
  rs_DisplayName :: string
  rs_CreatedAt :: string
  rs_LatestVersion :: string
  rs_LatestErr :: "goerr option"

record RemoteRelease =
  rr_Software :: string
  rr_Version :: string
  rr_OS :: string
  rr_Arch :: string
  rr_BlobSize :: int
  rr_PublishedAt :: string
  rr_Deprecated :: bool
  rr_Uncollectable :: bool

fun latest_rows :: "env \<Rightarrow> client \<Rightarrow> SoftwareRow list \<Rightarrow> RemoteSoftware list \<Rightarrow> RemoteSoftware list act" where
  "latest_rows env tr [] out = State_Monad.return out"
| "latest_rows env tr (sw # sws) out = do {
     r \<leftarrow> LatestRelease env tr (sw_Name sw);
     let re = \<lparr> rs_Name = sw_Name sw, rs_DisplayName = sw_DisplayName sw, rs_CreatedAt = sw_CreatedAt sw,
                rs_LatestVersion = [], rs_LatestErr = None \<rparr>;
     latest_rows env tr sws (out @
       [case r of
          Inl e \<Rightarrow> re\<lparr>rs_LatestErr := Some e\<rparr>
        | Inr data \<Rightarrow> (case unmarshal_version data of
            None \<Rightarrow> re\<lparr>rs_LatestErr := Some json_err\<rparr>
          | Some v \<Rightarrow> re\<lparr>rs_LatestVersion := v\<rparr>)]) }"

definition ListRemoteSoftware :: "env \<Rightarrow> client \<Rightarrow> RemoteSoftware list res act" where
  "ListRemoteSoftware env tr =
     attempt (ListSoftware env tr) (\<lambda>sws. do {
       out \<leftarrow> latest_rows env tr sws [];
       ok out })"

definition release_row :: "Release \<Rightarrow> RemoteRelease" where
  "release_row r = \<lparr> rr_Software = r_Software r, rr_Version = r_Version r, rr_OS = r_OS r, rr_Arch = r_Arch r,
     rr_BlobSize = r_BlobSize r, rr_PublishedAt = r_PublishedAt r, rr_Deprecated = r_Deprecated r,
     rr_Uncollectable = r_Uncollectable r \<rparr>"

definition error_row :: "string \<Rightarrow> goerr \<Rightarrow> RemoteRelease" where
  "error_row sw e = \<lparr> rr_Software = sw, rr_Version = ''(error: '' @ err_text e @ '')'', rr_OS = [], rr_Arch = [],
     rr_BlobSize = 0, rr_PublishedAt = [], rr_Deprecated = False, rr_Uncollectable = False \<rparr>"

fun release_rows :: "env \<Rightarrow> client \<Rightarrow> SoftwareRow list \<Rightarrow> RemoteRelease list \<Rightarrow> RemoteRelease list act" where
  "release_rows env tr [] out = State_Monad.return out"
| "release_rows env tr (sw # sws) out = do {
     r \<leftarrow> ListReleases env tr (sw_Name sw);
     release_rows env tr sws (case r of
         Inl e \<Rightarrow> out @ [error_row (sw_Name sw) e]
       | Inr rels \<Rightarrow> out @ map release_row rels) }"

definition release_before :: "RemoteRelease \<Rightarrow> RemoteRelease \<Rightarrow> bool" where
  "release_before a b =
     (if rr_Software a \<noteq> rr_Software b then rr_Software a < rr_Software b
      else rr_PublishedAt a > rr_PublishedAt b)"

type_synonym slice_sort = "(RemoteRelease \<Rightarrow> RemoteRelease \<Rightarrow> bool) \<Rightarrow> RemoteRelease list \<Rightarrow> RemoteRelease list"

definition ListRemoteReleases :: "slice_sort \<Rightarrow> env \<Rightarrow> client \<Rightarrow> RemoteRelease list res act" where
  "ListRemoteReleases sorter env tr =
     attempt (ListSoftware env tr) (\<lambda>sws. do {
       out \<leftarrow> release_rows env tr sws [];
       ok (sorter release_before out) })"


subsection \<open>Pruning\<close>

text \<open>The most recent distributions that are not kept already, up to the depth.\<close>

fun keep_recent :: "int \<Rightarrow> int \<Rightarrow> string list \<Rightarrow> string list \<Rightarrow> string list" where
  "keep_recent depth added [] keep = keep"
| "keep_recent depth added (d # ds) keep =
     (if added \<ge> depth then keep
      else if d \<in> set keep then keep_recent depth added ds keep
      else keep_recent depth (added + 1) ds (d # keep))"

definition keep_installed :: "cstate \<Rightarrow> string list" where
  "keep_installed st =
     (if s_Current st \<noteq> [] then [distribution_prefix @ s_Current st] else []) @
     (if s_Previous st \<noteq> [] then [distribution_prefix @ s_Previous st] else [])"

definition prune_list :: "cstate \<Rightarrow> int \<Rightarrow> string list \<Rightarrow> string list" where
  "prune_list st depth dists =
     (let keep = keep_recent depth 0 dists (keep_installed st) in
      filter (\<lambda>d. d \<notin> set keep) (rev dists))"

definition PruneCandidates :: "env \<Rightarrow> string \<Rightarrow> string \<Rightarrow> int \<Rightarrow> string list res act" where
  "PruneCandidates env otaHome software depth =
     (let l = New otaHome software in
      attempt_as (''prune: read state for '' @ software) (Load env l) (\<lambda>st. do {
        dists \<leftarrow> scanDistributions env (Root l);
        ok (prune_list st depth dists) }))"

definition DeleteDistribution :: "env \<Rightarrow> string \<Rightarrow> string \<Rightarrow> string \<Rightarrow> unit res act" where
  "DeleteDistribution env otaHome software name =
     (if \<not> hasPrefix name distribution_prefix
      then fail (NewErr (''prune: refusing to delete non-distribution dir '' @ quoted name))
      else os_remove_all env (Join [Root (New otaHome software), name]))"


subsection \<open>What a scan finds\<close>

lemma keeps_scan_entries: "keeps same_files (scan_entries env root es items)"
  by (induction es arbitrary: items)
    (auto intro!: sf.keeps_rules keeps_same_files)

lemma keeps_scanDistributions: "keeps same_files (scanDistributions env root)"
  unfolding scanDistributions_def
  by (intro sf.keeps_rules keeps_same_files keeps_scan_entries)

lemma distribution_prefix_plain: "hasPrefix n distribution_prefix \<Longrightarrow> n \<noteq> []"
  by (auto simp: distribution_prefix_def)

text \<open>The items of the scan of \<open>r\<close>: its directories whose name begins with the prefix, each once.\<close>

definition scanned :: "env \<Rightarrow> world \<Rightarrow> string \<Rightarrow> scan_item list \<Rightarrow> bool" where
  "scanned env w root items \<longleftrightarrow> distinct (map si_name items) \<and>
     list_all (\<lambda>i. plain (si_name i) \<and> hasPrefix (si_name i) distribution_prefix \<and>
       look w (at env root @ [si_name i]) = Some DirNode \<and>
       si_mtime i = e_mtime env (at env root @ [si_name i])) items"

lemma wp_scan_entries:
  assumes "root \<noteq> []" and "same_files w w1"
    and "\<forall>(x, n) \<in> set es. plain x \<and> look w (at env root @ [x]) = Some n"
    and "distinct (map si_name items @ map fst es)" and "scanned env w root items"
  shows "wp (scan_entries env root es items) (\<lambda>r w'. same_files w w' \<and> scanned env w root r) w1"
  using assms(2-)
proof (induction es arbitrary: items w1)
  case Nil
  then show ?case by (simp add: wp_return)
next
  case (Cons e es)
  obtain x n where e: "e = (x, n)" by (cases e)
  have x: "plain x" "look w (at env root @ [x]) = Some n" using Cons.prems(2) e by auto
  have at: "at env (Join [root, x]) = at env root @ [x]"
    by (rule loc_of_Join_plain [OF assms(1) x(1)])
  have skip: "wp (scan_entries env root es items) (\<lambda>r w'. same_files w w' \<and> scanned env w root r) w2"
    if "same_files w w2" for w2
    using Cons that e by (intro Cons.IH) auto
  have more: "wp (scan_entries env root es (items @ [ScanItem x (e_mtime env (at env root @ [x]))]))
      (\<lambda>r w'. same_files w w' \<and> scanned env w root r) w2"
    if "same_files w w2" "n = DirNode" "hasPrefix x distribution_prefix" for w2
    using Cons.prems that e x by (intro Cons.IH) (auto simp: scanned_def)
  show ?case
  proof (cases "n = DirNode \<and> hasPrefix x distribution_prefix")
    case True
    show ?thesis
      unfolding e scan_entries.simps at
    proof (simp add: True del: Join.simps, rule wp_bindI [OF wp_os_lstat], goal_cases)
      case (1 r w2)
      then have "same_files w w2" using Cons.prems(1) by (blast intro: sf.trans)
      with True skip more show ?case by (cases r) auto
    qed
  next
    case False
    with skip [OF Cons.prems(1)] show ?thesis by (auto simp: e)
  qed
qed

text \<open>And all of them: when no call fails none is missed.\<close>

definition all_scanned :: "env \<Rightarrow> world \<Rightarrow> string \<Rightarrow> scan_item list \<Rightarrow> bool" where
  "all_scanned env w root items \<longleftrightarrow>
     (\<forall>d. plain d \<longrightarrow> hasPrefix d distribution_prefix \<longrightarrow> look w (at env root @ [d]) = Some DirNode \<longrightarrow>
        d \<in> si_name ` set items)"

lemma nf_lstat:
  "no_faults env \<Longrightarrow> look w (at env p) = Some n \<Longrightarrow>
   wp (os_lstat env p) (\<lambda>r w'. (\<forall>k. look w' k = look w k) \<and> r = Inr n) w"
  by (auto intro!: wpI simp: no_faults_def os_lstat_def run_state_fs_op Let_def t_lstat_def look_def)

lemma nf_read_dir:
  assumes "no_faults env" and "look w (at env p) = Some DirNode"
  shows "wp (os_read_dir env p) (\<lambda>r w'. \<exists>es. r = Inr es \<and>
     (\<forall>d n. plain d \<longrightarrow> look w (at env p @ [d]) = Some n \<longrightarrow> (d, n) \<in> set es)) w"
proof -
  have "(d, n) \<in> (\<lambda>n. (n, the (node_at t (l @ [n])))) ` set (child_names t l)"
    if "plain d" "node_at t (l @ [d]) = Some n" for t l d n
  proof -
    have "l @ [d] \<in> fst ` set t"
      using that(2) by (auto simp: node_at_def dest: map_of_SomeD intro: rev_image_eqI)
    then have "d \<in> set (child_names t l)"
      using that(1) unfolding child_names_def by (auto intro!: rev_image_eqI [of "l @ [d]"])
    then show ?thesis using that(2) by (auto intro: rev_image_eqI)
  qed
  then show ?thesis
    using assms by (auto intro!: wpI simp: no_faults_def os_read_dir_def run_state_fs_op Let_def t_read_dir_def look_def)
qed

lemma nf_scan_entries:
  assumes "root \<noteq> []" and "no_faults env" and "\<And>k. look w1 k = look w k"
    and "\<forall>(x, n) \<in> set es. plain x \<and> look w (at env root @ [x]) = Some n"
  shows "wp (scan_entries env root es items) (\<lambda>r _. si_name ` set items \<union>
     {x. (x, DirNode) \<in> set es \<and> hasPrefix x distribution_prefix} \<subseteq> si_name ` set r) w1"
  using assms(3-)
proof (induction es arbitrary: items w1)
  case Nil
  then show ?case by (simp add: wp_return)
next
  case (Cons e es)
  obtain x n where e: "e = (x, n)" by (cases e)
  have x: "plain x" "look w (at env root @ [x]) = Some n" using Cons.prems(2) e by auto
  have at: "at env (Join [root, x]) = at env root @ [x]" by (rule loc_of_Join_plain [OF assms(1) x(1)])
  have IH: "wp (scan_entries env root es items') (\<lambda>r _. si_name ` set items' \<union>
     {x. (x, DirNode) \<in> set es \<and> hasPrefix x distribution_prefix} \<subseteq> si_name ` set r) w2"
    if "\<And>k. look w2 k = look w k" for items' w2
    by (rule Cons.IH [OF that]) (use Cons.prems(2) in auto)
  show ?case
  proof (cases "n = DirNode \<and> hasPrefix x distribution_prefix")
    case True
    have l: "look w1 (at env (Join [root, x])) = Some n" unfolding at Cons.prems(1) by (rule x(2))
    show ?thesis
      unfolding e scan_entries.simps
    proof (simp only: True simp_thms if_False, rule wp_bindI [OF nf_lstat [OF assms(2) l]], goal_cases)
      case (1 r w2)
      then have same: "\<And>k. look w2 k = look w k" using Cons.prems(1) by simp
      show ?case
        using 1 by (elim conjE, simp only: sum.case) (rule wp_mono [OF IH [OF same]], auto)
    qed
  next
    case False
    have "wp (scan_entries env root es items) (\<lambda>r _. si_name ` set items \<union>
       {x. (x, DirNode) \<in> set (e # es) \<and> hasPrefix x distribution_prefix} \<subseteq> si_name ` set r) w1"
      by (rule wp_mono [OF IH [OF Cons.prems(1)]]) (use False in \<open>auto simp: e\<close>)
    then show ?thesis using False by (auto simp: e)
  qed
qed

lemma distinct_child_names: "distinct (child_names t l)"
  by (simp add: child_names_def)

lemma os_read_dir_names:
  "run_state (os_read_dir env p) w = (Inr es, w') \<Longrightarrow> distinct (map fst es)"
  by (auto simp: os_read_dir_def run_state_fs_op Let_def t_read_dir_def comp_def distinct_child_names
      split: option.splits node.splits prod.splits)

lemma scanned_perm: "mset items = mset items' \<Longrightarrow> scanned env w root items = scanned env w root items'"
  using mset_eq_imp_distinct_iff [of "map si_name items" "map si_name items'"] mset_eq_setD [of items items']
  by (simp add: scanned_def list_all_iff)

lemma wp_scanDistributions:
  assumes "root \<noteq> []"
  shows "wp (scanDistributions env root) (\<lambda>r w'. same_files w w' \<and>
     (\<exists>items. r = map si_name items \<and> sorted items \<and> scanned env w root items \<and>
        (no_faults env \<and> look w (at env root) = Some DirNode \<longrightarrow> all_scanned env w root items))) w"
proof -
  let ?calm = "no_faults env \<and> look w (at env root) = Some DirNode"
  have rd: "wp (os_read_dir env root) (\<lambda>r w'. ?calm \<longrightarrow> (\<exists>es. r = Inr es \<and>
     (\<forall>d n. plain d \<longrightarrow> look w (at env root @ [d]) = Some n \<longrightarrow> (d, n) \<in> set es))) w"
  proof (cases ?calm)
    case True
    then show ?thesis using nf_read_dir [of env w root] by simp
  next
    case False
    then show ?thesis by (simp only: HOL.simp_thms wp_True)
  qed
  show ?thesis
    unfolding scanDistributions_def
  proof (rule wp_bindI, rule wp_conj [OF wp_conj [OF wp_os_read_dir rd] wpI], assumption, goal_cases)
    case (1 r w1)
    show ?case
    proof (cases r)
      case (Inl e)
      with 1 show ?thesis by (auto simp: wp_return scanned_def intro!: exI [of _ "[]"])
    next
      case (Inr es)
      have d: "distinct (map fst es)"
        using 1 Inr by (auto dest: os_read_dir_names)
      have es: "same_files w w1" "\<forall>(x, n) \<in> set es. plain x \<and> look w (at env root @ [x]) = Some n"
        using 1 Inr by auto
      have "wp (scan_entries env root es []) (\<lambda>r w'. same_files w w' \<and> scanned env w root r) w1"
        using es d by (intro wp_scan_entries [OF assms]) (auto simp: scanned_def)
      moreover have "wp (scan_entries env root es []) (\<lambda>r _. ?calm \<longrightarrow> all_scanned env w root r) w1"
      proof (cases ?calm)
        case True
        with 1 Inr have all: "\<forall>d n. plain d \<longrightarrow> look w (at env root @ [d]) = Some n \<longrightarrow> (d, n) \<in> set es"
          by auto
        show ?thesis
          by (rule wp_mono [OF nf_scan_entries [OF assms conjunct1 [OF True] same_files_look [OF es(1)] es(2)]])
            (use all in \<open>auto simp: all_scanned_def\<close>)
      next
        case False
        then show ?thesis by (simp only: HOL.simp_thms wp_True)
      qed
      ultimately have "wp (scan_entries env root es []) (\<lambda>r w'. (same_files w w' \<and> scanned env w root r) \<and>
          (?calm \<longrightarrow> all_scanned env w root r)) w1"
        by (rule wp_conj)
      then show ?thesis
        unfolding Inr sum.case wp_bind
        by (rule wp_mono) (auto simp: wp_return all_scanned_def intro!: exI [of _ "sort _"]
          simp: scanned_perm [of "sort _"])
    qed
  qed
qed


subsection \<open>Which distributions are pruned\<close>

text \<open>The directories of the current and of the previous version, when there is one.\<close>

definition installed_dirs :: "cstate \<Rightarrow> string set" where
  "installed_dirs st = (@) distribution_prefix ` ({s_Current st, s_Previous st} - {[]})"

lemma set_keep_installed: "set (keep_installed st) = installed_dirs st"
  by (auto simp: keep_installed_def installed_dirs_def)

lemma set_keep_recent:
  assumes "distinct ds"
  shows "set (keep_recent depth added ds keep) =
    set keep \<union> set (take (nat (depth - added)) (filter (\<lambda>d. d \<notin> set keep) ds))"
  using assms
proof (induction ds arbitrary: added keep)
  case (Cons d ds)
  have "filter (\<lambda>x. x \<notin> set (d # keep)) ds = filter (\<lambda>x. x \<notin> set keep) ds"
    using Cons.prems by (intro filter_cong) auto
  moreover have "added < depth \<Longrightarrow> nat (depth - added) = Suc (nat (depth - (added + 1)))"
    by simp
  ultimately show ?case
    using Cons by (auto simp: not_le)
qed simp

lemma filter_not_taken: "distinct xs \<Longrightarrow> filter (\<lambda>x. x \<notin> set (take n xs)) xs = drop n xs"
proof -
  assume d: "distinct xs"
  have "filter P (take n xs @ drop n xs) = filter P (take n xs) @ filter P (drop n xs)" for P
    by (rule filter_append)
  moreover have "filter (\<lambda>x. x \<notin> set (take n xs)) (take n xs) = []"
    by (simp add: filter_empty_conv)
  moreover have "filter (\<lambda>x. x \<notin> set (take n xs)) (drop n xs) = drop n xs"
    using set_take_disj_set_drop_if_distinct [OF d order_refl, of n] by (auto simp: filter_id_conv)
  ultimately show ?thesis by simp
qed

text \<open>The reference: of the distributions that are not installed, newest first, all but the first
  \<open>depth\<close>, oldest first.\<close>

lemma prune_list_reference:
  assumes "distinct dists"
  shows "prune_list st depth dists =
    rev (drop (nat depth) (filter (\<lambda>d. d \<notin> installed_dirs st) dists))"
proof -
  let ?f = "filter (\<lambda>d. d \<notin> installed_dirs st) dists"
  have "filter (\<lambda>d. d \<notin> set (keep_recent depth 0 dists (keep_installed st))) dists =
      filter (\<lambda>d. d \<notin> set (take (nat depth) ?f)) ?f"
    using assms by (simp add: set_keep_recent set_keep_installed conj_commute cong: conj_cong)
  also have "\<dots> = drop (nat depth) ?f"
    using assms by (intro filter_not_taken) simp
  finally show ?thesis
    by (simp add: prune_list_def Let_def rev_filter [symmetric])
qed

lemma Root_not_Nil: "home \<noteq> [] \<Longrightarrow> Root (New home sw) \<noteq> []"
  by (simp add: New_def Let_def Join_pair_not_Nil del: Join.simps)

lemma wp_PruneCandidates:
  assumes "home \<noteq> []"
  shows "wp (PruneCandidates env home sw depth) (\<lambda>r w'. same_files w w' \<and> (case r of Inl _ \<Rightarrow> True
      | Inr cands \<Rightarrow> \<exists>st items. sorted items \<and> scanned env w (Root (New home sw)) items \<and>
          recorded env (New home sw) w st \<and>
          (no_faults env \<and> look w (at env (Root (New home sw))) = Some DirNode \<longrightarrow>
             all_scanned env w (Root (New home sw)) items) \<and>
          cands = rev (drop (nat depth) (filter (\<lambda>d. d \<notin> installed_dirs st) (map si_name items))))) w"
  unfolding PruneCandidates_def Let_def
proof (rule wp_attempt_asI [OF wp_Load], goal_cases)
  case (2 st w1)
  then have same: "same_files w w1" by simp
  show ?case
  proof (rule wp_bindI [OF wp_scanDistributions [OF Root_not_Nil [OF assms]]], goal_cases)
    case (1 dists w2)
    then obtain items where items: "dists = map si_name items" "sorted items" "scanned env w (Root (New home sw)) items"
      and all: "no_faults env \<and> look w (at env (Root (New home sw))) = Some DirNode \<longrightarrow>
        all_scanned env w (Root (New home sw)) items"
      by (auto simp: scanned_def all_scanned_def same_files_look [OF same])
    then have "distinct dists" by (simp add: scanned_def)
    with 1 2 items all show ?case
      by (auto simp: wp_ok prune_list_reference intro: sf.trans)
  qed
qed simp

text \<open>\<open>C15\<close>. The candidates for pruning, oldest first, are the distribution directories of the product
  without those of the current and the previous version and without the \<open>depth\<close> newest of the
  others, in the order of their modification times and, at equal times, of their names: when no call
  fails, of all distribution directories there are; a call that fails can only make some be missed.
  Finding them changes nothing.\<close>

theorem prune_candidates:
  assumes "run_state (PruneCandidates env home sw depth) w = (Inr cands, w')" and "home \<noteq> []"
  shows "same_files w w' \<and> (\<exists>st items. sorted items \<and> scanned env w (Root (New home sw)) items \<and>
    recorded env (New home sw) w st \<and>
    (no_faults env \<and> look w (at env (Root (New home sw))) = Some DirNode \<longrightarrow>
       all_scanned env w (Root (New home sw)) items) \<and>
    cands = rev (drop (nat depth) (filter (\<lambda>d. d \<notin> installed_dirs st) (map si_name items))))"
  using wpD [OF wp_PruneCandidates [OF assms(2)] assms(1)] by simp

lemma keeps_DeleteDistribution:
  "keeps (frame {k. under (at env (Join [Root (New home sw), name])) k}) (DeleteDistribution env home sw name)"
  unfolding DeleteDistribution_def
  by (intro fr.keeps_rules keeps_remove_all subset_refl)


subsection \<open>The listing reads\<close>

definition quiet :: "world \<Rightarrow> world \<Rightarrow> bool" where
  "quiet w w' \<longleftrightarrow> same_files w w' \<and> no_requests w w'"

interpretation qt: preorder_frame quiet
  by unfold_locales (auto simp: quiet_def same_files_def no_requests_def)

lemma keeps_quietI: "keeps same_files m \<Longrightarrow> keeps no_requests m \<Longrightarrow> keeps quiet m"
  by (simp add: keeps_def quiet_def)

lemma keeps_quiet:
  "keeps quiet (os_lstat env p)" "keeps quiet (os_stat env p)" "keeps quiet (os_read_file env p)"
  "keeps quiet (os_close env p)" "keeps quiet (os_readlink env p)" "keeps quiet (os_read_dir env p)"
  by (intro keeps_quietI keeps_same_files; simp add: os_defs keeps_no_requests_fs_op)+

lemma quiet_Load: "keeps quiet (Load env l)"
  unfolding Load_def by (intro qt.keeps_rules keeps_quiet)

lemma quiet_scanDistributions: "keeps quiet (scanDistributions env root)"
proof -
  have "keeps quiet (scan_entries env root es items)" for es items
    by (induction es arbitrary: items) (auto intro!: qt.keeps_rules keeps_quiet)
  then show ?thesis
    unfolding scanDistributions_def by (intro qt.keeps_rules keeps_quiet)
qed

lemma quiet_size_visit: "keeps quiet (size_visit env p n s)"
  unfolding size_visit_def by (cases n) (auto intro!: qt.keeps_rules keeps_quiet)

interpretation lw: walker env "\<lambda>r n. Join [r, n]" "size_visit env" for env
proof
  show "keeps same_files (size_visit env p n s)" for p n s
    by (rule keeps_mono [OF quiet_size_visit]) (simp add: quiet_def)
  show "wp (size_visit env p n s) (\<lambda>(s', descend) w'. descend \<longrightarrow> n = DirNode) w" for p n s w
    unfolding size_visit_def
    by (cases n) (auto simp: wp_simps intro: wp_mono [OF wp_True])
qed (simp_all add: at_Join_child del: Join.simps)

lemma quiet_totalBytes: "keeps quiet (totalBytes env root)"
proof (rule keepsI)
  fix w r w'
  assume run: "run_state (totalBytes env root) w = (r, w')"
  obtain x w1 where st: "run_state (os_lstat env root) w = (x, w1)" by (metis prod.exhaust)
  have 1: "quiet w w1" by (rule keepsD [OF keeps_quiet(1) st])
  have 2: "quiet w1 w'" if "run_state (walk_all env (\<lambda>r n. Join [r, n]) (size_visit env) root 0) w1 = (r, w')"
    by (rule keepsD [OF keeps_walk [OF qt.preorder_frame_axioms quiet_size_visit keeps_quiet(6)] that])
  show "quiet w w'"
    using run st 1 2 by (auto simp: totalBytes_def split: sum.splits node.splits intro: qt.trans)
qed

lemma quiet_hasOurMarkers: "keeps quiet (hasOurMarkers env root)"
proof -
  have "keeps quiet (any_marker env root ms)" for ms
    by (induction ms) (auto intro!: qt.keeps_rules keeps_quiet)
  then show ?thesis
    unfolding hasOurMarkers_def by (intro qt.keeps_rules quiet_scanDistributions)
qed

lemma quiet_loadOne: "keeps quiet (loadOne env home sw)"
  unfolding loadOne_def Let_def
  by (intro qt.keeps_rules quiet_Load quiet_hasOurMarkers quiet_scanDistributions quiet_totalBytes)

lemma quiet_LoadLocal: "keeps quiet (LoadLocal env home sw)"
  unfolding LoadLocal_def by (intro qt.keeps_rules quiet_loadOne)

lemma quiet_ListLocal: "keeps quiet (ListLocal env home)"
proof -
  have "keeps quiet (load_entries env home es out)" for es out
    by (induction es arbitrary: out) (auto intro!: qt.keeps_rules quiet_loadOne)
  then show ?thesis
    unfolding ListLocal_def by (intro qt.keeps_rules keeps_quiet)
qed

lemma quiet_PruneCandidates: "keeps quiet (PruneCandidates env home sw depth)"
  unfolding PruneCandidates_def Let_def
  by (intro qt.keeps_rules quiet_Load quiet_scanDistributions)

lemma keeps_ListRemoteSoftware: "keeps same_files (ListRemoteSoftware env tr)"
proof -
  have "keeps same_files (latest_rows env tr sws out)" for sws out
    by (induction sws arbitrary: out)
      (auto simp: Let_def intro!: sf.keeps_rules keeps_endpoint [OF one_request_endpoints(3)])
  then show ?thesis
    unfolding ListRemoteSoftware_def
    by (intro sf.keeps_rules keeps_endpoint [OF one_request_endpoints(5)])
qed

lemma keeps_ListRemoteReleases: "keeps same_files (ListRemoteReleases sorter env tr)"
proof -
  have "keeps same_files (release_rows env tr sws out)" for sws out
    by (induction sws arbitrary: out)
      (auto simp: Let_def intro!: sf.keeps_rules keeps_endpoint [OF one_request_endpoints(4)])
  then show ?thesis
    unfolding ListRemoteReleases_def
    by (intro sf.keeps_rules keeps_endpoint [OF one_request_endpoints(5)])
qed

end
