(* ===== verification/Go_Flag.thy ===== *)
theory Go_Flag
  imports Go_Float Go_Strings
begin

section \<open>The parts of Go's flag, strconv, fmt and time the command line uses\<close>

text \<open>
  \<open>parse_flags\<close> is \<^verbatim>\<open>FlagSet.Parse\<close>: it takes flags off the front of the arguments until the first
  that is none. The formal flags are given by name with their kinds, the values set are collected,
  the latest first. \<open>ParseInt\<close> is \<^verbatim>\<open>strconv.ParseInt(s, 0, 64)\<close>, \<open>ParseDuration\<close> \<^verbatim>\<open>time.ParseDuration\<close>,
  which computes fractions with \<^verbatim>\<open>float64\<close>: here they are exact, and may differ from it in the last
  nanosecond. Padding counts the characters of UTF-8 text. Usage messages are not kept.
\<close>

subsection \<open>Numbers\<close>

definition syntax_err :: string where "syntax_err = ''parse error''"
definition range_err :: string where "range_err = ''value out of range''"

definition lower_char :: "char \<Rightarrow> char" where
  "lower_char c = (let n = of_char c :: nat in if 65 \<le> n \<and> n \<le> 90 then char_of (n + 32) else c)"

definition is_digit :: "char \<Rightarrow> bool" where
  "is_digit c \<longleftrightarrow> CHR ''0'' \<le> c \<and> c \<le> CHR ''9''"

definition digit_val :: "char \<Rightarrow> int option" where
  "digit_val c =
     (let n = of_char c :: nat; l = of_char (lower_char c) :: nat in
      if 48 \<le> n \<and> n \<le> 57 then Some (int (n - 48))
      else if 97 \<le> l \<and> l \<le> 122 then Some (int (l - 87)) else None)"

fun parse_digits :: "int \<Rightarrow> string \<Rightarrow> int \<Rightarrow> string + int" where
  "parse_digits base [] n = Inr n"
| "parse_digits base (c # cs) n =
     (if c = CHR ''_'' then parse_digits base cs n
      else case digit_val c of
        None \<Rightarrow> Inl syntax_err
      | Some d \<Rightarrow>
          if base \<le> d then Inl syntax_err
          else if 2 ^ 64 \<le> n * base + d then Inl range_err
          else parse_digits base cs (n * base + d))"

text \<open>Underscores separate digits, or the base prefix from a digit.\<close>

fun underscore_ok :: "bool \<Rightarrow> char \<Rightarrow> string \<Rightarrow> bool" where
  "underscore_ok hexa i [] = (i \<noteq> CHR ''_'')"
| "underscore_ok hexa i (c # cs) =
     (if is_digit c \<or> (hexa \<and> CHR ''a'' \<le> lower_char c \<and> lower_char c \<le> CHR ''f'')
      then underscore_ok hexa (CHR ''0'') cs
      else if c = CHR ''_'' then i = CHR ''0'' \<and> underscore_ok hexa (CHR ''_'') cs
      else i \<noteq> CHR ''_'' \<and> underscore_ok hexa (CHR ''!'') cs)"

definition base_of :: "string \<Rightarrow> int \<times> string" where
  "base_of s =
     (if s = [] \<or> hd s \<noteq> CHR ''0'' then (10, s)
      else if length s < 3 then (8, tl s)
      else let c = lower_char (s ! 1) in
        if c = CHR ''b'' then (2, drop 2 s) else if c = CHR ''o'' then (8, drop 2 s)
        else if c = CHR ''x'' then (16, drop 2 s) else (8, tl s))"

definition underscores_fine :: "string \<Rightarrow> bool" where
  "underscores_fine s =
     (if 2 \<le> length s \<and> hd s = CHR ''0'' \<and> lower_char (s ! 1) \<in> set ''box''
      then underscore_ok (lower_char (s ! 1) = CHR ''x'') (CHR ''0'') (drop 2 s)
      else underscore_ok False (CHR ''^'') s)"

definition parse_uint :: "string \<Rightarrow> string + int" where
  "parse_uint s =
     (if s = [] then Inl syntax_err
      else case base_of s of (base, r) \<Rightarrow>
        (case parse_digits base r 0 of
           Inl e \<Rightarrow> Inl e
         | Inr n \<Rightarrow> if CHR ''_'' \<in> set r \<and> \<not> underscores_fine s then Inl syntax_err else Inr n))"

definition ParseInt :: "string \<Rightarrow> string + int" where
  "ParseInt s =
     (let neg = (s \<noteq> [] \<and> hd s = CHR ''-'');
          t = (if s \<noteq> [] \<and> (hd s = CHR ''-'' \<or> hd s = CHR ''+'') then tl s else s) in
      case parse_uint t of
        Inl e \<Rightarrow> Inl e
      | Inr n \<Rightarrow>
          if \<not> neg \<and> 2 ^ 63 \<le> n then Inl range_err
          else if neg \<and> 2 ^ 63 < n then Inl range_err
          else Inr (if neg then - n else n))"

fun ParseBool :: "string \<Rightarrow> bool option" where
  "ParseBool s =
     (if s \<in> {''1'', ''t'', ''T'', ''TRUE'', ''true'', ''True''} then Some True
      else if s \<in> {''0'', ''f'', ''F'', ''FALSE'', ''false'', ''False''} then Some False
      else None)"


subsection \<open>Durations\<close>

definition unit_ns :: "string \<Rightarrow> int option" where
  "unit_ns u =
     (if u = ''ns'' then Some 1
      else if u = ''us'' \<or> u = [CHR 0xC2, CHR 0xB5, CHR ''s''] \<or> u = [CHR 0xCE, CHR 0xBC, CHR ''s'']
      then Some 1000
      else if u = ''ms'' then Some (10 ^ 6)
      else if u = ''s'' then Some (10 ^ 9)
      else if u = ''m'' then Some (60 * 10 ^ 9)
      else if u = ''h'' then Some (3600 * 10 ^ 9) else None)"

definition digits_val :: "string \<Rightarrow> int" where
  "digits_val s = foldl (\<lambda>n c. 10 * n + int (of_char c - 48)) 0 s"

text \<open>The digits of a fraction that count: those before the value passes 63 bits.\<close>

fun leading_fraction :: "int \<Rightarrow> int \<Rightarrow> string \<Rightarrow> int \<times> int" where
  "leading_fraction x scale [] = (x, scale)"
| "leading_fraction x scale (c # cs) =
     (if (2 ^ 63 - 1) div 10 < x then (x, scale)
      else let y = 10 * x + int (of_char c - 48) in
        if 2 ^ 63 < y then (x, scale) else leading_fraction y (10 * scale) cs)"

text \<open>One number with its unit, taken off the front: its nanoseconds and the rest.\<close>

definition duration_term :: "string \<Rightarrow> (int \<times> string) option" where
  "duration_term s =
     (let whole = takeWhile is_digit s; r = dropWhile is_digit s;
          dot = (r \<noteq> [] \<and> hd r = CHR ''.'');
          frac = (if dot then takeWhile is_digit (tl r) else []);
          r' = (if dot then dropWhile is_digit (tl r) else r);
          u = takeWhile (\<lambda>c. c \<noteq> CHR ''.'' \<and> \<not> is_digit c) r';
          rest = dropWhile (\<lambda>c. c \<noteq> CHR ''.'' \<and> \<not> is_digit c) r' in
      if whole = [] \<and> frac = [] \<or> 2 ^ 63 < digits_val whole then None
      else case unit_ns u of
        None \<Rightarrow> None
      | Some n \<Rightarrow>
          let f = leading_fraction 0 1 frac; v = digits_val whole * n + fst f * n div snd f in
          if 2 ^ 63 < v then None else Some (v, rest))"

fun duration_terms :: "nat \<Rightarrow> int \<Rightarrow> string \<Rightarrow> int option" where
  "duration_terms fuel d [] = Some d"
| "duration_terms 0 d s = None"
| "duration_terms (Suc fuel) d s =
     (case duration_term s of
        None \<Rightarrow> None
      | Some (v, rest) \<Rightarrow> if 2 ^ 63 < d + v then None else duration_terms fuel (d + v) rest)"

text \<open>Every term takes a character, so the length is fuel enough.\<close>

definition ParseDuration :: "string \<Rightarrow> int option" where
  "ParseDuration s =
     (let neg = (s \<noteq> [] \<and> hd s = CHR ''-'');
          t = (if s \<noteq> [] \<and> (hd s = CHR ''-'' \<or> hd s = CHR ''+'') then tl s else s) in
      if t = ''0'' then Some 0
      else if t = [] then None
      else case duration_terms (length t) 0 t of
        None \<Rightarrow> None
      | Some d \<Rightarrow> if neg then Some (- d) else if 2 ^ 63 \<le> d then None else Some d)"


subsection \<open>Flags\<close>

datatype flag_kind = BoolFlag | StringFlag | IntFlag | DurationFlag

datatype flag_val = BoolVal bool | StringVal string | IntVal int

datatype parse_result = Parsed "(string \<times> flag_val) list" "string list" | HelpAsked | BadFlag string

fun set_flag :: "flag_kind \<Rightarrow> string \<Rightarrow> string + flag_val" where
  "set_flag BoolFlag v = (case ParseBool v of None \<Rightarrow> Inl syntax_err | Some b \<Rightarrow> Inr (BoolVal b))"
| "set_flag StringFlag v = Inr (StringVal v)"
| "set_flag IntFlag v = (case ParseInt v of Inl e \<Rightarrow> Inl e | Inr n \<Rightarrow> Inr (IntVal n))"
| "set_flag DurationFlag v =
     (case ParseDuration v of None \<Rightarrow> Inl syntax_err | Some n \<Rightarrow> Inr (IntVal n))"

text \<open>\<^verbatim>\<open>-name\<close>, \<^verbatim>\<open>--name\<close>, each with or without \<^verbatim>\<open>=value\<close>, without its dashes.\<close>

definition flag_name :: "string \<Rightarrow> string" where
  "flag_name s = (if tl s \<noteq> [] \<and> hd (tl s) = CHR ''-'' then drop 2 s else drop 1 s)"

definition flag_key :: "string \<Rightarrow> string" where
  "flag_key name = takeWhile (\<lambda>c. c \<noteq> CHR ''='') name"

definition flag_value :: "string \<Rightarrow> string option" where
  "flag_value name =
     (if CHR ''='' \<in> set name then Some (tl (dropWhile (\<lambda>c. c \<noteq> CHR ''='') name)) else None)"

definition not_a_flag :: "string \<Rightarrow> bool" where
  "not_a_flag s \<longleftrightarrow> length s < 2 \<or> hd s \<noteq> CHR ''-''"

definition bad_value :: "string \<Rightarrow> string \<Rightarrow> string \<Rightarrow> string" where
  "bad_value v key e = ''invalid value '' @ quoted v @ '' for flag -'' @ key @ '': '' @ e"

fun parse_flags ::
  "(string \<times> flag_kind) list \<Rightarrow> (string \<times> flag_val) list \<Rightarrow> string list \<Rightarrow> parse_result"
where
  "parse_flags formal vals [] = Parsed vals []"
| "parse_flags formal vals (s # args) =
     (if not_a_flag s then Parsed vals (s # args)
      else if s = ''--'' then Parsed vals args
      else
        let name = flag_name s; key = flag_key name in
        if name = [] \<or> hd name = CHR ''-'' \<or> hd name = CHR ''=''
        then BadFlag (''bad flag syntax: '' @ s)
        else case map_of formal key of
          None \<Rightarrow> if key = ''help'' \<or> key = ''h'' then HelpAsked
                  else BadFlag (''flag provided but not defined: -'' @ key)
        | Some BoolFlag \<Rightarrow>
            (case set_flag BoolFlag (case flag_value name of None \<Rightarrow> ''true'' | Some v \<Rightarrow> v) of
               Inl e \<Rightarrow> BadFlag (''invalid boolean value '' @ quoted (the (flag_value name)) @ '' for -'' @ key @ '': '' @ e)
             | Inr x \<Rightarrow> parse_flags formal ((key, x) # vals) args)
        | Some kind \<Rightarrow>
            (case flag_value name of
               Some v \<Rightarrow> (case set_flag kind v of
                   Inl e \<Rightarrow> BadFlag (bad_value v key e)
                 | Inr x \<Rightarrow> parse_flags formal ((key, x) # vals) args)
             | None \<Rightarrow> (case args of
                   [] \<Rightarrow> BadFlag (''flag needs an argument: -'' @ key)
                 | v # args' \<Rightarrow> (case set_flag kind v of
                     Inl e \<Rightarrow> BadFlag (bad_value v key e)
                   | Inr x \<Rightarrow> parse_flags formal ((key, x) # vals) args'))))"

definition string_flag :: "(string \<times> flag_val) list \<Rightarrow> string \<Rightarrow> string \<Rightarrow> string" where
  "string_flag vals k dflt = (case map_of vals k of Some (StringVal s) \<Rightarrow> s | _ \<Rightarrow> dflt)"

definition bool_flag :: "(string \<times> flag_val) list \<Rightarrow> string \<Rightarrow> bool" where
  "bool_flag vals k = (case map_of vals k of Some (BoolVal b) \<Rightarrow> b | _ \<Rightarrow> False)"

definition int_flag :: "(string \<times> flag_val) list \<Rightarrow> string \<Rightarrow> int \<Rightarrow> int" where
  "int_flag vals k dflt = (case map_of vals k of Some (IntVal n) \<Rightarrow> n | _ \<Rightarrow> dflt)"


subsection \<open>Formatting\<close>

definition rune_count :: "string \<Rightarrow> nat" where
  "rune_count s = length (filter (\<lambda>c. let n = of_char c :: nat in n < 0x80 \<or> 0xBF < n) s)"

text \<open>\<^verbatim>\<open>%-Ns\<close>.\<close>

definition pad :: "nat \<Rightarrow> string \<Rightarrow> string" where
  "pad n s = s @ replicate (n - rune_count s) CHR '' ''"

text \<open>\<^verbatim>\<open>%.1f\<close> of a number that is not negative.\<close>

definition fixed_1 :: "float64 \<Rightarrow> string" where
  "fixed_1 x =
     (case x of (m, e) \<Rightarrow>
        let t = (if 0 \<le> e then 10 * m * 2 ^ nat e else div_even (10 * m) (2 ^ nat (- e)))
        in itoa (t div 10) @ ''.'' @ itoa (t mod 10))"

end
