(* ===== verification/Agent.thy ===== *)
theory Agent
  imports Go_Flag Listing Verify_Cmd
begin

section \<open>client/agent: the command line\<close>

text \<open>
  Models \<^verbatim>\<open>client/agent/main.go\<close>: the reordering and parsing of the arguments, the commands over
  the packages below, what they print and the codes they exit with. A command is a state action on
  the world and the two output streams; its result is the exit code of \<^verbatim>\<open>os.Exit\<close> or a value, and a
  command that returns leaves the process with code 0. A panic is exit code 2. The process of
  \<^verbatim>\<open>watch\<close> lives for as many ticks as the caller says. Usage texts of the subcommands are not kept.
\<close>

subsection \<open>Commands\<close>

record screen =
  sc_out :: string
  sc_err :: string

type_synonym 'a cmd = "(world \<times> screen, int + 'a) state"

definition newline_text :: string where
  "newline_text = [CHR 0x0A]"

definition cmd_done :: "'a \<Rightarrow> 'a cmd" where
  "cmd_done x = State_Monad.return (Inr x)"

definition os_Exit :: "int \<Rightarrow> 'a cmd" where
  "os_Exit n = State_Monad.return (Inl n)"

definition cthen :: "'a cmd \<Rightarrow> ('a \<Rightarrow> 'b cmd) \<Rightarrow> 'b cmd" where
  "cthen m f = do {
     r \<leftarrow> m;
     case r of Inl n \<Rightarrow> os_Exit n | Inr x \<Rightarrow> f x }"

definition say :: "string \<Rightarrow> unit cmd" where
  "say s = State (\<lambda>(w, sc). (Inr (), (w, sc\<lparr>sc_out := sc_out sc @ s\<rparr>)))"

definition warn :: "string \<Rightarrow> unit cmd" where
  "warn s = State (\<lambda>(w, sc). (Inr (), (w, sc\<lparr>sc_err := sc_err sc @ s\<rparr>)))"

definition die :: "int \<Rightarrow> string \<Rightarrow> 'a cmd" where
  "die n s = cthen (warn (s @ newline_text)) (\<lambda>_. os_Exit n)"

definition call :: "'a act \<Rightarrow> 'a cmd" where
  "call m = State (\<lambda>(w, sc). case run_state m w of (r, w') \<Rightarrow> (Inr r, (w', sc)))"

text \<open>A call with an error result; a panic in it ends the process.\<close>

definition call_res :: "'a res act \<Rightarrow> 'a res cmd" where
  "call_res m = cthen (call m) (\<lambda>r. case r of
     Inl e \<Rightarrow> if is_panic e then die 2 (err_text e) else cmd_done (Inl e)
   | Inr x \<Rightarrow> cmd_done (Inr x))"

definition call_or_die :: "string \<Rightarrow> 'a res act \<Rightarrow> 'a cmd" where
  "call_or_die label m = cthen (call_res m) (\<lambda>r. case r of
     Inl e \<Rightarrow> die 1 (label @ '': '' @ err_text e)
   | Inr x \<Rightarrow> cmd_done x)"


subsection \<open>Arguments\<close>

definition dashed :: "string \<Rightarrow> bool" where
  "dashed a \<longleftrightarrow> hasPrefix a ''-''"

fun reorder_loop :: "string list \<Rightarrow> string list \<Rightarrow> string list \<Rightarrow> string list" where
  "reorder_loop [] flags pos = flags @ pos"
| "reorder_loop (a # args) flags pos =
     (if dashed a then reorder_loop args (flags @ [a]) pos
      else if flags \<noteq> [] \<and> dashed (last flags) \<and> CHR ''='' \<notin> set (last flags)
      then reorder_loop args (flags @ [a]) pos
      else reorder_loop args flags (pos @ [a]))"

definition reorderFlags :: "string list \<Rightarrow> string list" where
  "reorderFlags args = reorder_loop args [] []"

text \<open>\<^verbatim>\<open>fs.Parse\<close> with \<^verbatim>\<open>flag.ExitOnError\<close>.\<close>

definition parse_or_exit ::
  "(string \<times> flag_kind) list \<Rightarrow> string list \<Rightarrow> ((string \<times> flag_val) list \<times> string list) cmd"
where
  "parse_or_exit formal args =
     (case parse_flags formal [] args of
        HelpAsked \<Rightarrow> os_Exit 0
      | BadFlag msg \<Rightarrow> die 2 msg
      | Parsed vals rest \<Rightarrow> cmd_done (vals, rest))"

definition parsePubKeys :: "string \<Rightarrow> string list" where
  "parsePubKeys s =
     (if s = [] then [] else filter (\<lambda>p. p \<noteq> []) (map trimSpace (splitOn CHR '','' s)))"

definition otaHomeOrDie :: "env \<Rightarrow> string" where
  "otaHomeOrDie env =
     (let v = e_getenv env ''OTA_HOME'' in
      if v \<noteq> [] then v
      else (case e_homedir env of Some h \<Rightarrow> Join [h, ''.ota''] | None \<Rightarrow> ''.ota''))"

text \<open>What \<^verbatim>\<open>doctor\<close> and the e-mail commands take for it: without a home directory it is empty.\<close>

definition ota_home_plain :: "env \<Rightarrow> string" where
  "ota_home_plain env =
     (let v = e_getenv env ''OTA_HOME'' in
      if v \<noteq> [] then v
      else (case e_homedir env of Some h \<Rightarrow> Join [h, ''.ota''] | None \<Rightarrow> []))"

definition minute :: int where
  "minute = 60 * 10 ^ 9"


subsection \<open>install, upgrade, watch\<close>

record installArgs =
  ia_name :: string
  ia_version :: string
  ia_server :: string
  ia_installToken :: string
  ia_hwinfo :: string

definition parseInstallFlags :: "env \<Rightarrow> string list \<Rightarrow> installArgs cmd" where
  "parseInstallFlags env args =
     cthen (parse_or_exit [(''version'', StringFlag), (''latest'', BoolFlag), (''server'', StringFlag),
         (''install-token'', StringFlag), (''hwinfo'', StringFlag)] (reorderFlags args)) (\<lambda>(vals, rest).
       if rest = [] then die 2 ''install: missing <name>''
       else
         let out = \<lparr> ia_name = hd rest, ia_version = string_flag vals ''version'' [],
               ia_server = string_flag vals ''server'' (e_getenv env ''OTA_SERVER''),
               ia_installToken = string_flag vals ''install-token'' (e_getenv env ''OTA_INSTALL_TOKEN''),
               ia_hwinfo = string_flag vals ''hwinfo'' [] \<rparr>;
             out1 = (if bool_flag vals ''latest'' then out\<lparr>ia_version := ''latest''\<rparr> else out) in
         if ia_server out1 = [] then die 2 ''install: --server or $OTA_SERVER required''
         else cmd_done
           (if ia_hwinfo out1 = []
            then (case e_hostname env of Some h \<Rightarrow> out1\<lparr>ia_hwinfo := h\<rparr> | None \<Rightarrow> out1)
            else out1))"

definition installCmd :: "env \<Rightarrow> string list \<Rightarrow> unit cmd" where
  "installCmd env args =
     cthen (parseInstallFlags env args) (\<lambda>a.
       let cfg = zero_config\<lparr>cf_ServerURL := trimRight (ia_server a) [slash],
             cf_OTAHome := e_getenv env ''OTA_HOME'',
             cf_TrustedPubKeys := parsePubKeys (e_getenv env ''OTA_TRUSTED_PUBKEYS''),
             cf_Timeout := 2 * minute, cf_InstallToken := ia_installToken a, cf_Hwinfo := ia_hwinfo a\<rparr> in
       cthen (call_or_die ''install'' (Install env cfg (ia_name a) (ia_version a))) (\<lambda>v.
         say (''installed '' @ ia_name a @ '' '' @ v @ newline_text)))"

definition agent_config :: "env \<Rightarrow> string \<Rightarrow> config" where
  "agent_config env server = zero_config\<lparr>cf_ServerURL := trimRight server [slash],
     cf_OTAHome := e_getenv env ''OTA_HOME'',
     cf_TrustedPubKeys := parsePubKeys (e_getenv env ''OTA_TRUSTED_PUBKEYS'')\<rparr>"

definition upgradeCmd :: "env \<Rightarrow> string list \<Rightarrow> unit cmd" where
  "upgradeCmd env args =
     cthen (parse_or_exit [(''to'', StringFlag), (''server'', StringFlag)] (reorderFlags args)) (\<lambda>(vals, rest).
       if rest = [] then die 2 ''upgrade: missing <name>''
       else
         let server = string_flag vals ''server'' (e_getenv env ''OTA_SERVER'') in
         if server = [] then die 2 ''upgrade: --server or $OTA_SERVER required''
         else cthen (call_or_die ''upgrade''
             (Upgrade env (agent_config env server) (hd rest) (string_flag vals ''to'' ''latest''))) (\<lambda>v.
           say (''upgraded '' @ hd rest @ '' to '' @ v @ newline_text)))"

text \<open>A time text in UTC without its fraction, \<^verbatim>\<open>t.UTC().Format(time.RFC3339)\<close>.\<close>

definition pad_int :: "nat \<Rightarrow> int \<Rightarrow> string" where
  "pad_int n i =
     (let d = itoa \<bar>i\<bar> in (if i < 0 then ''-'' else []) @ replicate (n - length d) CHR ''0'' @ d)"

definition next_day :: "int \<times> nat \<times> nat \<Rightarrow> int \<times> nat \<times> nat" where
  "next_day = (\<lambda>(y, m, d).
     if d < days_in (nat (y mod 400)) m then (y, m, d + 1)
     else if m < 12 then (y, m + 1, 1) else (y + 1, 1, 1))"

definition previous_day :: "int \<times> nat \<times> nat \<Rightarrow> int \<times> nat \<times> nat" where
  "previous_day = (\<lambda>(y, m, d).
     if 1 < d then (y, m, d - 1)
     else if 1 < m then (y, m - 1, days_in (nat (y mod 400)) (m - 1)) else (y - 1, 12, 31))"

definition time_zone :: "string \<Rightarrow> string" where
  "time_zone s =
     (let r = drop 19 s in if r \<noteq> [] \<and> hd r = CHR ''.'' then dropWhile digit (tl r) else r)"

definition zone_minutes :: "string \<Rightarrow> int" where
  "zone_minutes z =
     (if z = ''Z'' then 0
      else (if hd z = CHR ''-'' then - 1 else 1) * (60 * int (num2 z 1) + int (num2 z 4)))"

definition utc_rfc3339 :: "string \<Rightarrow> string" where
  "utc_rfc3339 s =
     (let day = (int (100 * num2 s 0 + num2 s 2), num2 s 5, num2 s 8);
          t = 60 * int (num2 s 11) + int (num2 s 14) - zone_minutes (time_zone s);
          (y, mo, d) = (if t < 0 then previous_day day else if 1440 \<le> t then next_day day else day) in
      pad_int 4 y @ ''-'' @ pad_int 2 (int mo) @ ''-'' @ pad_int 2 (int d) @ ''T'' @
      pad_int 2 (t mod 1440 div 60) @ '':'' @ pad_int 2 (t mod 60) @ '':'' @ take 2 (drop 17 s) @ ''Z'')"

definition time_is_zero :: "string \<Rightarrow> bool" where
  "time_is_zero s \<longleftrightarrow> utc_rfc3339 s = zero_time \<and>
     (let r = drop 19 s in r = [] \<or> hd r \<noteq> CHR ''.'' \<or> list_all (\<lambda>c. c = CHR ''0'') (takeWhile digit (tl r)))"

definition watch_check :: "env \<Rightarrow> config \<Rightarrow> string \<Rightarrow> unit cmd" where
  "watch_check env cfg name =
     cthen (call_res (Upgrade env cfg name ''latest'')) (\<lambda>r.
     cthen (call (time_now env)) (\<lambda>now.
       case r of
         Inl e \<Rightarrow> warn (''['' @ utc_rfc3339 now @ ''] watch: '' @ err_text e @ newline_text)
       | Inr v \<Rightarrow> say (''['' @ utc_rfc3339 now @ ''] '' @ name @ '' @ '' @ v @ newline_text)))"

fun watch_loop :: "nat \<Rightarrow> env \<Rightarrow> config \<Rightarrow> string \<Rightarrow> unit cmd" where
  "watch_loop 0 env cfg name = cmd_done ()"
| "watch_loop (Suc ticks) env cfg name =
     cthen (watch_check env cfg name) (\<lambda>_. watch_loop ticks env cfg name)"

text \<open>\<^verbatim>\<open>time.NewTicker\<close> panics on an interval that is not positive.\<close>

definition watchCmd :: "nat \<Rightarrow> env \<Rightarrow> string list \<Rightarrow> unit cmd" where
  "watchCmd ticks env args =
     cthen (parse_or_exit [(''server'', StringFlag), (''interval'', DurationFlag), (''once'', BoolFlag)]
         (reorderFlags args)) (\<lambda>(vals, rest).
       if rest = [] then die 2 ''watch: missing <name>''
       else
         let server = string_flag vals ''server'' (e_getenv env ''OTA_SERVER'') in
         if server = [] then die 2 ''watch: --server or $OTA_SERVER required''
         else cthen (watch_check env (agent_config env server) (hd rest)) (\<lambda>_.
           if bool_flag vals ''once'' then cmd_done ()
           else if int_flag vals ''interval'' (24 * 60 * minute) \<le> 0
           then die 2 ''panic: non-positive interval for NewTicker''
           else watch_loop ticks env (agent_config env server) (hd rest)))"


subsection \<open>doctor, revert, e-mail\<close>

definition doctor_local :: "env \<Rightarrow> string \<Rightarrow> string \<Rightarrow> unit cmd" where
  "doctor_local env name root =
     cthen (say (''=== '' @ name @ '' '' @ em_dash @ '' local installations under '' @ root @ '' ==='' @ newline_text)) (\<lambda>_.
     cthen (call (os_read_dir env root)) (\<lambda>r.
       case r of
         Inr es \<Rightarrow> say (concat (map (\<lambda>(n, _). ''  '' @ n @ newline_text)
           (filter (\<lambda>(n, _). hasPrefix n distribution_prefix) es)))
       | Inl _ \<Rightarrow> say (''  (no directory at '' @ root @ '')'' @ newline_text)))"

definition doctor_anchors :: "env \<Rightarrow> string \<Rightarrow> string \<Rightarrow> unit cmd" where
  "doctor_anchors env name server =
     cthen (say (newline_text @ ''=== '' @ name @ '' '' @ em_dash @ '' server-curated anchors ==='' @ newline_text)) (\<lambda>_.
     cthen (call_res (Anchors env (New_client (trimRight server [slash])) name)) (\<lambda>r.
       case r of
         Inl e \<Rightarrow> warn (''doctor: anchors: '' @ err_text e @ newline_text)
       | Inr anchors \<Rightarrow>
           cthen (say (concat (map (\<lambda>a. ''  '' @ pad 12 (a_Version a) @ '' reason='' @ a_Reason a @ newline_text) anchors)))
             (\<lambda>_. if anchors = [] then say (''  (none)'' @ newline_text) else cmd_done ())))"

definition doctor_recover :: "env \<Rightarrow> string \<Rightarrow> string \<Rightarrow> string \<Rightarrow> string \<Rightarrow> unit cmd" where
  "doctor_recover env name server ota_home version =
     cthen (say (newline_text @ ''=== recovering: installing '' @ name @ '' '' @ version @ '' ==='' @ newline_text)) (\<lambda>_.
     let cfg = (agent_config env server)\<lparr>cf_OTAHome := ota_home, cf_Timeout := 2 * minute, cf_Kind := ''recover''\<rparr> in
     cthen (call_or_die ''doctor: recover'' (Install env cfg name version)) (\<lambda>v.
       say (''recovered '' @ name @ '' -> '' @ v @ newline_text)))"

definition doctorCmd :: "env \<Rightarrow> string list \<Rightarrow> unit cmd" where
  "doctorCmd env args =
     cthen (parse_or_exit [(''server'', StringFlag), (''recover'', StringFlag)] (reorderFlags args)) (\<lambda>(vals, rest).
       if rest = [] then die 2 ''doctor: missing <name>''
       else
         let name = hd rest; server = string_flag vals ''server'' (e_getenv env ''OTA_SERVER'');
             recover = string_flag vals ''recover'' [] in
         if server = [] then die 2 ''doctor: --server or $OTA_SERVER required''
         else
           cthen (doctor_local env name (Join [ota_home_plain env, name])) (\<lambda>_.
           cthen (doctor_anchors env name server) (\<lambda>_.
             if recover \<noteq> [] then doctor_recover env name server (ota_home_plain env) recover
             else cmd_done ())))"

definition revertCmd :: "env \<Rightarrow> string list \<Rightarrow> unit cmd" where
  "revertCmd env args =
     (if args = [] then die 2 ''revert: missing <name>''
      else cthen (call_or_die ''revert''
          (Revert env (zero_config\<lparr>cf_OTAHome := e_getenv env ''OTA_HOME''\<rparr>) (hd args))) (\<lambda>_.
        say (''reverted '' @ hd args @ newline_text)))"

definition emailClientFor :: "env \<Rightarrow> string \<Rightarrow> EmailClient res act" where
  "emailClientFor env software = NewEmailClient env (ota_home_plain env) software"

definition setEmailCmd :: "env \<Rightarrow> string list \<Rightarrow> unit cmd" where
  "setEmailCmd env args =
     (case args of
        name # address # _ \<Rightarrow>
          cthen (call_or_die ''set-email'' (emailClientFor env name)) (\<lambda>c.
          cthen (call_or_die ''set-email'' (email_Set env c address)) (\<lambda>_.
            say (''registered '' @ address @ '' for '' @ name @ newline_text)))
      | _ \<Rightarrow> die 2 ''set-email: usage: ota-agent set-email <name> <address>'')"

definition unsetEmailCmd :: "env \<Rightarrow> string list \<Rightarrow> unit cmd" where
  "unsetEmailCmd env args =
     (case args of
        [] \<Rightarrow> die 2 ''unset-email: usage: ota-agent unset-email <name> [<address>]''
      | name # others \<Rightarrow>
          cthen (call_or_die ''unset-email'' (emailClientFor env name)) (\<lambda>c.
          cthen (call_or_die ''unset-email'' (email_Unset env c (case others of [] \<Rightarrow> [] | addr # _ \<Rightarrow> addr))) (\<lambda>deleted.
            say (''removed '' @ itoa deleted @ '' address(es) for '' @ name @ newline_text))))"

definition email_row :: "ClientEmail \<Rightarrow> string" where
  "email_row r = ''  '' @ pad 40 (ce_Email r) @ '' opted-in='' @ ce_OptedInAt r @ '' ('' @
     (if ce_VerifiedAt r \<noteq> [] then ''verified'' else ''unverified'') @ '')'' @ newline_text"

definition showEmailCmd :: "env \<Rightarrow> string list \<Rightarrow> unit cmd" where
  "showEmailCmd env args =
     (if args = [] then die 2 ''show-email: usage: ota-agent show-email <name>''
      else
        cthen (call_or_die ''show-email'' (emailClientFor env (hd args))) (\<lambda>c.
        cthen (call_or_die ''show-email'' (email_Show env c)) (\<lambda>rows.
          if rows = [] then say (''no emails registered for '' @ hd args @ newline_text)
          else say (''registered emails for '' @ hd args @ '':'' @ newline_text @ concat (map email_row rows)))))"


subsection \<open>list, show, verify, prune\<close>

definition humanBytes :: "int \<Rightarrow> string" where
  "humanBytes n =
     (let scaled = (\<lambda>k. case f_of_int n of (m, e) \<Rightarrow> fixed_1 (m, e - k)) in
      if n \<ge> 2 ^ 30 then scaled 30 @ '' GiB''
      else if n \<ge> 2 ^ 20 then scaled 20 @ '' MiB''
      else if n \<ge> 2 ^ 10 then scaled 10 @ '' KiB''
      else itoa n @ '' B'')"

definition orDash :: "string \<Rightarrow> string" where
  "orDash s = (if s = [] then ''-'' else s)"

definition local_row :: "string \<Rightarrow> string \<Rightarrow> string \<Rightarrow> string \<Rightarrow> string \<Rightarrow> string" where
  "local_row a b c d e = pad 24 a @ '' '' @ pad 12 b @ '' '' @ pad 12 c @ '' '' @ pad 10 d @ '' '' @ e @ newline_text"

definition list_local :: "env \<Rightarrow> unit cmd" where
  "list_local env =
     cthen (call_or_die ''list'' (ListLocal env (otaHomeOrDie env))) (\<lambda>entries.
       if entries = [] then say (''(no software installed under '' @ otaHomeOrDie env @ '')'' @ newline_text)
       else say (local_row ''SOFTWARE'' ''CURRENT'' ''PREVIOUS'' ''ON DISK'' ''SERVER'' @
         concat (map (\<lambda>e. local_row (le_Software e) (orDash (le_Current e)) (orDash (le_Previous e))
           (humanBytes (le_OnDiskBytes e)) (orDash (le_ServerURL e))) entries)))"

definition latest_row :: "string \<Rightarrow> string \<Rightarrow> string \<Rightarrow> string \<Rightarrow> string" where
  "latest_row a b c d = pad 24 a @ '' '' @ pad 12 b @ '' '' @ pad 30 c @ '' '' @ d @ newline_text"

definition latest_version :: "RemoteSoftware \<Rightarrow> string" where
  "latest_version r =
     (if rs_LatestVersion r = []
      then (if rs_LatestErr r \<noteq> None then ''(no release)'' else ''(none)'')
      else rs_LatestVersion r)"

definition list_latest :: "env \<Rightarrow> client \<Rightarrow> string \<Rightarrow> unit cmd" where
  "list_latest env tr srv =
     cthen (call_or_die ''list --remote --latest'' (ListRemoteSoftware env tr)) (\<lambda>rems.
       if rems = [] then say (''(server '' @ srv @ '' has no software in its catalogue)'' @ newline_text)
       else say (latest_row ''SOFTWARE'' ''LATEST'' ''DISPLAY NAME'' ''CREATED'' @
         concat (map (\<lambda>r. latest_row (rs_Name r) (latest_version r) (rs_DisplayName r) (rs_CreatedAt r)) rems)))"

definition remote_row :: "string \<Rightarrow> string \<Rightarrow> string \<Rightarrow> string \<Rightarrow> string \<Rightarrow> string \<Rightarrow> string" where
  "remote_row a b c d e f = pad 24 a @ '' '' @ pad 12 b @ '' '' @ pad 12 c @ '' '' @ pad 10 d @ '' '' @
     pad 12 e @ '' '' @ f @ newline_text"

definition release_flags :: "RemoteRelease \<Rightarrow> string" where
  "release_flags r = trimSpace ((if rr_Deprecated r then ''deprecated '' else []) @
     (if rr_Uncollectable r then ''uncollectable '' else []))"

definition list_releases :: "slice_sort \<Rightarrow> env \<Rightarrow> client \<Rightarrow> string \<Rightarrow> unit cmd" where
  "list_releases sorter env tr srv =
     cthen (call_or_die ''list --remote'' (ListRemoteReleases sorter env tr)) (\<lambda>rels.
       if rels = [] then say (''(server '' @ srv @ '' has no releases in its catalogue)'' @ newline_text)
       else say (remote_row ''SOFTWARE'' ''VERSION'' ''OS-ARCH'' ''BLOB'' ''FLAGS'' ''PUBLISHED'' @
         concat (map (\<lambda>r. remote_row (rr_Software r) (rr_Version r) (rr_OS r @ ''-'' @ rr_Arch r)
           (humanBytes (rr_BlobSize r)) (orDash (release_flags r)) (rr_PublishedAt r)) rels)))"

definition listCmd :: "slice_sort \<Rightarrow> env \<Rightarrow> string list \<Rightarrow> unit cmd" where
  "listCmd sorter env args =
     cthen (parse_or_exit [(''remote'', BoolFlag), (''local'', BoolFlag), (''latest'', BoolFlag), (''server'', StringFlag)]
         (reorderFlags args)) (\<lambda>(vals, rest).
       let remote = bool_flag vals ''remote''; local = bool_flag vals ''local'' \<or> \<not> remote;
           srv = string_flag vals ''server'' (e_getenv env ''OTA_SERVER'') in
       if remote \<and> local then die 2 ''list: --remote and --local are mutually exclusive''
       else if local then list_local env
       else if srv = [] then die 2 ''list: --remote requires --server or $OTA_SERVER''
       else
         let tr = New_client (trimRight srv [slash]) in
         if bool_flag vals ''latest'' then list_latest env tr srv
         else list_releases sorter env tr srv)"

definition distribution_line :: "LocalEntry \<Rightarrow> string \<Rightarrow> string" where
  "distribution_line e d =
     ''  '' @ (if d = distribution_prefix @ le_Current e then ''* ''
              else if d = distribution_prefix @ le_Previous e then ''p '' else ''  '') @ d @ newline_text"

definition show_entry :: "LocalEntry \<Rightarrow> string" where
  "show_entry e =
     ''software         : '' @ le_Software e @ newline_text @
     ''current version  : '' @ orDash (le_Current e) @ newline_text @
     ''previous version : '' @ orDash (le_Previous e) @ newline_text @
     ''server URL       : '' @ orDash (le_ServerURL e) @ newline_text @
     (if time_is_zero (le_UpdatedAt e) then []
      else ''last updated     : '' @ utc_rfc3339 (le_UpdatedAt e) @ newline_text) @
     ''history length   : '' @ itoa (le_HistoryLength e) @ '' revisions'' @ newline_text @
     ''on-disk size     : '' @ humanBytes (le_OnDiskBytes e) @ newline_text @
     ''distributions    : '' @ itoa (int (length (le_Distributions e))) @ '' directories'' @ newline_text @
     concat (map (distribution_line e) (le_Distributions e))"

definition showCmd :: "env \<Rightarrow> string list \<Rightarrow> unit cmd" where
  "showCmd env args =
     (if args = [] then die 2 ''show: missing <name>''
      else
        cthen (call_res (LoadLocal env (otaHomeOrDie env) (hd args))) (\<lambda>r.
          case r of
            Inl e \<Rightarrow>
              if is_not_exist e
              then die 1 (''show: '' @ hd args @ '' is not installed under '' @ otaHomeOrDie env)
              else die 1 (''show: '' @ err_text e)
          | Inr entry \<Rightarrow> say (show_entry entry)))"

definition check_line :: "Check \<Rightarrow> string" where
  "check_line c =
     ''  '' @ (if ck_OK c then [CHR 0xE2, CHR 0x9C, CHR 0x93] else [CHR 0xE2, CHR 0x9C, CHR 0x97]) @ '' '' @
     pad 22 (ck_Name c) @ '' '' @ ck_Detail c @ newline_text"

definition verifyCmd :: "env \<Rightarrow> string list \<Rightarrow> unit cmd" where
  "verifyCmd env args =
     cthen (parse_or_exit [(''offline'', BoolFlag), (''server'', StringFlag)] (reorderFlags args)) (\<lambda>(vals, rest).
       if rest = [] then die 2 ''verify: missing <name>''
       else
         let opt = \<lparr> vo_Offline = bool_flag vals ''offline'',
               vo_Server = trimRight (string_flag vals ''server'' (e_getenv env ''OTA_SERVER'')) [slash],
               vo_Trusted = parsePubKeys (e_getenv env ''OTA_TRUSTED_PUBKEYS''), vo_Transport = None \<rparr> in
         cthen (call (verify_Verify env (otaHomeOrDie env) (hd rest) opt)) (\<lambda>rep.
         cthen (say (''=== ota-agent verify '' @ rp_Software rep @
             (if rp_Version rep \<noteq> [] then '' @ '' @ rp_Version rep else []) @ '' ==='' @ newline_text @
             concat (map check_line (rp_Checks rep)))) (\<lambda>_.
           if AllOK rep then say (''OK'' @ newline_text)
           else die 1 ''FAIL: one or more checks did not pass'')))"

fun prune_each :: "env \<Rightarrow> string \<Rightarrow> bool \<Rightarrow> string list \<Rightarrow> unit cmd" where
  "prune_each env name dry [] = cmd_done ()"
| "prune_each env name dry (d # ds) =
     (if dry then cthen (say (''would delete  '' @ d @ newline_text)) (\<lambda>_. prune_each env name dry ds)
      else cthen (call_or_die ''prune'' (DeleteDistribution env (otaHomeOrDie env) name d)) (\<lambda>_.
           cthen (say (''deleted       '' @ d @ newline_text)) (\<lambda>_. prune_each env name dry ds)))"

definition prune_run :: "env \<Rightarrow> string \<Rightarrow> int \<Rightarrow> bool \<Rightarrow> unit cmd" where
  "prune_run env name depth dry =
     cthen (call_or_die ''prune'' (PruneCandidates env (otaHomeOrDie env) name depth)) (\<lambda>cands.
       if cands = []
       then say (''nothing to prune under '' @ otaHomeOrDie env @ ''/'' @ name @ '' (depth='' @ itoa depth @ '')'' @ newline_text)
       else prune_each env name dry cands)"

definition pruneCmd :: "env \<Rightarrow> string list \<Rightarrow> unit cmd" where
  "pruneCmd env args =
     cthen (parse_or_exit [(''archive-depth'', IntFlag), (''dry-run'', BoolFlag)] (reorderFlags args)) (\<lambda>(vals, rest).
       let depth = int_flag vals ''archive-depth'' 2 in
       if rest = [] then die 2 ''prune: missing <name>''
       else if depth < 0 then die 2 ''prune: --archive-depth must be >= 0''
       else prune_run env (hd rest) depth (bool_flag vals ''dry-run''))"


subsection \<open>The main program\<close>

definition usage :: string where
  "usage = ''ota-agent '' @ em_dash @ '' Ogamita Delta OTA client'' @ newline_text @ newline_text @
     ''Usage:
  ota-agent install   <name> [--version=X|--latest] [--server=URL]
  ota-agent upgrade   <name> [--to=X|--latest]      [--server=URL]
  ota-agent revert    <name>
  ota-agent list      [--remote|--local]
  ota-agent show      <name>
  ota-agent verify    <name>
  ota-agent prune     <name> [--archive-depth=N]
  ota-agent watch     <name> [--interval=24h]
  ota-agent doctor    [<name> --recover]
  ota-agent set-email   <name> <address>      register an email for upgrade notifications
  ota-agent unset-email <name> [<address>]    remove one address (or all)
  ota-agent show-email  <name>                list registered addresses
  ota-agent licenses
  ota-agent version

Environment:
  OTA_HOME      base directory for installs (default: ~/.ota)
  OTA_SERVER    default server URL when --server is not given
''"

definition printLicenses :: "unit cmd" where
  "printLicenses = say (''Ogamita Delta OTA '' @ em_dash @ '' AGPL-3.0-or-later'' @ newline_text @
     ''Copyright (C) 2026 Ogamita Ltd.'' @ newline_text @
     ''See docs/THIRD_PARTY_LICENSES.org for vendored components.'' @ newline_text)"

definition usage_exit :: "int \<Rightarrow> unit cmd" where
  "usage_exit n = cthen (warn usage) (\<lambda>_. os_Exit n)"

definition dispatch :: "slice_sort \<Rightarrow> nat \<Rightarrow> env \<Rightarrow> string \<Rightarrow> string list \<Rightarrow> unit cmd" where
  "dispatch sorter ticks env name args =
     (if name = ''version'' then say (''ota-agent '' @ Version_libota @ newline_text)
      else if name = ''licenses'' then printLicenses
      else if name = ''install'' then installCmd env args
      else if name = ''upgrade'' then upgradeCmd env args
      else if name = ''revert'' then revertCmd env args
      else if name = ''doctor'' then doctorCmd env args
      else if name = ''watch'' then watchCmd ticks env args
      else if name = ''list'' then listCmd sorter env args
      else if name = ''show'' then showCmd env args
      else if name = ''verify'' then verifyCmd env args
      else if name = ''prune'' then pruneCmd env args
      else if name = ''set-email'' then setEmailCmd env args
      else if name = ''unset-email'' then unsetEmailCmd env args
      else if name = ''show-email'' then showEmailCmd env args
      else usage_exit 2)"

definition agent_main :: "slice_sort \<Rightarrow> nat \<Rightarrow> env \<Rightarrow> string list \<Rightarrow> unit cmd" where
  "agent_main sorter ticks env args =
     (case parse_flags [] [] args of
        HelpAsked \<Rightarrow> usage_exit 0
      | BadFlag msg \<Rightarrow> cthen (warn (msg @ newline_text)) (\<lambda>_. usage_exit 2)
      | Parsed vals [] \<Rightarrow> usage_exit 2
      | Parsed vals (name # rest) \<Rightarrow> dispatch sorter ticks env name rest)"

end
