(* ===== verification/Agent_Safety.thy ===== *)
theory Agent_Safety
  imports Agent
begin

section \<open>What the commands do to the installation\<close>

text \<open>
  Frames of the commands, from those of the packages: a command relates the worlds the way its
  calls do, whatever it prints and whichever code it exits with. From these: the commands that only
  look change nothing, and \<^verbatim>\<open>prune\<close> removes nothing but distributions that are not installed. Then
  what the reordering of the arguments does, and where it goes wrong.
\<close>

subsection \<open>Frames of commands\<close>

definition on_world :: "(world \<Rightarrow> world \<Rightarrow> bool) \<Rightarrow> world \<times> screen \<Rightarrow> world \<times> screen \<Rightarrow> bool" where
  "on_world R s s' \<longleftrightarrow> R (fst s) (fst s')"

locale world_frame = preorder_frame R for R :: "world \<Rightarrow> world \<Rightarrow> bool"
begin

lemma on_world_frame: "preorder_frame (on_world R)"
  by unfold_locales (auto simp: on_world_def intro: refl trans)

lemma keeps_pure:
  "keeps (on_world R) (cmd_done x)" "keeps (on_world R) (os_Exit n)"
  "keeps (on_world R) (say t)" "keeps (on_world R) (warn t)"
  by (auto intro!: keepsI simp: cmd_done_def os_Exit_def say_def warn_def on_world_def refl)

lemma keeps_cthen: "keeps (on_world R) m \<Longrightarrow> (\<And>x. keeps (on_world R) (f x)) \<Longrightarrow> keeps (on_world R) (cthen m f)"
  unfolding cthen_def
  by (intro preorder_frame.keeps_rules [OF on_world_frame] keeps_pure)

lemma keeps_die: "keeps (on_world R) (die n t)"
  unfolding die_def by (intro keeps_cthen keeps_pure)

lemma keeps_call: "keeps R m \<Longrightarrow> keeps (on_world R) (call m)"
  by (auto intro!: keepsI simp: call_def on_world_def split: prod.splits dest: keepsD)

lemma keeps_parse: "keeps (on_world R) (parse_or_exit formal args)"
  unfolding parse_or_exit_def by (cases "parse_flags formal [] args") (auto intro: keeps_pure keeps_die)

lemmas keeps_control = preorder_frame.keeps_case_sum [OF on_world_frame]
  preorder_frame.keeps_case_prod [OF on_world_frame] preorder_frame.keeps_if [OF on_world_frame]

lemma keeps_call_res: "keeps R m \<Longrightarrow> keeps (on_world R) (call_res m)"
  unfolding call_res_def by (intro keeps_cthen keeps_control keeps_call keeps_pure keeps_die)

lemma keeps_call_or_die: "keeps R m \<Longrightarrow> keeps (on_world R) (call_or_die t m)"
  unfolding call_or_die_def by (intro keeps_cthen keeps_control keeps_call_res keeps_pure keeps_die)

lemmas keeps_cmd = keeps_cthen keeps_control keeps_pure keeps_die keeps_parse

end

interpretation sfc: world_frame same_files by unfold_locales
interpretation qtc: world_frame quiet by unfold_locales
interpretation frc: world_frame "frame L" for L by unfold_locales

lemma keeps_on_world_mono:
  "keeps (on_world R) m \<Longrightarrow> (\<And>w w'. R w w' \<Longrightarrow> S w w') \<Longrightarrow> keeps (on_world S) m"
  by (auto simp: keeps_def on_world_def)

lemma quiet_list_local: "keeps (on_world quiet) (list_local env)"
  unfolding list_local_def by (intro qtc.keeps_cmd qtc.keeps_call_or_die quiet_ListLocal)

lemma quiet_showCmd: "keeps (on_world quiet) (showCmd env args)"
  unfolding showCmd_def by (intro qtc.keeps_cmd qtc.keeps_call_res quiet_LoadLocal)

lemma quiet_prune_dry: "keeps (on_world quiet) (prune_run env name depth True)"
proof -
  have "keeps (on_world quiet) (prune_each env name True ds)" for ds
    by (induction ds) (auto intro!: qtc.keeps_cmd)
  then show ?thesis
    unfolding prune_run_def by (intro qtc.keeps_cmd qtc.keeps_call_or_die quiet_PruneCandidates)
qed

lemma keeps_listCmd: "keeps (on_world same_files) (listCmd sorter env args)"
proof -
  have "keeps (on_world same_files) (list_local env)"
    by (rule keeps_on_world_mono [OF quiet_list_local]) (simp add: quiet_def)
  then show ?thesis
    unfolding listCmd_def list_latest_def list_releases_def Let_def
    by (intro sfc.keeps_cmd sfc.keeps_call_or_die keeps_ListRemoteSoftware keeps_ListRemoteReleases)
qed

lemma keeps_verifyCmd: "keeps (on_world same_files) (verifyCmd env args)"
  unfolding verifyCmd_def Let_def by (intro sfc.keeps_cmd sfc.keeps_call keeps_verify_Verify)

lemma keeps_emailClientFor: "keeps same_files (emailClientFor env sw)"
  unfolding emailClientFor_def NewEmailClient_def Load_def by (intro sf.keeps_rules keeps_same_files)

lemma keeps_email_commands:
  "keeps (on_world same_files) (setEmailCmd env args)"
  "keeps (on_world same_files) (unsetEmailCmd env args)"
  "keeps (on_world same_files) (showEmailCmd env args)"
proof -
  have e: "keeps same_files (email_Set env c a)" "keeps same_files (email_Unset env c a)"
    "keeps same_files (email_Show env c)" for c a
    unfolding email_Set_def email_Unset_def email_Show_def
    by (intro sf.keeps_rules keeps_endpoint [OF one_request_endpoints(6)] keeps_endpoint [OF one_request_endpoints(7)]
        keeps_endpoint [OF one_request_endpoints(8)])+
  note rules = sfc.keeps_cmd sfc.keeps_call_or_die keeps_emailClientFor e
  show "keeps (on_world same_files) (setEmailCmd env args)"
    unfolding setEmailCmd_def by (auto split: list.split intro!: rules)
  show "keeps (on_world same_files) (unsetEmailCmd env args)"
    unfolding unsetEmailCmd_def by (auto split: list.split intro!: rules)
  show "keeps (on_world same_files) (showEmailCmd env args)"
    unfolding showEmailCmd_def by (intro rules)
qed

lemma keeps_doctor_parts:
  "keeps (on_world same_files) (doctor_local env name root)"
  "keeps (on_world same_files) (doctor_anchors env name server)"
  unfolding doctor_local_def doctor_anchors_def
  by (intro sfc.keeps_cmd sfc.keeps_call sfc.keeps_call_res keeps_same_files keeps_endpoint [OF one_request_endpoints(2)])+

text \<open>\<open>C37\<close>. The commands that look do not touch: listing, showing, verifying, the e-mail commands, the
  survey of the doctor and a dry run of pruning change no file, whatever they print and however
  they end; of these the local listing, \<^verbatim>\<open>show\<close> and the dry run send no request either.\<close>

theorem looking_changes_nothing:
  "keeps (on_world same_files) (listCmd sorter env args) \<and>
   keeps (on_world same_files) (verifyCmd env args) \<and>
   keeps (on_world same_files) (setEmailCmd env args) \<and>
   keeps (on_world same_files) (unsetEmailCmd env args) \<and>
   keeps (on_world same_files) (showEmailCmd env args) \<and>
   keeps (on_world same_files) (doctor_local env name root) \<and>
   keeps (on_world same_files) (doctor_anchors env name server) \<and>
   keeps (on_world quiet) (list_local env) \<and>
   keeps (on_world quiet) (showCmd env args) \<and>
   keeps (on_world quiet) (prune_run env name depth True)"
  by (simp add: keeps_listCmd keeps_verifyCmd keeps_email_commands keeps_doctor_parts quiet_list_local
      quiet_showCmd quiet_prune_dry)


subsection \<open>Pruning\<close>

lemma wp_cthen:
  "wp (cthen m f) Q s = wp m (\<lambda>r s'. case r of Inl n \<Rightarrow> Q (Inl n) s' | Inr x \<Rightarrow> wp (f x) Q s') s"
  by (simp add: cthen_def os_Exit_def wp_def split: prod.splits sum.splits)

lemma otaHomeOrDie_not_Nil: "otaHomeOrDie env \<noteq> []"
  by (auto simp: otaHomeOrDie_def Let_def split: option.splits)

lemma keeps_prune_each:
  assumes "list_all plain ds" and "r = at env (Root (New (otaHomeOrDie env) name))"
  shows "keeps (on_world (frame {k. \<exists>d \<in> set ds. under (r @ [d]) k})) (prune_each env name dry ds)"
  using assms(1)
proof (induction ds)
  case Nil
  then show ?case by (simp add: frc.keeps_pure)
next
  case (Cons d ds)
  have at: "at env (Join [Root (New (otaHomeOrDie env) name), d]) = r @ [d]"
    unfolding assms(2) using Cons.prems
    by (intro loc_of_Join_plain Root_not_Nil otaHomeOrDie_not_Nil) simp
  have rest: "keeps (on_world (frame {k. \<exists>x \<in> set (d # ds). under (r @ [x]) k})) (prune_each env name dry ds)"
    by (rule keeps_on_world_mono [OF Cons.IH]) (use Cons.prems in \<open>auto elim: frame_mono\<close>)
  have "keeps (frame {k. \<exists>x \<in> set (d # ds). under (r @ [x]) k}) (DeleteDistribution env (otaHomeOrDie env) name d)"
    by (rule keeps_frame_mono [OF keeps_DeleteDistribution]) (auto simp only: at list.set_intros mem_Collect_eq)
  with rest show ?case
    unfolding prune_each.simps by (intro frc.keeps_cmd frc.keeps_call_or_die)
qed

text \<open>What a run of the pruning may change: what lies under the distributions of the scan that are not
  installed and not among the \<open>depth\<close> newest of those.\<close>

definition pruned :: "env \<Rightarrow> string \<Rightarrow> int \<Rightarrow> world \<Rightarrow> world \<Rightarrow> bool" where
  "pruned env name depth w w' \<longleftrightarrow>
     (let l = New (otaHomeOrDie env) name in \<exists>st items. recorded env l w st \<and>
       sorted items \<and> scanned env w (Root l) items \<and>
       (\<forall>k. look w' k \<noteq> look w k \<longrightarrow>
          (\<exists>d. plain d \<and> hasPrefix d distribution_prefix \<and> d \<notin> installed_dirs st \<and>
             d \<in> set (drop (nat depth) (filter (\<lambda>d. d \<notin> installed_dirs st) (map si_name items))) \<and>
             under (at env (Root l) @ [d]) k)))"

lemma wp_call: "wp (call m) Q (w, sc) = wp m (\<lambda>r w'. Q (Inr r) (w', sc)) w"
  by (simp add: wp_def call_def split: prod.splits)

lemma wp_call_or_die:
  assumes "wp m (\<lambda>r w'. R w' \<and> (case r of Inl _ \<Rightarrow> True | Inr x \<Rightarrow> P x)) (fst s)"
  shows "wp (call_or_die t m) (\<lambda>r s'. R (fst s') \<and> (case r of Inl _ \<Rightarrow> True | Inr x \<Rightarrow> P x)) s"
proof (cases s)
  case (Pair w sc)
  have "wp (warn t) Q (w, sc) = Q (Inr ()) (w, sc\<lparr>sc_err := sc_err sc @ t\<rparr>)" for t Q w sc
    by (simp add: warn_def wp_def)
  with assms Pair show ?thesis
    unfolding call_or_die_def call_res_def die_def
    by (auto simp: wp_cthen wp_call cmd_done_def os_Exit_def wp_return elim!: wp_mono split: sum.split)
qed

lemma prune_run_changes:
  assumes "run_state (prune_run env name depth dry) s = (r, s')"
  shows "same_files (fst s) (fst s') \<or> pruned env name depth (fst s) (fst s')"
proof -
  let ?home = "otaHomeOrDie env" and ?w = "fst s"
  let ?l = "New ?home name"
  have "wp (prune_run env name depth dry) (\<lambda>_ s'. same_files ?w (fst s') \<or> pruned env name depth ?w (fst s')) s"
    unfolding prune_run_def wp_cthen
  proof (rule wp_mono [OF wp_call_or_die [OF wp_PruneCandidates [OF otaHomeOrDie_not_Nil]]], goal_cases)
    case (1 r s1)
    show ?case
    proof (cases r)
      case (Inl n)
      with 1 show ?thesis by simp
    next
      case (Inr cands)
      obtain st items where st: "recorded env ?l ?w st" "sorted items" and it: "scanned env ?w (Root ?l) items"
        and cands: "cands = rev (drop (nat depth) (filter (\<lambda>d. d \<notin> installed_dirs st) (map si_name items)))"
        using 1 Inr by auto
      have d: "plain d \<and> hasPrefix d distribution_prefix \<and> d \<notin> installed_dirs st \<and>
          d \<in> set (drop (nat depth) (filter (\<lambda>d. d \<notin> installed_dirs st) (map si_name items)))"
        if "d \<in> set cands" for d
        using that it unfolding cands by (auto simp: scanned_def list_all_iff dest!: in_set_dropD)
      let ?K = "{k. \<exists>d \<in> set cands. under (at env (Root ?l) @ [d]) k}"
      let ?m = "if cands = []
          then say (''nothing to prune under '' @ ?home @ ''/'' @ name @ '' (depth='' @ itoa depth @ '')'' @ newline_text)
          else prune_each env name dry cands"
      have "keeps (on_world (frame ?K)) ?m"
        by (intro frc.keeps_cmd keeps_prune_each refl) (simp add: d list_all_iff)
      from keeps_wp [OF this, of s1] have "wp ?m (\<lambda>_ s'. frame ?K (fst s1) (fst s')) s1"
        by (rule wp_mono) (simp only: on_world_def)
      then have "wp ?m (\<lambda>_ s'. same_files ?w (fst s') \<or> pruned env name depth ?w (fst s')) s1"
      proof (rule wp_mono)
        fix r s2
        assume f: "frame ?K (fst s1) (fst s2)"
        have "k \<in> ?K" if "look (fst s2) k \<noteq> look ?w k" for k
          using that frameD [OF f, of k] same_files_look [OF conjunct1 [OF 1], of k] by auto
        with st it d have "pruned env name depth ?w (fst s2)"
          unfolding pruned_def Let_def by blast
        then show "same_files ?w (fst s2) \<or> pruned env name depth ?w (fst s2)" ..
      qed
      then show ?thesis
        unfolding Inr by simp
    qed
  qed
  from wpD [OF this assms] show ?thesis .
qed

lemma cthen_stops [simp]:
  "cthen (os_Exit n) f = os_Exit n" "cthen (cmd_done x) f = f x" "cthen (die n t) f = die n t"
  by (auto intro!: state.expand simp: cthen_def os_Exit_def cmd_done_def die_def warn_def fun_eq_iff)

lemma wp_os_Exit: "wp (os_Exit n) Q s = Q (Inl n) s"
  by (simp add: os_Exit_def wp_return)

text \<open>\<open>C7\<close>. Whatever a prune command changes lies under a \<^verbatim>\<open>distribution-\<close> directory of the product that
  its first argument beside the flags names; that directory is neither the one of the current nor the one
  of the previous version in the product's record, and not among the \<^verbatim>\<open>--archive-depth\<close> (two, when
  there is no such flag) newest of the others. With \<^verbatim>\<open>--dry-run\<close>, with arguments that are not
  understood, or without a name it changes nothing and sends nothing. This holds for all arguments, and
  when calls fail or the machine stops in the middle.\<close>

theorem prune_spares_the_installation:
  assumes "run_state (pruneCmd env args) (w, sc) = (r, (w', sc'))"
  shows "case parse_flags [(''archive-depth'', IntFlag), (''dry-run'', BoolFlag)] [] (reorderFlags args) of
      Parsed vals (name # rest) \<Rightarrow>
        if bool_flag vals ''dry-run'' then quiet w w'
        else same_files w w' \<or> pruned env name (int_flag vals ''archive-depth'' 2) w w'
    | _ \<Rightarrow> quiet w w'"
proof -
  let ?p = "parse_flags [(''archive-depth'', IntFlag), (''dry-run'', BoolFlag)] [] (reorderFlags args)"
  have same: "quiet w v \<Longrightarrow> same_files w v" for v by (simp add: quiet_def)
  have stop: "wp (die n t) (\<lambda>_ s'. quiet w (fst s')) (w, sc)" for n t
    using keeps_wp [OF qtc.keeps_die, of n t "(w, sc)"] by (rule wp_mono) (simp add: on_world_def)
  have dry: "wp (prune_run env name depth True) (\<lambda>_ s'. quiet w (fst s')) (w, sc)" for name depth
    using keeps_wp [OF quiet_prune_dry, of env name depth "(w, sc)"] by (rule wp_mono) (simp add: on_world_def)
  have run: "wp (prune_run env name depth False)
      (\<lambda>_ s'. same_files w (fst s') \<or> pruned env name depth w (fst s')) (w, sc)" for name depth
    by (rule wpI) (use prune_run_changes [of env name depth False "(w, sc)"] in auto)
  have "wp (pruneCmd env args) (\<lambda>_ s'. case ?p of
      Parsed vals (name # rest) \<Rightarrow>
        if bool_flag vals ''dry-run'' then quiet w (fst s')
        else same_files w (fst s') \<or> pruned env name (int_flag vals ''archive-depth'' 2) w (fst s')
    | _ \<Rightarrow> quiet w (fst s')) (w, sc)"
  proof (cases ?p)
    case (Parsed vals rest)
    then show ?thesis
    proof (cases rest)
      case (Cons name more_args)
      show ?thesis
      proof (cases "int_flag vals ''archive-depth'' 2 < 0")
        case True
        with Parsed Cons show ?thesis
          by (auto simp: pruneCmd_def parse_or_exit_def Let_def stop intro!: wp_mono [OF stop] dest: same)
      next
        case False
        with Parsed Cons show ?thesis
          by (cases "bool_flag vals ''dry-run''") (simp_all add: pruneCmd_def parse_or_exit_def Let_def run dry)
      qed
    qed (simp add: pruneCmd_def parse_or_exit_def Let_def stop)
  qed (simp_all add: pruneCmd_def parse_or_exit_def stop wp_os_Exit qt.refl)
  from wpD [OF this assms] show ?thesis by (simp only: fst_conv)
qed


subsection \<open>The order of the arguments\<close>

lemma mset_reorder_loop: "mset (reorder_loop args flags pos) = mset args + mset flags + mset pos"
  by (induction args flags pos rule: reorder_loop.induct) auto

lemma reorder_loop_valued:
  assumes "list_all (\<lambda>a. dashed a \<longrightarrow> CHR ''='' \<in> set a) args" and "\<forall>a \<in> set flags. CHR ''='' \<in> set a"
  shows "reorder_loop args flags pos = flags @ filter dashed args @ pos @ filter (\<lambda>a. \<not> dashed a) args"
  using assms
proof (induction args flags pos rule: reorder_loop.induct)
  case (2 a args flags pos)
  then show ?case by (cases "flags = []") auto
qed simp

lemma dashed_valued: "dashed a \<Longrightarrow> CHR ''='' \<in> set a \<Longrightarrow> \<not> not_a_flag a \<and> a \<noteq> ''--'' \<and> flag_value (flag_name a) \<noteq> None"
  by (cases a; cases "tl a")
    (auto simp: dashed_def not_a_flag_def flag_value_def flag_name_def split: if_splits)

lemma parse_valued:
  assumes "list_all (\<lambda>a. dashed a \<and> CHR ''='' \<in> set a) flags" and "list_all (\<lambda>a. \<not> dashed a) pos"
    and "parse_flags formal vals (flags @ pos) = Parsed vals' rest"
  shows "rest = pos"
  using assms
proof (induction flags arbitrary: vals)
  case Nil
  then show ?case
    by (cases pos) (auto simp: not_a_flag_def dashed_def split: if_splits list.splits, case_tac a, auto)
next
  case (Cons a flags)
  then obtain v where "\<not> not_a_flag a" "a \<noteq> ''--''" "flag_value (flag_name a) = Some v"
    using dashed_valued [of a] by auto
  with Cons show ?case
    by (auto simp: Let_def split: if_splits option.splits flag_kind.splits sum.splits)
qed

text \<open>The reordering loses and invents no argument; and where every flag has its value after an
  equals sign, what the flag package leaves over after it are the arguments that are no flags, in
  their order, wherever the user put the flags.\<close>

theorem flags_anywhere:
  assumes "list_all (\<lambda>a. dashed a \<longrightarrow> CHR ''='' \<in> set a) args"
    and "parse_flags formal [] (reorderFlags args) = Parsed vals rest"
  shows "mset (reorderFlags args) = mset args \<and> rest = filter (\<lambda>a. \<not> dashed a) args"
proof -
  have eq: "reorderFlags args = filter dashed args @ filter (\<lambda>a. \<not> dashed a) args"
    using reorder_loop_valued [OF assms(1), of "[]" "[]"] by (simp add: reorderFlags_def)
  have "rest = filter (\<lambda>a. \<not> dashed a) args"
    by (rule parse_valued [where flags = "filter dashed args"])
      (use assms in \<open>auto simp: eq list_all_iff\<close>)
  then show ?thesis by (simp add: reorderFlags_def mset_reorder_loop)
qed

theorem flags_anywhere_witness:
  "\<exists>vals. parse_flags [(''to'', StringFlag), (''server'', StringFlag)] []
     (reorderFlags [''app'', ''--server=http://s'', ''more'', ''--to=2'']) = Parsed vals [''app'', ''more'']"
proof -
  have "case parse_flags [(''to'', StringFlag), (''server'', StringFlag)] []
      (reorderFlags [''app'', ''--server=http://s'', ''more'', ''--to=2'']) of Parsed vals rest \<Rightarrow> True | _ \<Rightarrow> False"
    by code_simp
  then obtain vals rest where p: "parse_flags [(''to'', StringFlag), (''server'', StringFlag)] []
      (reorderFlags [''app'', ''--server=http://s'', ''more'', ''--to=2'']) = Parsed vals rest"
    by (auto split: parse_result.splits)
  moreover have "rest = [''app'', ''more'']"
    using flags_anywhere [OF _ p] by (simp add: dashed_def)
  ultimately show ?thesis by blast
qed

text \<open>What a flag without a value does to the name after it.\<close>

lemma reorder_loop_dashed: "list_all dashed xs \<Longrightarrow> reorder_loop xs flags pos = flags @ xs @ pos"
  by (induction xs arbitrary: flags) auto

lemma reorder_latest:
  assumes "\<not> dashed name" and "list_all dashed flags"
  shows "reorderFlags (''--latest'' # name # flags) = ''--latest'' # name # flags"
    "reorderFlags (name # ''--latest'' # flags) = ''--latest'' # flags @ [name]"
  using assms by (simp_all add: reorderFlags_def reorder_loop_dashed dashed_def)

abbreviation install_flags :: "(string \<times> flag_kind) list" where
  "install_flags \<equiv> [(''version'', StringFlag), (''latest'', BoolFlag), (''server'', StringFlag),
     (''install-token'', StringFlag), (''hwinfo'', StringFlag)]"

lemma parse_latest:
  "parse_flags install_flags vals (''--latest'' # args) = parse_flags install_flags ((''latest'', BoolVal True) # vals) args"
  by (simp add: not_a_flag_def flag_name_def flag_key_def flag_value_def Let_def)

lemma parse_name: "\<not> dashed name \<Longrightarrow> parse_flags formal vals (name # args) = Parsed vals (name # args)"
  by (cases name) (auto simp: dashed_def not_a_flag_def)

lemma parse_server:
  "a = ''--server='' @ url \<Longrightarrow> parse_flags install_flags vals (a # args) =
   parse_flags install_flags ((''server'', StringVal url) # vals) args"
  by (simp add: not_a_flag_def flag_name_def flag_key_def flag_value_def Let_def)

text \<open>\<open>C38\<close>. A flag without a value takes the argument after it along, also a boolean one. With
  \<^verbatim>\<open>--latest\<close> before the name no flag after the name is seen: whatever \<^verbatim>\<open>--server\<close>, \<^verbatim>\<open>--version\<close>,
  \<^verbatim>\<open>--install-token\<close> and \<^verbatim>\<open>--hwinfo\<close> say, the server and the token are those of the environment
  variables, and without \<^verbatim>\<open>OTA_SERVER\<close> the command ends with code 2; with the name first the flags
  are all before it for the flag package, and the server is the one given.\<close>

theorem boolean_flag_swallows_the_name:
  assumes "\<not> dashed name" and "list_all dashed flags" and "url \<noteq> []"
  shows "fst (run_state (parseInstallFlags env (''--latest'' # name # flags)) s) =
      (if e_getenv env ''OTA_SERVER'' = [] then Inl 2
       else Inr \<lparr> ia_name = name, ia_version = ''latest'', ia_server = e_getenv env ''OTA_SERVER'',
         ia_installToken = e_getenv env ''OTA_INSTALL_TOKEN'',
         ia_hwinfo = (case e_hostname env of Some h \<Rightarrow> h | None \<Rightarrow> []) \<rparr>) \<and>
    reorderFlags (name # ''--latest'' # flags) = ''--latest'' # flags @ [name] \<and>
    fst (run_state (parseInstallFlags env [name, ''--latest'', ''--server='' @ url]) s) =
      Inr \<lparr> ia_name = name, ia_version = ''latest'', ia_server = url,
        ia_installToken = e_getenv env ''OTA_INSTALL_TOKEN'',
        ia_hwinfo = (case e_hostname env of Some h \<Rightarrow> h | None \<Rightarrow> []) \<rparr>"
proof -
  have first: "parse_flags install_flags [] (reorderFlags (''--latest'' # name # flags)) =
      Parsed [(''latest'', BoolVal True)] (name # flags)"
    unfolding reorder_latest(1) [OF assms(1,2)] parse_latest by (rule parse_name [OF assms(1)])
  have last_pos: "parse_flags install_flags [] (reorderFlags [name, ''--latest'', a]) =
      Parsed [(''server'', StringVal url), (''latest'', BoolVal True)] [name]" if a: "a = ''--server='' @ url" for a
  proof -
    have d: "list_all dashed [a]" by (simp add: a dashed_def)
    show ?thesis
      unfolding reorder_latest(2) [OF assms(1) d] append.simps parse_latest parse_server [OF a]
      by (rule parse_name [OF assms(1)])
  qed
  note defs = parseInstallFlags_def parse_or_exit_def string_flag_def bool_flag_def Let_def
  show ?thesis
    using first last_pos [OF refl] assms(3) reorder_latest(2) [OF assms(1,2)]
    by (auto simp: defs die_def cthen_def warn_def os_Exit_def cmd_done_def split: option.splits prod.splits)
qed

theorem boolean_flag_swallows_the_name_witness:
  "fst (run_state (parseInstallFlags calm [''--latest'', ''app'', ''--server=http://s'']) (demo_world, \<lparr> sc_out = [], sc_err = [] \<rparr>)) = Inl 2 \<and>
   fst (run_state (parseInstallFlags calm [''app'', ''--latest'', ''--server=http://s'']) (demo_world, \<lparr> sc_out = [], sc_err = [] \<rparr>)) =
     Inr \<lparr> ia_name = ''app'', ia_version = ''latest'', ia_server = ''http://s'', ia_installToken = [],
       ia_hwinfo = ''host'' \<rparr>"
  using boolean_flag_swallows_the_name [of "''app''" "[''--server=http://s'']" "''http://s''" calm
      "(demo_world, \<lparr> sc_out = [], sc_err = [] \<rparr>)"]
  by (simp add: dashed_def calm_def)

end
