(* ===== verification/Agent_Examples.thy ===== *)
theory Agent_Examples
  imports Agent_Safety
begin

section \<open>Pruning that runs\<close>

text \<open>
  A product with four distributions, of which the record names two, pruned down to one more.
\<close>

definition prune_env :: env where
  "prune_env = calm\<lparr>e_getenv := (\<lambda>k. if k = ''OTA_HOME'' then ''/home'' else [])\<rparr>"

definition demo_four :: "bytes \<Rightarrow> nat \<Rightarrow> world" where
  "demo_four b n = \<lparr> w_tree =
     [([''home''], DirNode), ([''home'', ''app''], DirNode),
      ([''home'', ''app'', ''state.json''], FileNode 420 b),
      ([''home'', ''app'', ''distribution-0''], DirNode), ([''home'', ''app'', ''distribution-1''], DirNode),
      ([''home'', ''app'', ''distribution-2''], DirNode), ([''home'', ''app'', ''distribution-3''], DirNode),
      ([''home'', ''app'', ''distribution-0'', ''app''], FileNode 420 [1]),
      ([''home'', ''app'', ''distribution-2'', ''app''], FileNode 420 [7, 9])],
     w_ops = n, w_reqs = [] \<rparr>"

lemma demo_state_ok: "dec_state (enc_state demo_record) = Some demo_record"
proof -
  have "state_ok demo_record" by code_simp
  then show ?thesis by (rule state_file.dec_enc)
qed

lemma demo_four_load:
  "run_state (Load prune_env demo_layout) (demo_four (enc_state demo_record) 0) =
     (Inr demo_record, demo_four (enc_state demo_record) 1)"
proof -
  have "at prune_env (StateFile demo_layout) = [''home'', ''app'', ''state.json'']" by code_simp
  moreover have "e_fault prune_env 0 = None" by (simp add: prune_env_def calm_def)
  ultimately show ?thesis
    by (simp add: Load_def os_read_file_def run_state_fs_op Let_def t_read_file_def demo_four_def node_at_def
        demo_state_ok)
qed

lemma demo_four_scan:
  "run_state (scanDistributions prune_env (Root demo_layout)) (demo_four b 1) =
   ([''distribution-3'', ''distribution-2'', ''distribution-1'', ''distribution-0''], demo_four b 6)"
  by code_simp

lemma demo_prune_list:
  "prune_list demo_record 1 [''distribution-3'', ''distribution-2'', ''distribution-1'', ''distribution-0''] =
   [''distribution-0'']"
  by code_simp

lemma demo_candidates:
  "run_state (PruneCandidates prune_env ''/home'' ''app'' 1) (demo_four (enc_state demo_record) 0) =
   (Inr [''distribution-0''], demo_four (enc_state demo_record) 6)"
  by (simp add: PruneCandidates_def Let_def demo_layout_def [symmetric] demo_four_load demo_four_scan demo_prune_list
    del: One_nat_def)

theorem prune_candidates_witness:
  "\<exists>st items. sorted items \<and> recorded prune_env demo_layout (demo_four (enc_state demo_record) 0) st \<and>
     {''distribution-0'', ''distribution-1'', ''distribution-2'', ''distribution-3''} \<subseteq> si_name ` set items \<and>
     [''distribution-0''] = rev (drop 1 (filter (\<lambda>d. d \<notin> installed_dirs st) (map si_name items)))"
proof -
  let ?w = "demo_four (enc_state demo_record) 0"
  have root: "loc_of [] (Root demo_layout) = [''home'', ''app'']" by code_simp
  have nf: "no_faults prune_env" "e_cwd prune_env = []" by (simp_all add: prune_env_def no_faults_def calm_def)
  have "{''distribution-0'', ''distribution-1'', ''distribution-2'', ''distribution-3''} \<subseteq> si_name ` set items"
    if "all_scanned prune_env ?w (Root demo_layout) items" for items
    using that unfolding all_scanned_def nf(2) root
    by (auto simp: plain_def distribution_prefix_def demo_four_def look_def node_at_def)
  moreover have dir: "look ?w [''home'', ''app''] = Some DirNode" by (simp add: demo_four_def look_def node_at_def)
  obtain st items where "sorted items" "recorded prune_env demo_layout ?w st"
      "all_scanned prune_env ?w (Root demo_layout) items"
      "[''distribution-0''] = rev (drop 1 (filter (\<lambda>d. d \<notin> installed_dirs st) (map si_name items)))"
    using prune_candidates [OF demo_candidates, folded demo_layout_def] nf root dir by auto
  ultimately show ?thesis by blast
qed

theorem prune_spares_the_installation_witness:
  "let w = demo_four (enc_state demo_record) 0;
       s' = snd (run_state (pruneCmd prune_env [''app'', ''--archive-depth=1'']) (w, \<lparr> sc_out = [], sc_err = [] \<rparr>)) in
   look (fst s') [''home'', ''app'', ''distribution-0''] = None \<and>
   pruned prune_env ''app'' 1 w (fst s') \<and>
   quiet w (fst (snd (run_state (pruneCmd prune_env [''--dry-run=1'', ''app'']) (w, \<lparr> sc_out = [], sc_err = [] \<rparr>))))"
proof -
  let ?w = "demo_four (enc_state demo_record) 0"
  let ?m = "run_state (pruneCmd prune_env [''app'', ''--archive-depth=1'']) (?w, \<lparr> sc_out = [], sc_err = [] \<rparr>)"
  have run: "?m = (fst ?m, (fst (snd ?m), snd (snd ?m)))" by simp
  have parse: "parse_flags [(''archive-depth'', IntFlag), (''dry-run'', BoolFlag)] []
      (reorderFlags [''app'', ''--archive-depth=1'']) = Parsed [(''archive-depth'', IntVal 1)] [''app'']"
    by code_simp
  have home: "otaHomeOrDie prune_env = ''/home''" by code_simp
  have each: "look (fst (snd (run_state (prune_each prune_env ''app'' False [''distribution-0''])
      (demo_four b 6, sc)))) [''home'', ''app'', ''distribution-0''] = None" for b sc
    by code_simp
  have pr: "run_state (call_or_die t (PruneCandidates prune_env ''/home'' ''app'' 1)) (?w, sc) =
      (Inr [''distribution-0''], (demo_four (enc_state demo_record) 6, sc))" for t sc
    by (simp add: call_or_die_def call_res_def cthen_def call_def demo_candidates cmd_done_def)
  have gone: "look (fst (snd ?m)) [''home'', ''app'', ''distribution-0''] = None"
    using each [of "enc_state demo_record"]
    by (simp add: pruneCmd_def parse_or_exit_def parse Let_def int_flag_def bool_flag_def prune_run_def home
        cthen_def [of "call_or_die _ _"] pr del: prune_each.simps)
  then have "\<not> same_files ?w (fst (snd ?m))"
    using same_files_look [of ?w "fst (snd ?m)" "[''home'', ''app'', ''distribution-0'']"]
    by (auto simp: demo_four_def look_def node_at_def)
  then have p: "pruned prune_env ''app'' 1 ?w (fst (snd ?m))"
    using prune_spares_the_installation [OF run] by (simp add: parse bool_flag_def int_flag_def)
  let ?d = "run_state (pruneCmd prune_env [''--dry-run=1'', ''app'']) (?w, \<lparr> sc_out = [], sc_err = [] \<rparr>)"
  have run_d: "?d = (fst ?d, (fst (snd ?d), snd (snd ?d)))" by simp
  have "parse_flags [(''archive-depth'', IntFlag), (''dry-run'', BoolFlag)] []
      (reorderFlags [''--dry-run=1'', ''app'']) = Parsed [(''dry-run'', BoolVal True)] [''app'']"
    by code_simp
  then have "quiet ?w (fst (snd ?d))"
    using prune_spares_the_installation [OF run_d] by (simp add: bool_flag_def)
  with gone p show ?thesis by (simp only: Let_def)
qed

end
