(* ===== verification/Shared.thy ===== *)
theory Shared
  imports Install_Examples
begin

section \<open>client/cmd/libota-shared: the C interface\<close>

text \<open>
  Models \<^verbatim>\<open>client/cmd/libota-shared/main.go\<close>: the five exported functions over the library, on a
  state of the world and the text of the last error, and the decoding of the configuration. A C
  string is a string, or \<open>None\<close> for \<^verbatim>\<open>NULL\<close>; a result \<open>None\<close> is a panic, which ends the process that
  loaded the library. \<^verbatim>\<open>json.Unmarshal\<close> goes on after a value of the wrong type and leaves that field
  as it was, so the decoders here are total (where a key is repeated, an element of the wrong type
  keeps the one decoded before). The functions hold their lock for one step of the model each.
\<close>

subsection \<open>JSON numbers as float64\<close>

text \<open>The quotient of two positive integers, rounded once: the low bit tells that something was cut.\<close>

definition f_quot :: "int \<Rightarrow> int \<Rightarrow> float64" where
  "f_quot a b =
     (let k = 64 + bit_size b; n = a * 2 ^ k; q = n div b in
      f_round (2 * q + (if n mod b = 0 then 0 else 1), - int k - 1))"

definition signed_digits :: "string \<Rightarrow> int" where
  "signed_digits s =
     (if s \<noteq> [] \<and> hd s = CHR ''-'' then - num_of_digits (tl s)
      else if s \<noteq> [] \<and> hd s = CHR ''+'' then num_of_digits (tl s) else num_of_digits s)"

text \<open>\<^verbatim>\<open>[-]digits[.digits][e[sign]digits]\<close>; \<open>None\<close> when the number is beyond the range of \<^verbatim>\<open>float64\<close>.\<close>

definition f_of_literal :: "string \<Rightarrow> float64 option" where
  "f_of_literal s =
     (let neg = (s \<noteq> [] \<and> hd s = CHR ''-''); t = (if neg then tl s else s);
          mant = takeWhile (\<lambda>c. c \<notin> set ''eE'') t; ex = dropWhile (\<lambda>c. c \<notin> set ''eE'') t;
          whole = takeWhile digit mant; frac = tl (dropWhile digit mant);
          a = num_of_digits (whole @ frac);
          e = (if ex = [] then 0 else signed_digits (tl ex)) - int (length frac);
          x = (if 0 \<le> e then f_round (a * 10 ^ nat e, 0) else f_quot a (10 ^ nat (- e))) in
      if 2 ^ 1024 \<le> fst x * 2 ^ nat (snd x) then None
      else Some (if neg then (- fst x, snd x) else x))"

lemma f_of_literal_0_7: "f_of_literal ''0.7'' = Some f_0_7 \<and> f_of_literal ''7e-1'' = Some f_0_7"
  by code_simp


subsection \<open>The configuration\<close>

definition kept :: "'a option \<Rightarrow> 'a \<Rightarrow> 'a" where
  "kept new old = (case new of Some x \<Rightarrow> x | None \<Rightarrow> old)"

fun strings_over :: "json list \<Rightarrow> string list \<Rightarrow> string list" where
  "strings_over [] old = []"
| "strings_over (v # vs) old =
     kept (dec_string v (if old = [] then [] else hd old)) (if old = [] then [] else hd old) #
     strings_over vs (if old = [] then [] else tl old)"

fun dec_keys :: "json \<Rightarrow> string list \<Rightarrow> string list" where
  "dec_keys (JArr vs) old = strings_over vs old"
| "dec_keys JNull old = []"
| "dec_keys _ old = old"

fun dec_float :: "json \<Rightarrow> float64 \<Rightarrow> float64 option" where
  "dec_float (JNum n) old = f_of_literal n"
| "dec_float _ old = None"

definition dec_config_field :: "string \<Rightarrow> json \<Rightarrow> config \<Rightarrow> config" where
  "dec_config_field k v c =
     (if key_is k ''ServerURL'' then c\<lparr>cf_ServerURL := kept (dec_string v (cf_ServerURL c)) (cf_ServerURL c)\<rparr>
      else if key_is k ''OTAHome'' then c\<lparr>cf_OTAHome := kept (dec_string v (cf_OTAHome c)) (cf_OTAHome c)\<rparr>
      else if key_is k ''TrustedPubKeys'' then c\<lparr>cf_TrustedPubKeys := dec_keys v (cf_TrustedPubKeys c)\<rparr>
      else if key_is k ''Timeout'' then c\<lparr>cf_Timeout := kept (dec_int v (cf_Timeout c)) (cf_Timeout c)\<rparr>
      else if key_is k ''FallbackRatio''
      then c\<lparr>cf_FallbackRatio := kept (dec_float v (cf_FallbackRatio c)) (cf_FallbackRatio c)\<rparr>
      else if key_is k ''InstallToken'' then c\<lparr>cf_InstallToken := kept (dec_string v (cf_InstallToken c)) (cf_InstallToken c)\<rparr>
      else if key_is k ''Hwinfo'' then c\<lparr>cf_Hwinfo := kept (dec_string v (cf_Hwinfo c)) (cf_Hwinfo c)\<rparr>
      else if key_is k ''Kind'' then c\<lparr>cf_Kind := kept (dec_string v (cf_Kind c)) (cf_Kind c)\<rparr>
      else c)"

definition GoString :: "string option \<Rightarrow> string" where
  "GoString s = (case s of None \<Rightarrow> [] | Some t \<Rightarrow> t)"

definition decodeCfg :: "string option \<Rightarrow> config" where
  "decodeCfg s =
     (case s of
        None \<Rightarrow> zero_config
      | Some t \<Rightarrow> (case unmarshal t of
          Some (JObj kvs) \<Rightarrow> foldl (\<lambda>c (k, v). dec_config_field k v c) zero_config kvs
        | _ \<Rightarrow> zero_config))"


subsection \<open>The exported functions\<close>

type_synonym 'a cabi = "(world \<times> string, 'a) state"

definition setLastError :: "goerr option \<Rightarrow> unit cabi" where
  "setLastError e = State (\<lambda>(w, last). ((), (w, case e of None \<Rightarrow> [] | Some x \<Rightarrow> err_text x)))"

definition ota_last_error :: "string cabi" where
  "ota_last_error = State (\<lambda>(w, last). (last, (w, last)))"

definition ota_version :: "string cabi" where
  "ota_version = State_Monad.return Version_libota"

definition in_library :: "'a act \<Rightarrow> 'a cabi" where
  "in_library m = State (\<lambda>(w, last). case run_state m w of (r, w') \<Rightarrow> (r, (w', last)))"

text \<open>0 or -1, with the error kept.\<close>

definition c_result :: "'a res \<Rightarrow> int option cabi" where
  "c_result r =
     (case r of
        Inl e \<Rightarrow>
          if is_panic e then State_Monad.return None
          else do { setLastError (Some e); State_Monad.return (Some (- 1)) }
      | Inr _ \<Rightarrow> do { setLastError None; State_Monad.return (Some 0) })"


definition ota_upgrade :: "env \<Rightarrow> string option \<Rightarrow> string option \<Rightarrow> string option \<Rightarrow> int option cabi" where
  "ota_upgrade env cfgJSON name version = do {
     r \<leftarrow> in_library (Upgrade env (decodeCfg cfgJSON) (GoString name) (GoString version));
     c_result r }"

definition ota_revert :: "env \<Rightarrow> string option \<Rightarrow> string option \<Rightarrow> int option cabi" where
  "ota_revert env cfgJSON name = do {
     r \<leftarrow> in_library (Revert env (decodeCfg cfgJSON) (GoString name));
     c_result r }"


subsection \<open>What the decoding loses\<close>










end
