(* ===== verification/Go_Slices.thy ===== *)
theory Go_Slices
  imports Prelude "HOL-Library.While_Combinator"
begin

section \<open>Slices and loops that may panic\<close>

text \<open>
  A small model of imperative Go code over slices: a run returns a value, ends with an error or
  a panic, or does not end (\<open>None\<close>). Indices are Go's \<^verbatim>\<open>int\<close>, and reading or writing outside a
  slice panics. \<open>loop b c s\<close> is \<^verbatim>\<open>for b { c }\<close> on the variables \<open>s\<close>. \<open>returns m Q\<close> says that the run
  \<open>m\<close> returns a value with \<open>Q\<close>: that it ends, without a panic.
\<close>

subsection \<open>Runs\<close>

type_synonym 'a run = "'a res option"

definition gives :: "'a \<Rightarrow> 'a run" where
  "gives x = Some (Inr x)"

definition stops :: "goerr \<Rightarrow> 'a run" where
  "stops e = Some (Inl e)"

definition after :: "'a run \<Rightarrow> ('a \<Rightarrow> 'b run) \<Rightarrow> 'b run" where
  "after m f = (case m of None \<Rightarrow> None | Some (Inl e) \<Rightarrow> Some (Inl e) | Some (Inr x) \<Rightarrow> f x)"

definition lift_res :: "'a res \<Rightarrow> 'a run" where
  "lift_res r = Some r"

definition going :: "('s \<Rightarrow> bool) \<Rightarrow> 's run \<Rightarrow> bool" where
  "going b r = (case r of Some (Inr s) \<Rightarrow> b s | _ \<Rightarrow> False)"

definition loop :: "('s \<Rightarrow> bool) \<Rightarrow> ('s \<Rightarrow> 's run) \<Rightarrow> 's \<Rightarrow> 's run" where
  "loop b c s =
     (case while_option (going b) (\<lambda>r. after r c) (gives s) of None \<Rightarrow> None | Some r \<Rightarrow> r)"

lemma after_cong [fundef_cong]:
  "m = m' \<Longrightarrow> (\<And>x. m' = gives x \<Longrightarrow> f x = f' x) \<Longrightarrow> after m f = after m' f'"
  by (auto simp: after_def gives_def split: option.split sum.split)

lemma after_gives [simp]: "after (gives x) f = f x"
  by (simp add: after_def gives_def)

lemma after_stops [simp]: "after (stops e) f = stops e"
  by (simp add: after_def stops_def)

lemma gives_eq [simp]: "gives x = gives y \<longleftrightarrow> x = y" "gives x \<noteq> stops e" "stops e \<noteq> gives x"
  "gives x = Some (Inr y) \<longleftrightarrow> x = y"
  by (auto simp: gives_def stops_def)

lemma after_eq_gives: "after m f = gives y \<longleftrightarrow> (\<exists>x. m = gives x \<and> f x = gives y)"
  by (auto simp: after_def gives_def split: option.split sum.split)


subsection \<open>Total correctness\<close>

definition returns :: "'a run \<Rightarrow> ('a \<Rightarrow> bool) \<Rightarrow> bool" where
  "returns m Q \<longleftrightarrow> (\<exists>x. m = gives x \<and> Q x)"

lemma returns_gives [simp]: "returns (gives x) Q = Q x"
  by (simp add: returns_def)

lemma returns_stops [simp]: "\<not> returns (stops e) Q"
  by (simp add: returns_def)

lemma returns_after [simp]: "returns (after m f) Q \<longleftrightarrow> returns m (\<lambda>x. returns (f x) Q)"
  by (auto simp: returns_def after_eq_gives)

lemma returns_lift_res [simp]: "returns (lift_res r) Q \<longleftrightarrow> (\<exists>x. r = Inr x \<and> Q x)"
  by (auto simp: returns_def lift_res_def gives_def)

lemma returns_mono: "returns m Q \<Longrightarrow> (\<And>x. Q x \<Longrightarrow> Q' x) \<Longrightarrow> returns m Q'"
  by (auto simp: returns_def)

lemma returns_afterI: "returns m Q \<Longrightarrow> (\<And>x. Q x \<Longrightarrow> returns (f x) Q') \<Longrightarrow> returns (after m f) Q'"
  by (auto simp: returns_def)

lemma returns_conj: "returns m P \<Longrightarrow> returns m Q \<Longrightarrow> returns m (\<lambda>x. P x \<and> Q x)"
  by (auto simp: returns_def)

lemma loop_unfold: "loop b c s = (if b s then after (c s) (loop b c) else gives s)"
proof (cases "b s")
  case True
  have w: "while_option (going b) (\<lambda>r. after r c) (gives s) = while_option (going b) (\<lambda>r. after r c) (c s)"
    using True by (subst while_option_unfold) (simp add: going_def gives_def, simp add: after_def)
  have l: "loop b c s = (case while_option (going b) (\<lambda>r. after r c) (c s) of None \<Rightarrow> None | Some r \<Rightarrow> r)"
    by (simp add: loop_def w)
  show ?thesis
  proof (cases "\<exists>x. c s = gives x")
    case True
    then show ?thesis using \<open>b s\<close> by (auto simp: l) (simp add: loop_def)
  next
    case False
    then have "\<not> going b (c s)" and "after (c s) (loop b c) = c s"
      by (auto simp: going_def after_def gives_def split: option.splits sum.splits)
    then show ?thesis using \<open>b s\<close> by (simp add: l, subst while_option_unfold) simp
  qed
next
  case False
  then show ?thesis by (simp add: loop_def, subst while_option_unfold) (simp add: going_def gives_def)
qed

text \<open>A loop with an invariant and a measure ends, and with the invariant.\<close>

lemma loop_returns:
  assumes "I s" and "\<And>s. I s \<Longrightarrow> b s \<Longrightarrow> returns (c s) (\<lambda>s'. I s' \<and> f s' < (f s :: nat))"
    and "\<And>s. I s \<Longrightarrow> \<not> b s \<Longrightarrow> Q s"
  shows "returns (loop b c s) Q"
  using assms(1)
proof (induction "f s" arbitrary: s rule: less_induct)
  case less
  show ?case
  proof (cases "b s")
    case False
    then show ?thesis using less assms(3) by (subst loop_unfold) simp
  next
    case True
    have "returns (c s) (\<lambda>s'. I s' \<and> f s' < f s)" by (rule assms(2) [OF less(2) True])
    then show ?thesis
      using True less(1) by (subst loop_unfold) (auto elim: returns_mono)
  qed
qed

text \<open>What is known of a loop that has ended, whatever made it end.\<close>

lemma loop_gives:
  assumes "loop b c s = gives t" and "I s" and "\<And>s s'. I s \<Longrightarrow> b s \<Longrightarrow> c s = gives s' \<Longrightarrow> I s'"
  shows "I t \<and> \<not> b t"
proof -
  obtain r where r: "while_option (going b) (\<lambda>r. after r c) (gives s) = Some r" "r = gives t"
    using assms(1) by (auto simp: loop_def gives_def split: option.splits)
  let ?P = "\<lambda>r. \<forall>x. r = gives x \<longrightarrow> I x"
  have "?P r"
    by (rule while_option_rule [of ?P, OF _ r(1)])
      (auto simp: going_def after_eq_gives assms(2) split: option.splits sum.splits
        intro: assms(3) simp flip: gives_def)
  moreover have "\<not> going b r" by (rule while_option_stop [OF r(1)])
  ultimately show ?thesis by (simp add: r(2) going_def gives_def)
qed


subsection \<open>Slices\<close>

definition index_panic :: goerr where
  "index_panic = Panicked ''runtime error: index out of range''"

definition get :: "'a list \<Rightarrow> int \<Rightarrow> 'a" where
  "get xs i = xs ! nat i"

definition put :: "'a list \<Rightarrow> int \<Rightarrow> 'a \<Rightarrow> 'a list" where
  "put xs i v = xs[nat i := v]"

definition idx :: "'a list \<Rightarrow> int \<Rightarrow> 'a run" where
  "idx xs i = (if 0 \<le> i \<and> i < int (length xs) then gives (get xs i) else stops index_panic)"

definition upd :: "'a list \<Rightarrow> int \<Rightarrow> 'a \<Rightarrow> 'a list run" where
  "upd xs i v = (if 0 \<le> i \<and> i < int (length xs) then gives (put xs i v) else stops index_panic)"

text \<open>\<^verbatim>\<open>xs[lo:hi]\<close>; the capacity of a slice is taken to be its length.\<close>

definition subslice :: "'a list \<Rightarrow> int \<Rightarrow> int \<Rightarrow> 'a list run" where
  "subslice xs lo hi =
     (if 0 \<le> lo \<and> lo \<le> hi \<and> hi \<le> int (length xs) then gives (take (nat (hi - lo)) (drop (nat lo) xs))
      else stops (Panicked ''runtime error: slice bounds out of range''))"

definition swap :: "'a list \<Rightarrow> int \<Rightarrow> int \<Rightarrow> 'a list run" where
  "swap xs i j = after (idx xs i) (\<lambda>a. after (idx xs j) (\<lambda>b. after (upd xs i b) (\<lambda>ys. upd ys j a)))"

lemma length_put [simp]: "length (put xs i v) = length xs"
  by (simp add: put_def)

lemma get_put:
  "0 \<le> i \<Longrightarrow> i < int (length xs) \<Longrightarrow> 0 \<le> j \<Longrightarrow> get (put xs i v) j = (if j = i then v else get xs j)"
  by (simp add: get_def put_def nth_list_update nat_eq_iff)

lemma returns_idx [simp]: "returns (idx xs i) Q \<longleftrightarrow> 0 \<le> i \<and> i < int (length xs) \<and> Q (get xs i)"
  by (auto simp: idx_def)

lemma returns_upd [simp]: "returns (upd xs i v) Q \<longleftrightarrow> 0 \<le> i \<and> i < int (length xs) \<and> Q (put xs i v)"
  by (auto simp: upd_def)

lemma returns_subslice [simp]:
  "returns (subslice xs lo hi) Q \<longleftrightarrow>
     0 \<le> lo \<and> lo \<le> hi \<and> hi \<le> int (length xs) \<and> Q (take (nat (hi - lo)) (drop (nat lo) xs))"
  by (auto simp: subslice_def)

lemma returns_swap [simp]:
  "returns (swap xs i j) Q \<longleftrightarrow> 0 \<le> i \<and> i < int (length xs) \<and> 0 \<le> j \<and> j < int (length xs) \<and>
     Q (put (put xs i (get xs j)) j (get xs i))"
  by (auto simp: swap_def)

lemma get_swap:
  assumes "0 \<le> i" and "i < int (length xs)" and "0 \<le> j" and "j < int (length xs)" and "0 \<le> k"
  shows "get (put (put xs i (get xs j)) j (get xs i)) k =
    (if k = j then get xs i else if k = i then get xs j else get xs k)"
  using assms by (simp add: get_put)

text \<open>The entries from \<open>s\<close> to before \<open>e\<close> in another order.\<close>

definition shuffled :: "int \<Rightarrow> int \<Rightarrow> 'a list \<Rightarrow> 'a list \<Rightarrow> bool" where
  "shuffled s e xs ys \<longleftrightarrow> length ys = length xs \<and> get ys ` {s..<e} = get xs ` {s..<e} \<and>
     (\<forall>k. 0 \<le> k \<longrightarrow> k \<notin> {s..<e} \<longrightarrow> get ys k = get xs k)"

lemma shuffled_refl [simp]: "shuffled s e xs xs"
  by (simp add: shuffled_def)

lemma shuffled_trans: "shuffled s e xs ys \<Longrightarrow> shuffled s e ys zs \<Longrightarrow> shuffled s e xs zs"
  by (simp add: shuffled_def)

lemma shuffled_length: "shuffled s e xs ys \<Longrightarrow> length ys = length xs"
  by (simp add: shuffled_def)

lemma shuffled_swap:
  assumes "i \<in> {s..<e}" and "j \<in> {s..<e}" and "0 \<le> s" and "e \<le> int (length xs)"
  shows "shuffled s e xs (put (put xs i (get xs j)) j (get xs i))" (is "shuffled s e xs ?ys")
proof -
  have g: "get ?ys k = (if k = j then get xs i else if k = i then get xs j else get xs k)" if "0 \<le> k" for k
    using assms that by (intro get_swap) auto
  have "get ?ys ` {s..<e} = get xs ` {s..<e}"
  proof (intro equalityI subsetI)
    fix y assume "y \<in> get ?ys ` {s..<e}"
    then obtain k where "k \<in> {s..<e}" "y = get ?ys k" by blast
    then show "y \<in> get xs ` {s..<e}" using g [of k] assms by (auto split: if_splits)
  next
    fix y assume "y \<in> get xs ` {s..<e}"
    then obtain k where k: "k \<in> {s..<e}" "y = get xs k" by blast
    let ?m = "if k = j then i else if k = i then j else k"
    have "y = get ?ys ?m" "?m \<in> {s..<e}" using g [of ?m] k assms by auto
    then show "y \<in> get ?ys ` {s..<e}" by blast
  qed
  then show ?thesis
    using g assms by (auto simp: shuffled_def)
qed

lemma shuffled_inj:
  assumes "shuffled s e xs ys" and "inj_on (get xs) {s..<e}"
  shows "inj_on (get ys) {s..<e}"
proof -
  have "card (get ys ` {s..<e}) = card {s..<e}"
    using assms by (simp add: shuffled_def card_image)
  then show ?thesis by (intro eq_card_imp_inj_on) simp_all
qed

end
