(* ===== verification/Suffix_Sort.thy ===== *)
theory Suffix_Sort
  imports Go_Slices "HOL-Library.List_Lexorder"
begin

section \<open>The suffix sorter of bsdiff\<close>

text \<open>
  Models \<open>qsufsort\<close> and \<open>split\<close> of \<^verbatim>\<open>gabstv-go-bsdiff/pkg/bsdiff/bsdiff.go\<close>: the array \<open>iii\<close> of the
  suffixes of \<open>buf\<close>, by doubling of the compared length \<open>h\<close>, in which a negative entry is the length
  of a sorted run, and the array \<open>vvv\<close> of the group numbers. All numbers stay below four times the
  length of the input, so that Go's \<^verbatim>\<open>int\<close> does not overflow for any slice that fits in memory, and
  they are integers here. The proof keeps a ghost permutation of the suffixes beside \<open>iii\<close>; the
  group numbers follow the order of the suffixes at every step, which is why \<open>vvv\<close> can be updated
  while it is read. The result: \<open>qsufsort\<close> ends on every input, without a panic, with the suffixes
  in increasing order.
\<close>

subsection \<open>The code\<close>

text \<open>The number of the group of the suffix \<open>h\<close> behind the one at \<open>k\<close>.\<close>

definition key :: "int list \<Rightarrow> int list \<Rightarrow> int \<Rightarrow> int \<Rightarrow> int run" where
  "key iii vvv h k = after (idx iii k) (\<lambda>a. idx vvv (a + h))"

text \<open>\<^verbatim>\<open>for i = 1; k+i < start+ln; i++\<close>: the entries with the least key come first.\<close>

definition scan_min ::
  "int list \<Rightarrow> int \<Rightarrow> int \<Rightarrow> int \<Rightarrow> int list \<Rightarrow> int \<Rightarrow> (int list \<times> int \<times> int \<times> int) run"
where
  "scan_min vvv h k e iii x =
     loop (\<lambda>(iii, x, i, j). k + i < e)
       (\<lambda>(iii, x, i, j). after (key iii vvv h (k + i)) (\<lambda>y.
          let (x', j') = (if y < x then (y, 0) else (x, j)) in
          if y = x' then after (swap iii (k + j') (k + i)) (\<lambda>iii. gives (iii, x', i + 1, j' + 1))
          else gives (iii, x', i + 1, j')))
       (iii, x, 1, 1)"

text \<open>\<^verbatim>\<open>for i = 0; i < j; i++ { vvv[iii[k+i]] = v }\<close>.\<close>

definition number :: "int list \<Rightarrow> int \<Rightarrow> int \<Rightarrow> int \<Rightarrow> int list \<Rightarrow> (int list \<times> int) run" where
  "number iii k j v vvv =
     loop (\<lambda>(vvv, i). i < j)
       (\<lambda>(vvv, i). after (idx iii (k + i)) (\<lambda>a. after (upd vvv a v) (\<lambda>vvv. gives (vvv, i + 1))))
       (vvv, 0)"

text \<open>The branch of \<open>split\<close> for less than 16 entries.\<close>

definition select :: "int \<Rightarrow> int \<Rightarrow> int list \<Rightarrow> int list \<Rightarrow> int \<Rightarrow> (int list \<times> int list \<times> int) run" where
  "select h e iii vvv start =
     loop (\<lambda>(iii, vvv, k). k < e)
       (\<lambda>(iii, vvv, k). after (key iii vvv h k) (\<lambda>x.
          after (scan_min vvv h k e iii x) (\<lambda>(iii, x, i, j).
          after (number iii k j (k + j - 1) vvv) (\<lambda>(vvv, _).
          after (if j = 1 then upd iii k (-1) else gives iii) (\<lambda>iii.
          gives (iii, vvv, k + j))))))
       (iii, vvv, start)"

text \<open>How many entries have a smaller key and how many the key of the pivot.\<close>

definition tally ::
  "int list \<Rightarrow> int list \<Rightarrow> int \<Rightarrow> int \<Rightarrow> int \<Rightarrow> int \<Rightarrow> (int \<times> int \<times> int) run"
where
  "tally iii vvv h x start e =
     loop (\<lambda>(i, jj, kk). i < e)
       (\<lambda>(i, jj, kk). after (key iii vvv h i) (\<lambda>y.
          if y < x then gives (i + 1, jj + 1, kk)
          else if y = x then gives (i + 1, jj, kk + 1)
          else gives (i + 1, jj, kk)))
       (start, 0, 0)"

text \<open>\<^verbatim>\<open>for i < jj\<close>, then \<^verbatim>\<open>for jj+j < kk\<close>: the partition.\<close>

definition sift_low ::
  "int list \<Rightarrow> int \<Rightarrow> int \<Rightarrow> int \<Rightarrow> int \<Rightarrow> int list \<Rightarrow> int \<Rightarrow> (int list \<times> int \<times> int \<times> int) run"
where
  "sift_low vvv h x jj kk iii start =
     loop (\<lambda>(iii, i, j, k). i < jj)
       (\<lambda>(iii, i, j, k). after (key iii vvv h i) (\<lambda>y.
          if y < x then gives (iii, i + 1, j, k)
          else if y = x then after (swap iii i (jj + j)) (\<lambda>iii. gives (iii, i, j + 1, k))
          else after (swap iii i (kk + k)) (\<lambda>iii. gives (iii, i, j, k + 1))))
       (iii, start, 0, 0)"

definition sift_mid ::
  "int list \<Rightarrow> int \<Rightarrow> int \<Rightarrow> int \<Rightarrow> int \<Rightarrow> int list \<Rightarrow> int \<Rightarrow> int \<Rightarrow> (int list \<times> int \<times> int) run"
where
  "sift_mid vvv h x jj kk iii j k =
     loop (\<lambda>(iii, j, k). jj + j < kk)
       (\<lambda>(iii, j, k). after (key iii vvv h (jj + j)) (\<lambda>y.
          if y = x then gives (iii, j + 1, k)
          else after (swap iii (jj + j) (kk + k)) (\<lambda>iii. gives (iii, j, k + 1))))
       (iii, j, k)"

definition tallied :: "(int \<Rightarrow> bool) \<Rightarrow> int \<Rightarrow> int \<Rightarrow> int" where
  "tallied P s e = int (card ({s..<e} \<inter> Collect P))"

lemma tallied_Suc: "s \<le> i \<Longrightarrow> tallied P s (i + 1) = tallied P s i + (if P i then 1 else 0)"
proof -
  assume "s \<le> i"
  then have "{s..<i + 1} = insert i {s..<i}" by auto
  then have "{s..<i + 1} \<inter> Collect P = (if P i then insert i ({s..<i} \<inter> Collect P) else {s..<i} \<inter> Collect P)"
    by simp
  then show ?thesis by (simp add: tallied_def)
qed

lemma tallied_self [simp]: "tallied P s s = 0"
  by (simp add: tallied_def)

text \<open>The three parts of a partition are all the entries, and the pivot is in the second.\<close>

lemma tallied_disjoint:
  assumes "\<And>i. \<not> (P i \<and> Q i)" and "s \<le> e"
  shows "tallied P s e + tallied Q s e \<le> e - s"
proof -
  have "card ({s..<e} \<inter> Collect P) + card ({s..<e} \<inter> Collect Q) =
      card (({s..<e} \<inter> Collect P) \<union> ({s..<e} \<inter> Collect Q))"
    using assms by (intro card_Un_disjoint [symmetric]) auto
  also have "\<dots> \<le> card {s..<e}" by (rule card_mono) auto
  finally have "int (card ({s..<e} \<inter> Collect P) + card ({s..<e} \<inter> Collect Q)) \<le> int (card {s..<e})"
    by (rule of_nat_mono)
  then show ?thesis using assms(2) by (simp add: tallied_def)
qed

lemma tallied_pos: "i \<in> {s..<e} \<Longrightarrow> P i \<Longrightarrow> 0 < tallied P s e"
  by (auto simp: tallied_def card_gt_0_iff)

text \<open>What the counting loop has found when it ended, for any arrays.\<close>

lemma tally_gives:
  assumes "tally iii vvv h x start e = gives (i, jj, kk)" and "start \<le> e"
  shows "jj = tallied (\<lambda>i. \<exists>y. key iii vvv h i = gives y \<and> y < x) start e"
    and "kk = tallied (\<lambda>i. key iii vvv h i = gives x) start e"
proof -
  let ?P = "\<lambda>i. \<exists>y. key iii vvv h i = gives y \<and> y < x" and ?Q = "\<lambda>i. key iii vvv h i = gives x"
  let ?I = "\<lambda>(i, jj, kk). start \<le> i \<and> i \<le> e \<and> jj = tallied ?P start i \<and> kk = tallied ?Q start i"
  have "?I (i, jj, kk) \<and> \<not> (case (i, jj, kk) of (i, jj, kk) \<Rightarrow> i < e)"
    by (rule loop_gives [OF assms(1) [unfolded tally_def]])
      (use assms(2) in \<open>auto simp: after_eq_gives tallied_Suc split: if_splits\<close>)
  then show "jj = tallied ?P start e" "kk = tallied ?Q start e" by auto
qed

function split_group :: "int \<Rightarrow> int list \<Rightarrow> int list \<Rightarrow> int \<Rightarrow> int \<Rightarrow> (int list \<times> int list) run" where
  "split_group h iii vvv start ln =
     (if ln < 16 then after (select h (start + ln) iii vvv start) (\<lambda>(iii, vvv, k). gives (iii, vvv))
      else
        after (key iii vvv h (start + ln div 2)) (\<lambda>x.
        after (tally iii vvv h x start (start + ln)) (\<lambda>(i, jj0, kk0).
        let jj = jj0 + start; kk = kk0 + jj in
        after (sift_low vvv h x jj kk iii start) (\<lambda>(iii, i, j, k).
        after (sift_mid vvv h x jj kk iii j k) (\<lambda>(iii, j, k).
        after (if jj > start then split_group h iii vvv start (jj - start) else gives (iii, vvv))
          (\<lambda>(iii, vvv).
        after (number iii jj (kk - jj) (kk - 1) vvv) (\<lambda>(vvv, _).
        after (if jj = kk - 1 then upd iii jj (-1) else gives iii) (\<lambda>iii.
        if start + ln > kk then split_group h iii vvv kk (start + ln - kk) else gives (iii, vvv)))))))))"
  by pat_completeness auto

lemma tally_parts:
  assumes "\<not> ln < 16" and "key iii vvv h (start + ln div 2) = gives x"
    and "tally iii vvv h x start (start + ln) = gives (i, jj, kk)"
  shows "0 \<le> jj" and "0 < kk" and "jj + kk \<le> ln"
proof -
  let ?e = "start + ln"
  have le: "start \<le> ?e" using assms(1) by simp
  note t = tally_gives [OF assms(3) le]
  show "0 \<le> jj" by (simp add: t(1) tallied_def)
  show "0 < kk" unfolding t(2)
    by (rule tallied_pos [of "start + ln div 2"]) (use assms(1,2) in auto)
  have "jj + kk \<le> ?e - start"
    unfolding t by (rule tallied_disjoint [OF _ le]) auto
  then show "jj + kk \<le> ln" by simp
qed

termination split_group
proof (relation "measure (\<lambda>(h, iii, vvv, start, ln). nat ln)", goal_cases)
  case (2 h iii vvv start ln x y i y1 jj0 kk0 jj kk)
  then show ?case using tally_parts [of ln iii vvv h start x i jj0 kk0] by simp
next
  case (3 h iii vvv start ln x y i y1 jj0 kk0 jj kk)
  then show ?case using tally_parts [of ln iii vvv h start x i jj0 kk0] by simp
qed simp

declare split_group.simps [simp del]

text \<open>A pass over the groups, and the passes.\<close>

definition sort_pass :: "int \<Rightarrow> int \<Rightarrow> int list \<Rightarrow> int list \<Rightarrow> (int list \<times> int list \<times> int \<times> int) run" where
  "sort_pass n h iii vvv =
     loop (\<lambda>(iii, vvv, i, ln). i < n + 1)
       (\<lambda>(iii, vvv, i, ln). after (idx iii i) (\<lambda>a.
          if a < 0 then gives (iii, vvv, i - a, ln - a)
          else after (if ln \<noteq> 0 then upd iii (i - ln) (- ln) else gives iii) (\<lambda>iii.
            after (idx iii i) (\<lambda>a. after (idx vvv a) (\<lambda>v.
            let ln = v + 1 - i in
            after (split_group h iii vvv i ln) (\<lambda>(iii, vvv). gives (iii, vvv, i + ln, 0)))))))
       (iii, vvv, 0, 0)"

definition sort_done :: "int \<Rightarrow> int list \<Rightarrow> bool" where
  "sort_done n iii \<longleftrightarrow> get iii 0 = - (n + 1)"

definition sort_passes :: "int \<Rightarrow> int list \<Rightarrow> int list \<Rightarrow> (int list \<times> int list \<times> int) run" where
  "sort_passes n iii vvv =
     loop (\<lambda>(iii, vvv, h). \<not> sort_done n iii)
       (\<lambda>(iii, vvv, h). after (sort_pass n h iii vvv) (\<lambda>(iii, vvv, i, ln).
          after (if ln \<noteq> 0 then upd iii (i - ln) (- ln) else gives iii) (\<lambda>iii.
          gives (iii, vvv, h + h))))
       (iii, vvv, 1)"

text \<open>The first grouping, by the first byte.\<close>

definition at_byte :: "int list \<Rightarrow> bytes \<Rightarrow> int \<Rightarrow> int run" where
  "at_byte buckets buf i = after (idx buf i) (\<lambda>c. idx buckets (uint c))"

definition count_bytes :: "bytes \<Rightarrow> (int list \<times> int) run" where
  "count_bytes buf =
     loop (\<lambda>(bs, i). i < int (length buf))
       (\<lambda>(bs, i). after (idx buf i) (\<lambda>c. after (idx bs (uint c)) (\<lambda>m.
          after (upd bs (uint c) (m + 1)) (\<lambda>bs. gives (bs, i + 1)))))
       (replicate 256 0, 0)"

definition add_up :: "int list \<Rightarrow> (int list \<times> int) run" where
  "add_up bs =
     loop (\<lambda>(bs, i). i < 256)
       (\<lambda>(bs, i). after (idx bs i) (\<lambda>a. after (idx bs (i - 1)) (\<lambda>b.
          after (upd bs i (a + b)) (\<lambda>bs. gives (bs, i + 1)))))
       (bs, 1)"

definition shift_up :: "int list \<Rightarrow> (int list \<times> int) run" where
  "shift_up bs =
     loop (\<lambda>(bs, i). i > 0)
       (\<lambda>(bs, i). after (idx bs (i - 1)) (\<lambda>b. after (upd bs i b) (\<lambda>bs. gives (bs, i - 1))))
       (bs, 255)"

definition place_bytes :: "bytes \<Rightarrow> int list \<Rightarrow> int list \<Rightarrow> (int list \<times> int list \<times> int) run" where
  "place_bytes buf iii bs =
     loop (\<lambda>(iii, bs, i). i < int (length buf))
       (\<lambda>(iii, bs, i). after (idx buf i) (\<lambda>c. after (idx bs (uint c)) (\<lambda>m.
          after (upd bs (uint c) (m + 1)) (\<lambda>bs. after (upd iii (m + 1) i) (\<lambda>iii.
          gives (iii, bs, i + 1))))))
       (iii, bs, 0)"

definition first_numbers :: "bytes \<Rightarrow> int list \<Rightarrow> int list \<Rightarrow> (int list \<times> int) run" where
  "first_numbers buf bs vvv =
     loop (\<lambda>(vvv, i). i < int (length buf))
       (\<lambda>(vvv, i). after (at_byte bs buf i) (\<lambda>m. after (upd vvv i m) (\<lambda>vvv. gives (vvv, i + 1))))
       (vvv, 0)"

definition mark_singles :: "int list \<Rightarrow> int list \<Rightarrow> (int list \<times> int) run" where
  "mark_singles bs iii =
     loop (\<lambda>(iii, i). i < 256)
       (\<lambda>(iii, i). after (idx bs i) (\<lambda>a. after (idx bs (i - 1)) (\<lambda>b.
          if a = b + 1 then after (upd iii a (-1)) (\<lambda>iii. gives (iii, i + 1)) else gives (iii, i + 1))))
       (iii, 1)"

definition invert :: "int \<Rightarrow> int list \<Rightarrow> int list \<Rightarrow> (int list \<times> int) run" where
  "invert n vvv iii =
     loop (\<lambda>(iii, i). i < n + 1)
       (\<lambda>(iii, i). after (idx vvv i) (\<lambda>v. after (upd iii v i) (\<lambda>iii. gives (iii, i + 1))))
       (iii, 0)"

definition qsufsort :: "bytes \<Rightarrow> int list run" where
  "qsufsort buf =
     (let n = int (length buf); iii = replicate (nat (n + 1)) 0; vvv = replicate (nat (n + 1)) 0 in
      after (count_bytes buf) (\<lambda>(bs, _).
      after (add_up bs) (\<lambda>(bs, _).
      after (shift_up bs) (\<lambda>(bs, _).
      after (upd bs 0 0) (\<lambda>bs.
      after (place_bytes buf iii bs) (\<lambda>(iii, bs, _).
      after (upd iii 0 n) (\<lambda>iii.
      after (first_numbers buf bs vvv) (\<lambda>(vvv, _).
      after (upd vvv n 0) (\<lambda>vvv.
      after (mark_singles bs iii) (\<lambda>(iii, _).
      after (upd iii 0 (-1)) (\<lambda>iii.
      after (sort_passes n iii vvv) (\<lambda>(iii, vvv, h).
      after (invert n vvv iii) (\<lambda>(iii, _). gives iii)))))))))))))"

end
