(* ===== verification/Suffix_Order.thy ===== *)
theory Suffix_Order
  imports Suffix_Sort
begin

section \<open>Groups of suffixes\<close>

text \<open>
  The ghost state of the suffix sorter and what a \<open>split\<close> of one group keeps of it: \<open>sg k\<close> is the
  suffix at rank \<open>k\<close>, \<open>get vvv (sg k)\<close> the last rank of its group.
\<close>

definition suf :: "bytes \<Rightarrow> int \<Rightarrow> bytes" where
  "suf buf p = drop (nat p) buf"

definition alike :: "bytes \<Rightarrow> int \<Rightarrow> int \<Rightarrow> int \<Rightarrow> bool" where
  "alike buf h p q \<longleftrightarrow> take (nat h) (suf buf p) = take (nat h) (suf buf q)"

abbreviation ranks :: "bytes \<Rightarrow> int set" where
  "ranks buf \<equiv> {0..int (length buf)}"

lemma append_less_iff: "xs @ ys < xs @ zs \<longleftrightarrow> ys < (zs :: bytes)"
  by (induction xs) simp_all

lemma suf_split: "0 \<le> p \<Longrightarrow> 0 \<le> h \<Longrightarrow> suf buf p = take (nat h) (suf buf p) @ suf buf (p + h)"
  by (simp add: suf_def nat_add_distrib add.commute flip: drop_drop)

lemma alike_less:
  assumes "alike buf h p q" and "suf buf (p + h) < suf buf (q + h)" and "0 \<le> p" and "0 \<le> q" and "0 \<le> h"
  shows "suf buf p < suf buf q"
  using assms suf_split [of p h buf] suf_split [of q h buf] append_less_iff unfolding alike_def by metis

lemma alike_double:
  assumes "alike buf h p q" and "alike buf h (p + h) (q + h)" and "0 \<le> p" and "0 \<le> q" and "0 \<le> h"
  shows "alike buf (h + h) p q"
proof -
  have "take (nat (h + h)) (suf buf r) = take (nat h) (suf buf r) @ take (nat h) (suf buf (r + h))" if "0 \<le> r" for r
  proof -
    have "take (nat (h + h)) xs = take (nat h) xs @ take (nat h) (drop (nat h) xs)" for xs :: bytes
    proof -
      have "nat (h + h) = nat h + nat h" using assms(5) by simp
      then show ?thesis by (simp only: take_add)
    qed
    then show ?thesis using that assms(5) by (simp add: suf_def nat_add_distrib add.commute)
  qed
  then show ?thesis using assms by (simp add: alike_def)
qed

lemma alike_room:
  assumes "alike buf h p q" and "p \<noteq> q" and "p \<in> ranks buf" and "q \<in> ranks buf" and "0 \<le> h"
  shows "p + h \<le> int (length buf)"
proof -
  have "min (length buf - nat p) (nat h) = min (length buf - nat q) (nat h)"
    using assms(1) unfolding alike_def suf_def by (metis length_take length_drop min.commute)
  then show ?thesis using assms(2-5) by (auto simp: min_def split: if_splits)
qed

lemma alike_refl [simp]: "alike buf h p p"
  by (simp add: alike_def)

lemma alike_sym: "alike buf h p q \<Longrightarrow> alike buf h q p"
  by (simp add: alike_def)


subsection \<open>The invariant of the arrays\<close>

definition orders :: "bytes \<Rightarrow> int list \<Rightarrow> bool" where
  "orders buf vvv \<longleftrightarrow>
     (\<forall>p \<in> ranks buf. \<forall>q \<in> ranks buf. get vvv p < get vvv q \<longrightarrow> suf buf p < suf buf q)"

definition groups_alike :: "bytes \<Rightarrow> int \<Rightarrow> int list \<Rightarrow> bool" where
  "groups_alike buf h vvv \<longleftrightarrow>
     (\<forall>p \<in> ranks buf. \<forall>q \<in> ranks buf. get vvv p = get vvv q \<longrightarrow> alike buf h p q)"

definition sane :: "bytes \<Rightarrow> int \<Rightarrow> int list \<Rightarrow> int list \<Rightarrow> (int \<Rightarrow> int) \<Rightarrow> bool" where
  "sane buf h iii vvv sg \<longleftrightarrow> 0 < h \<and> int (length iii) = int (length buf) + 1 \<and>
     int (length vvv) = int (length buf) + 1 \<and>
     bij_betw sg (ranks buf) (ranks buf) \<and> orders buf vvv \<and> groups_alike buf h vvv"

text \<open>A part \<open>s..<e\<close> of a group that \<open>split\<close> is about to sort; \<open>g\<close> is the number of the group.\<close>

definition ready :: "bytes \<Rightarrow> int \<Rightarrow> int \<Rightarrow> int \<Rightarrow> int \<Rightarrow> int list \<Rightarrow> int list \<Rightarrow> (int \<Rightarrow> int) \<Rightarrow> bool" where
  "ready buf h s e g iii vvv sg \<longleftrightarrow> sane buf h iii vvv sg \<and>
     0 \<le> s \<and> s \<le> e \<and> e \<le> g + 1 \<and> g \<le> int (length buf) \<and>
     (\<forall>k \<in> {s..<e}. get iii k = sg k \<and> get vvv (sg k) = g \<and> sg k + h \<le> int (length buf)) \<and>
     (\<forall>q \<in> ranks buf. get vvv q < s \<or> g \<le> get vvv q) \<and>
     (\<forall>k \<in> {s..<e}. \<forall>q \<in> ranks buf. get vvv q = g \<longrightarrow> q \<notin> sg ` {s..<e} \<longrightarrow> suf buf (sg k) < suf buf q)"

definition group_end :: "int list \<Rightarrow> (int \<Rightarrow> int) \<Rightarrow> int \<Rightarrow> int" where
  "group_end vvv sg k = get vvv (sg k)"

text \<open>The group at rank \<open>k\<close> lies before \<open>e\<close>, and its number is its last rank.\<close>

definition closes :: "int list \<Rightarrow> (int \<Rightarrow> int) \<Rightarrow> int \<Rightarrow> int \<Rightarrow> bool" where
  "closes vvv sg e k \<longleftrightarrow> k \<le> group_end vvv sg k \<and> group_end vvv sg k < e \<and>
     (\<forall>j. k \<le> j \<longrightarrow> j \<le> group_end vvv sg k \<longrightarrow> group_end vvv sg j = group_end vvv sg k)"

lemma closesD:
  assumes "closes vvv sg e k"
  shows "k \<le> group_end vvv sg k" "group_end vvv sg k < e"
    "k \<le> j \<Longrightarrow> j \<le> group_end vvv sg k \<Longrightarrow> group_end vvv sg j = group_end vvv sg k"
  using assms unfolding closes_def by blast+

lemma closes_later: "closes vvv sg m k \<Longrightarrow> m \<le> e \<Longrightarrow> closes vvv sg e k"
  unfolding closes_def by (elim conjE, intro conjI, assumption, erule order_less_le_trans, assumption, assumption)

text \<open>What has become of it: groups of suffixes that agree twice as far.\<close>

definition refined ::
  "bytes \<Rightarrow> int \<Rightarrow> int \<Rightarrow> int \<Rightarrow> int list \<Rightarrow> int list \<Rightarrow> (int \<Rightarrow> int) \<Rightarrow>
   int list \<Rightarrow> int list \<Rightarrow> (int \<Rightarrow> int) \<Rightarrow> bool"
where
  "refined buf h s e iii vvv sg iii' vvv' sg' \<longleftrightarrow> sane buf h iii' vvv' sg' \<and>
     (\<forall>k. k \<notin> {s..<e} \<longrightarrow> sg' k = sg k) \<and> sg' ` {s..<e} = sg ` {s..<e} \<and>
     (\<forall>k. 0 \<le> k \<longrightarrow> k \<notin> {s..<e} \<longrightarrow> get iii' k = get iii k) \<and>
     (\<forall>q \<in> ranks buf. q \<notin> sg ` {s..<e} \<longrightarrow> get vvv' q = get vvv q) \<and>
     (\<forall>k \<in> {s..<e}. closes vvv' sg' e k) \<and>
     (\<forall>k \<in> {s..<e}. get iii' k =
        (if group_end vvv' sg' k = k \<and> (k = s \<or> group_end vvv' sg' (k - 1) = k - 1) then -1 else sg' k)) \<and>
     (\<forall>j \<in> {s..<e}. \<forall>k \<in> {s..<e}. group_end vvv' sg' j = group_end vvv' sg' k \<longrightarrow>
        alike buf (h + h) (sg' j) (sg' k))"

lemma refined_empty:
  assumes "sane buf h iii vvv sg"
  shows "refined buf h s s iii vvv sg iii vvv sg"
  using assms by (simp add: refined_def)

lemma sane_inj:
  assumes "sane buf h iii vvv sg" and "j \<in> ranks buf" and "k \<in> ranks buf" and "sg j = sg k"
  shows "j = k"
  using assms by (auto simp: sane_def bij_betw_def dest: inj_onD)

lemma sane_range: "sane buf h iii vvv sg \<Longrightarrow> k \<in> ranks buf \<Longrightarrow> sg k \<in> ranks buf"
  by (auto simp: sane_def bij_betw_def)

lemma sane_apart:
  assumes "sane buf h iii vvv sg" and "k \<in> ranks buf" and "A \<subseteq> ranks buf" and "k \<notin> A"
  shows "sg k \<notin> sg ` A"
  using assms sane_inj [OF assms(1)] by blast

lemma refinedD:
  assumes "refined buf h s e iii vvv sg iii' vvv' sg'"
  shows "sane buf h iii' vvv' sg'" "k \<notin> {s..<e} \<Longrightarrow> sg' k = sg k" "sg' ` {s..<e} = sg ` {s..<e}"
    "0 \<le> k \<Longrightarrow> k \<notin> {s..<e} \<Longrightarrow> get iii' k = get iii k"
    "q \<in> ranks buf \<Longrightarrow> q \<notin> sg ` {s..<e} \<Longrightarrow> get vvv' q = get vvv q"
    "k \<in> {s..<e} \<Longrightarrow> closes vvv' sg' e k"
    "k \<in> {s..<e} \<Longrightarrow> get iii' k =
        (if group_end vvv' sg' k = k \<and> (k = s \<or> group_end vvv' sg' (k - 1) = k - 1) then -1 else sg' k)"
    "j \<in> {s..<e} \<Longrightarrow> k \<in> {s..<e} \<Longrightarrow> group_end vvv' sg' j = group_end vvv' sg' k \<Longrightarrow>
        alike buf (h + h) (sg' j) (sg' k)"
proof -
  note c = assms [unfolded refined_def]
  note c1 = c [THEN conjunct2] and c2 = c [THEN conjunct2, THEN conjunct2]
    and c3 = c [THEN conjunct2, THEN conjunct2, THEN conjunct2]
    and c4 = c [THEN conjunct2, THEN conjunct2, THEN conjunct2, THEN conjunct2]
    and c5 = c [THEN conjunct2, THEN conjunct2, THEN conjunct2, THEN conjunct2, THEN conjunct2]
    and c6 = c [THEN conjunct2, THEN conjunct2, THEN conjunct2, THEN conjunct2, THEN conjunct2, THEN conjunct2]
  show "sane buf h iii' vvv' sg'" by (rule c [THEN conjunct1])
  show "k \<notin> {s..<e} \<Longrightarrow> sg' k = sg k" using c1 [THEN conjunct1] by blast
  show "sg' ` {s..<e} = sg ` {s..<e}" by (rule c2 [THEN conjunct1])
  show "0 \<le> k \<Longrightarrow> k \<notin> {s..<e} \<Longrightarrow> get iii' k = get iii k" using c3 [THEN conjunct1] by blast
  show "q \<in> ranks buf \<Longrightarrow> q \<notin> sg ` {s..<e} \<Longrightarrow> get vvv' q = get vvv q" using c4 [THEN conjunct1] by blast
  show "k \<in> {s..<e} \<Longrightarrow> closes vvv' sg' e k" using c5 [THEN conjunct1] by blast
  show "k \<in> {s..<e} \<Longrightarrow> get iii' k =
        (if group_end vvv' sg' k = k \<and> (k = s \<or> group_end vvv' sg' (k - 1) = k - 1) then -1 else sg' k)"
    using c6 [THEN conjunct1] by blast
  show "j \<in> {s..<e} \<Longrightarrow> k \<in> {s..<e} \<Longrightarrow> group_end vvv' sg' j = group_end vvv' sg' k \<Longrightarrow>
        alike buf (h + h) (sg' j) (sg' k)"
    using c6 [THEN conjunct2] by blast
qed

lemma refined_trans:
  assumes sane: "sane buf h iii vvv sg"
    and 1: "refined buf h s m iii vvv sg iii1 vvv1 sg1" and 2: "refined buf h m e iii1 vvv1 sg1 iii2 vvv2 sg2"
    and le: "0 \<le> s" "s \<le> m" "m \<le> e" "e \<le> int (length buf) + 1"
  shows "refined buf h s e iii vvv sg iii2 vvv2 sg2"
proof -
  note d1 = refinedD [OF 1] and d2 = refinedD [OF 2]
  note sane1 = d1(1) and sane2 = d2(1)
  have sub: "{s..<m} \<subseteq> ranks buf" "{m..<e} \<subseteq> ranks buf" using le by auto
  have un: "{s..<e} = {s..<m} \<union> {m..<e}" using le by auto
  have sg_lo: "sg2 k = sg1 k" if "k \<in> {s..<m}" for k using d2(2) [of k] that by simp
  have img1: "sg1 ` {m..<e} = sg ` {m..<e}"
    using d1(2) by (intro image_cong) auto
  have "sg2 ` {s..<m} = sg1 ` {s..<m}" using sg_lo by (intro image_cong) auto
  then have img: "sg2 ` {s..<e} = sg ` {s..<e}"
    unfolding un image_Un by (simp only: d1(3) d2(3) img1)
  have keep: "get vvv2 (sg1 k) = get vvv1 (sg1 k)" if "k \<in> {s..<m}" for k
  proof -
    have k: "k \<in> ranks buf" using that sub(1) by blast
    have "sg1 k \<notin> sg1 ` {m..<e}"
      by (rule sane_apart [OF sane1 k sub(2)]) (use that in simp)
    then show ?thesis using d2(5) sane_range [OF sane1 k] by blast
  qed
  have end_lo: "group_end vvv2 sg2 k = group_end vvv1 sg1 k" if "k \<in> {s..<m}" for k
    using that by (simp add: group_end_def sg_lo keep)
  have lo: "closes vvv2 sg2 m k" if k: "k \<in> {s..<m}" for k
  proof -
    note c = closesD [OF d1(6) [OF k]]
    have "group_end vvv2 sg2 j = group_end vvv2 sg2 k" if "k \<le> j" "j \<le> group_end vvv2 sg2 k" for j
      using c(2) c(3) [of j] end_lo [OF k] end_lo [of j] that k by simp
    with c(1,2) end_lo [OF k] show ?thesis unfolding closes_def by simp
  qed
  note lo' = closesD [OF lo]
  have iii: "get iii2 k =
      (if group_end vvv2 sg2 k = k \<and> (k = s \<or> group_end vvv2 sg2 (k - 1) = k - 1) then -1 else sg2 k)"
    if k: "k \<in> {s..<e}" for k
  proof (cases "k < m")
    case True
    then have km: "k \<in> {s..<m}" and "get iii2 k = get iii1 k" using d2(4) [of k] k le by auto
    moreover have "k = s \<or> group_end vvv2 sg2 (k - 1) = group_end vvv1 sg1 (k - 1)"
      using k True end_lo [of "k - 1"] by (cases "k = s") auto
    ultimately show ?thesis
      using d1(7) [OF km] end_lo [OF km] sg_lo [OF km] by auto
  next
    case False
    have "m = s \<or> group_end vvv2 sg2 (m - 1) = m - 1"
      using lo'(1,2) [of "m - 1"] le by (cases "m = s") auto
    moreover have "k \<in> {m..<e}" using False k by simp
    note d2(7) [OF this]
    ultimately show ?thesis using False k le by (cases "k = m") auto
  qed
  have al: "alike buf (h + h) (sg2 j) (sg2 k)"
    if jk: "j \<in> {s..<e}" "k \<in> {s..<e}" "group_end vvv2 sg2 j = group_end vvv2 sg2 k" for j k
  proof -
    consider "j < m" "k < m" | "m \<le> j" "m \<le> k" | "j < m" "m \<le> k" | "m \<le> j" "k < m" by linarith
    then show ?thesis
    proof cases
      case 1
      then have "j \<in> {s..<m}" "k \<in> {s..<m}" using jk by simp_all
      then show ?thesis using d1(8) [of j k] jk(3) end_lo [of j] end_lo [of k] sg_lo [of j] sg_lo [of k] by simp
    next
      case 2
      then show ?thesis using d2(8) [of j k] jk by simp
    next
      case 3
      then show ?thesis using lo'(2) [of j] closesD(1) [OF d2(6) [of k]] jk by simp
    next
      case 4
      then show ?thesis using lo'(2) [of k] closesD(1) [OF d2(6) [of j]] jk by simp
    qed
  qed
  have out: "sg2 k = sg k" if "k \<notin> {s..<e}" for k
    using d1(2) [of k] d2(2) [of k] that le by auto
  have outi: "get iii2 k = get iii k" if "0 \<le> k" "k \<notin> {s..<e}" for k
    using d1(4) [of k] d2(4) [of k] that le by auto
  have outv: "get vvv2 q = get vvv q" if q: "q \<in> ranks buf" "q \<notin> sg ` {s..<e}" for q
  proof -
    have n: "q \<notin> sg ` {s..<m}" "q \<notin> sg1 ` {m..<e}" using q(2) img1 by (simp_all add: un image_Un)
    show ?thesis using d1(5) [OF q(1) n(1)] d2(5) [OF q(1) n(2)] by simp
  qed
  have ends: "closes vvv2 sg2 e k" if "k \<in> {s..<e}" for k
  proof (cases "k < m")
    case True
    then have "closes vvv2 sg2 m k" using lo that by simp
    then show ?thesis using le(3) by (rule closes_later)
  qed (use d2(6) that in simp)
  show ?thesis
    unfolding refined_def by (intro conjI ballI allI impI sane2 out img outi outv iii al ends)
qed


lemma readyD:
  assumes "ready buf h s e g iii vvv sg"
  shows "sane buf h iii vvv sg" "0 \<le> s" "s \<le> e" "e \<le> g + 1" "g \<le> int (length buf)"
    "k \<in> {s..<e} \<Longrightarrow> get iii k = sg k" "k \<in> {s..<e} \<Longrightarrow> get vvv (sg k) = g"
    "k \<in> {s..<e} \<Longrightarrow> sg k + h \<le> int (length buf)"
    "q \<in> ranks buf \<Longrightarrow> get vvv q < s \<or> g \<le> get vvv q"
    "k \<in> {s..<e} \<Longrightarrow> q \<in> ranks buf \<Longrightarrow> get vvv q = g \<Longrightarrow> q \<notin> sg ` {s..<e} \<Longrightarrow> suf buf (sg k) < suf buf q"
    "{s..<e} \<subseteq> ranks buf" "0 < h"
  using assms unfolding ready_def sane_def by (blast, blast, blast, blast, blast, blast, blast, blast, blast, blast, auto)

lemma sane_lengths:
  assumes "sane buf h iii vvv sg"
  shows "int (length iii) = int (length buf) + 1" "int (length vvv) = int (length buf) + 1"
  using assms by (simp_all add: sane_def)

lemma sane_same_groups: "sane buf h iii vvv sg \<Longrightarrow> length iii' = length iii \<Longrightarrow> sane buf h iii' vvv sg"
  by (simp add: sane_def)

subsection \<open>Moving the entries of a group\<close>

definition moved :: "int \<Rightarrow> int \<Rightarrow> int list \<Rightarrow> (int \<Rightarrow> int) \<Rightarrow> int \<Rightarrow> int" where
  "moved s e iii sg k = (if k \<in> {s..<e} then get iii k else sg k)"

lemma moved_image:
  assumes "ready buf h s e g iii vvv sg" and "shuffled s e iii iii'"
  shows "moved s e iii' sg ` {s..<e} = sg ` {s..<e}"
proof -
  have "moved s e iii' sg ` {s..<e} = get iii' ` {s..<e}"
    by (intro image_cong) (simp_all add: moved_def)
  also have "\<dots> = get iii ` {s..<e}" using assms(2) by (simp add: shuffled_def)
  also have "\<dots> = sg ` {s..<e}" using readyD(6) [OF assms(1)] by (intro image_cong) auto
  finally show ?thesis .
qed

lemma ready_moved:
  assumes r: "ready buf h s e g iii vvv sg" and sh: "shuffled s e iii iii'"
  shows "ready buf h s e g iii' vvv (moved s e iii' sg)"
proof -
  let ?m = "moved s e iii' sg"
  note d = readyD [OF r]
  have img: "?m ` {s..<e} = sg ` {s..<e}" by (rule moved_image [OF r sh])
  have "ranks buf = {s..<e} \<union> (ranks buf - {s..<e})" using d(11) by blast
  moreover have "?m ` (ranks buf - {s..<e}) = sg ` (ranks buf - {s..<e})"
    by (intro image_cong) (auto simp: moved_def)
  ultimately have all: "?m ` ranks buf = sg ` ranks buf" using img by (metis image_Un)
  have bij: "bij_betw sg (ranks buf) (ranks buf)" using d(1) by (simp add: sane_def)
  then have "?m ` ranks buf = ranks buf" using all by (simp add: bij_betw_def)
  then have "bij_betw ?m (ranks buf) (ranks buf)"
    by (simp add: bij_betw_def eq_card_imp_inj_on)
  then have sane: "sane buf h iii' vvv ?m"
    using d(1) shuffled_length [OF sh] by (simp add: sane_def)
  have of: "\<exists>j \<in> {s..<e}. ?m k = sg j" if "k \<in> {s..<e}" for k
    using img that by blast
  have "get vvv (?m k) = g \<and> ?m k + h \<le> int (length buf)" if "k \<in> {s..<e}" for k
    using of [OF that] d(7,8) by auto
  moreover have "suf buf (?m k) < suf buf q"
    if "k \<in> {s..<e}" "q \<in> ranks buf" "get vvv q = g" "q \<notin> sg ` {s..<e}" for k q
    using of [OF that(1)] d(10) [OF _ that(2-4)] by auto
  ultimately show ?thesis
    unfolding ready_def img using sane d(2-5,9) by (simp add: moved_def)
qed

lemma refined_moved:
  assumes r: "ready buf h s e g iii vvv sg" and sh: "shuffled s e iii iii'"
    and f: "refined buf h s e iii' vvv (moved s e iii' sg) iii2 vvv2 sg2"
  shows "refined buf h s e iii vvv sg iii2 vvv2 sg2"
proof -
  have "sg2 k = sg k" if "k \<notin> {s..<e}" for k
    using refinedD(2) [OF f that] that by (simp only: moved_def if_False)
  moreover have "get iii2 k = get iii k" if "0 \<le> k" "k \<notin> {s..<e}" for k
    using refinedD(4) [OF f that] sh that by (simp add: shuffled_def)
  moreover have "sg2 ` {s..<e} = sg ` {s..<e}"
    using refinedD(3) [OF f] moved_image [OF r sh] by simp
  moreover have "get vvv2 q = get vvv q" if "q \<in> ranks buf" "q \<notin> sg ` {s..<e}" for q
    using refinedD(5) [OF f that(1)] that(2) by (simp add: moved_image [OF r sh])
  ultimately show ?thesis
    unfolding refined_def by (intro conjI allI ballI impI refinedD(1,6-) [OF f])
qed


subsection \<open>Cutting a group\<close>

lemma ready_next:
  assumes r: "ready buf h s e g iii vvv sg" and f: "refined buf h s m iii vvv sg iii' vvv' sg'"
    and m: "s \<le> m" "m \<le> e"
  shows "ready buf h m e g iii' vvv' sg'"
proof -
  note d = readyD [OF r] and c = refinedD [OF f]
  have un: "{s..<e} = {s..<m} \<union> {m..<e}" using m by auto
  have sg: "sg' k = sg k" if "k \<in> {m..<e}" for k using c(2) [of k] that by simp
  then have img: "sg' ` {m..<e} = sg ` {m..<e}" by (intro image_cong) auto
  have se: "{m..<e} \<subseteq> {s..<e}" using m by auto
  have apart: "sg k \<notin> sg ` {s..<m}" if "k \<in> {m..<e}" for k
    by (rule sane_apart [OF d(1)]) (use that d(11) un in auto)
  have lowered: "get vvv' q < m" if q: "q \<in> sg ` {s..<m}" for q
  proof -
    obtain k where k: "k \<in> {s..<m}" "q = sg' k" using q c(3) by blast
    with closesD(2) [OF c(6) [OF k(1)]] show ?thesis by (simp add: group_end_def)
  qed
  have "get iii' k = sg' k \<and> get vvv' (sg' k) = g \<and> sg' k + h \<le> int (length buf)" if k: "k \<in> {m..<e}" for k
  proof -
    have ks: "k \<in> {s..<e}" "0 \<le> k" "k \<notin> {s..<m}" using k se d(2) m by auto
    then have "sg k \<in> ranks buf" using sane_range [OF d(1)] d(11) by blast
    then show ?thesis
      using c(4) [OF ks(2,3)] c(5) apart [OF k] d(6-8) [OF ks(1)] by (simp add: sg [OF k])
  qed
  moreover have "get vvv' q < m \<or> g \<le> get vvv' q" if "q \<in> ranks buf" for q
    using lowered [of q] c(5) [OF that] d(9) [OF that] m by fastforce
  moreover have "suf buf (sg' k) < suf buf q"
    if k: "k \<in> {m..<e}" and q: "q \<in> ranks buf" "get vvv' q = g" "q \<notin> sg' ` {m..<e}" for k q
  proof -
    have "q \<notin> sg ` {s..<m}" using lowered [of q] q(2) d(4) k by auto
    then have "get vvv q = g" "q \<notin> sg ` {s..<e}"
      using c(5) [OF q(1)] q(2,3) by (simp_all add: un image_Un img)
    then show ?thesis using d(10) [of k q] k se q(1) by (auto simp: sg)
  qed
  ultimately show ?thesis
    unfolding ready_def using c(1) d(2-5) m by auto
qed

lemma ready_prefix:
  assumes r: "ready buf h s e g iii vvv sg" and m: "s \<le> m" "m \<le> e"
    and less: "\<And>k j. k \<in> {s..<m} \<Longrightarrow> j \<in> {m..<e} \<Longrightarrow> suf buf (sg k) < suf buf (sg j)"
  shows "ready buf h s m g iii vvv sg"
proof -
  note d = readyD [OF r]
  have "suf buf (sg k) < suf buf q"
    if k: "k \<in> {s..<m}" and q: "q \<in> ranks buf" "get vvv q = g" "q \<notin> sg ` {s..<m}" for k q
  proof (cases "q \<in> sg ` {s..<e}")
    case True
    then obtain j where j: "j \<in> {s..<e}" "q = sg j" by blast
    then have "j \<notin> {s..<m}" using q(3) by blast
    then have "j \<in> {m..<e}" using j(1) by simp
    with j(2) show ?thesis using less k by simp
  next
    case False
    then show ?thesis using d(10) [of k q] k q m by simp
  qed
  then show ?thesis
    unfolding ready_def using d m by auto
qed

text \<open>A part of a group gets its number.\<close>

text \<open>Numbering a part of a group with its last rank keeps the order of the numbers and the groups.\<close>

lemma number_orders:
  assumes r: "ready buf h s m g iii vvv sg" and sm: "s < m"
    and v: "\<And>q. 0 \<le> q \<Longrightarrow> get vvv' q = (if q \<in> sg ` {s..<m} then m - 1 else get vvv q)"
  shows "orders buf vvv'"
  unfolding orders_def
proof (intro ballI impI)
  note d = readyD [OF r]
  let ?A = "sg ` {s..<m}"
  have vA: "get vvv p = g" if "p \<in> ?A" for p using that d(7) by blast
  fix p q assume p: "p \<in> ranks buf" and q: "q \<in> ranks buf" and lt: "get vvv' p < get vvv' q"
  have o: "get vvv p < get vvv q \<Longrightarrow> suf buf p < suf buf q"
    using d(1) p q by (simp add: sane_def orders_def)
  have nn: "0 \<le> p" "0 \<le> q" using p q by simp_all
  show "suf buf p < suf buf q"
  proof (cases "p \<in> ?A")
    case True
    then have "q \<notin> ?A" using lt v nn by auto
    then have "m - 1 < get vvv q" using lt v nn True by simp
    then have "g \<le> get vvv q" using d(9) [OF q] sm by linarith
    then show ?thesis
      using o vA [OF True] True \<open>q \<notin> ?A\<close> d(10) [of _ q] q by (cases "get vvv q = g") auto
  next
    case False
    show ?thesis
    proof (cases "q \<in> ?A")
      case True
      then have "get vvv p < m - 1" using lt v nn False by simp
      then have "get vvv p < g" using d(4) by simp
      then show ?thesis using o vA [OF True] by simp
    qed (use o lt v nn False in simp)
  qed
qed

lemma number_groups_alike:
  assumes r: "ready buf h s m g iii vvv sg" and sm: "s < m"
    and v: "\<And>q. 0 \<le> q \<Longrightarrow> get vvv' q = (if q \<in> sg ` {s..<m} then m - 1 else get vvv q)"
  shows "groups_alike buf h vvv'"
  unfolding groups_alike_def
proof (intro ballI impI)
  note d = readyD [OF r]
  let ?A = "sg ` {s..<m}"
  have vA: "get vvv p = g" if "p \<in> ?A" for p using that d(7) by blast
  fix p q assume p: "p \<in> ranks buf" and q: "q \<in> ranks buf" and eq: "get vvv' p = get vvv' q"
  have o: "get vvv p = get vvv q \<Longrightarrow> alike buf h p q"
    using d(1) p q by (simp add: sane_def groups_alike_def)
  have far: "m - 1 \<noteq> get vvv x" if x: "x \<in> ranks buf" "x \<notin> ?A" "m - 1 \<noteq> g" for x
    using d(9) [OF x(1)] d(4) sm x(3) by auto
  have vp: "get vvv' p = (if p \<in> ?A then m - 1 else get vvv p)" and
    vq: "get vvv' q = (if q \<in> ?A then m - 1 else get vvv q)" using v p q by simp_all
  have "get vvv p = get vvv q"
  proof (cases "p \<in> ?A \<longleftrightarrow> q \<in> ?A")
    case True
    then show ?thesis using eq vp vq vA [of p] vA [of q] by (cases "p \<in> ?A") simp_all
  next
    case False
    then show ?thesis
      using eq vp vq vA [of p] vA [of q] far [OF p] far [OF q] by (cases "p \<in> ?A") fastforce+
  qed
  then show "alike buf h p q" by (rule o)
qed

lemma refined_number:
  assumes r: "ready buf h s m g iii vvv sg" and sm: "s < m"
    and al: "\<And>j k. j \<in> {s..<m} \<Longrightarrow> k \<in> {s..<m} \<Longrightarrow> alike buf (h + h) (sg j) (sg k)"
    and len: "length iii' = length iii" "length vvv' = length vvv"
    and v: "\<And>q. 0 \<le> q \<Longrightarrow> get vvv' q = (if q \<in> sg ` {s..<m} then m - 1 else get vvv q)"
    and i: "\<And>k. 0 \<le> k \<Longrightarrow> get iii' k = (if k = s \<and> m = s + 1 then -1 else get iii k)"
  shows "refined buf h s m iii vvv sg iii' vvv' sg"
proof -
  note d = readyD [OF r]
  let ?A = "sg ` {s..<m}"
  have A: "?A \<subseteq> ranks buf" using sane_range [OF d(1)] d(11) by blast
  have sane: "sane buf h iii' vvv' sg"
    using d(1) len number_orders [OF r sm v] number_groups_alike [OF r sm v] by (simp add: sane_def)
  have ge: "group_end vvv' sg k = m - 1" if "k \<in> {s..<m}" for k
  proof -
    have "sg k \<in> ranks buf" using A that by blast
    then have "0 \<le> sg k" by simp
    then show ?thesis using v [of "sg k"] that by (auto simp: group_end_def)
  qed
  have cl: "closes vvv' sg m k" if "k \<in> {s..<m}" for k
    unfolding closes_def using ge [OF that] ge that by auto
  have iv: "get iii' k = (if group_end vvv' sg k = k \<and> (k = s \<or> group_end vvv' sg (k - 1) = k - 1) then -1 else sg k)"
    if k: "k \<in> {s..<m}" for k
  proof -
    have "0 \<le> k" using k d(2) by simp
    moreover have "k = s \<or> group_end vvv' sg (k - 1) = m - 1" using ge [of "k - 1"] k by (cases "k = s") auto
    ultimately show ?thesis using i [of k] ge [OF k] d(6) [OF k] k by auto
  qed
  have io: "get iii' k = get iii k" if "0 \<le> k" "k \<notin> {s..<m}" for k
    using i [of k] that sm by auto
  have vo: "get vvv' q = get vvv q" if "q \<in> ranks buf" "q \<notin> ?A" for q
    using v [of q] that by simp
  show ?thesis
    unfolding refined_def by (intro conjI allI ballI impI sane io vo cl iv al refl) assumption+
qed

end
