(* ===== verification/Suffix_Split.thy ===== *)
theory Suffix_Split
  imports Suffix_Order
begin

section \<open>Splitting a group\<close>

text \<open>
  \<open>split\<close> on a part of a group, on both of its branches: it returns, and the part has become groups
  of suffixes that agree over twice the length.
\<close>

subsection \<open>Keys\<close>

definition readable :: "int \<Rightarrow> int list \<Rightarrow> int \<Rightarrow> int \<Rightarrow> int list \<Rightarrow> bool" where
  "readable h vvv s e iii \<longleftrightarrow> 0 \<le> s \<and> e \<le> int (length iii) \<and>
     (\<forall>a \<in> get iii ` {s..<e}. 0 \<le> a \<and> 0 \<le> a + h \<and> a + h < int (length vvv))"

abbreviation kof :: "int list \<Rightarrow> int \<Rightarrow> int list \<Rightarrow> int \<Rightarrow> int" where
  "kof vvv h iii t \<equiv> get vvv (get iii t + h)"

lemma key_readable: "readable h vvv s e iii \<Longrightarrow> t \<in> {s..<e} \<Longrightarrow> key iii vvv h t = gives (kof vvv h iii t)"
  by (auto simp: readable_def key_def idx_def)

lemma readable_shuffled: "readable h vvv s e iii \<Longrightarrow> shuffled s e iii iii' \<Longrightarrow> readable h vvv s e iii'"
  by (simp add: readable_def shuffled_def)

lemma readable_part: "readable h vvv s e iii \<Longrightarrow> s \<le> s' \<Longrightarrow> e' \<le> e \<Longrightarrow> readable h vvv s' e' iii"
  by (auto simp: readable_def)

lemma ready_readable:
  assumes "ready buf h s e g iii vvv sg"
  shows "readable h vvv s e iii"
proof -
  note d = readyD [OF assms]
  have "0 \<le> get iii k \<and> 0 \<le> get iii k + h \<and> get iii k + h < int (length vvv)" if k: "k \<in> {s..<e}" for k
  proof -
    have "sg k \<in> ranks buf" using sane_range [OF d(1)] d(11) k by blast
    then show ?thesis using d(6,8) [OF k] d(12) sane_lengths(2) [OF d(1)] by simp
  qed
  then show ?thesis
    unfolding readable_def using d(2,4,5) sane_lengths(1) [OF d(1)] by auto
qed


subsection \<open>Numbering and selecting\<close>

lemma number_returns:
  assumes "0 \<le> k" and "0 \<le> j" and "k + j \<le> int (length iii)"
    and "\<And>a. a \<in> get iii ` {k..<k + j} \<Longrightarrow> 0 \<le> a \<and> a < int (length vvv)"
  shows "returns (number iii k j v vvv) (\<lambda>(vvv', i). length vvv' = length vvv \<and>
    (\<forall>q \<ge> 0. get vvv' q = (if q \<in> get iii ` {k..<k + j} then v else get vvv q)))"
  unfolding number_def
proof (rule loop_returns [where f = "\<lambda>(vvv', i). nat (j - i)" and I = "\<lambda>(vvv', i). 0 \<le> i \<and> i \<le> j \<and>
      length vvv' = length vvv \<and>
      (\<forall>q \<ge> 0. get vvv' q = (if q \<in> get iii ` {k..<k + i} then v else get vvv q))"], goal_cases)
  case (2 s)
  obtain vvv' i where s: "s = (vvv', i)" by (cases s)
  have i: "0 \<le> i" "i < j" "length vvv' = length vvv"
    and g: "\<And>q. 0 \<le> q \<Longrightarrow> get vvv' q = (if q \<in> get iii ` {k..<k + i} then v else get vvv q)"
    using 2 by (simp_all add: s)
  let ?a = "get iii (k + i)"
  have a: "0 \<le> ?a" "?a < int (length vvv)" using assms(4) [of ?a] i by auto
  have "{k..<k + (i + 1)} = insert (k + i) {k..<k + i}" using i by auto
  then have "get (put vvv' ?a v) q = (if q \<in> get iii ` {k..<k + (i + 1)} then v else get vvv q)" if "0 \<le> q" for q
    using a i(3) that g [OF that] by (simp add: get_put)
  then show ?case
    using assms(1,3) i a by (simp add: s)
qed (use assms in auto)

lemma scan_min_returns:
  assumes rd: "readable h vvv k e iii" and ke: "k < e"
  shows "returns (scan_min vvv h k e iii (kof vvv h iii k)) (\<lambda>(iii', x, i, j).
    shuffled k e iii iii' \<and> 1 \<le> j \<and> k + j \<le> e \<and> (\<forall>t \<in> {k..<k + j}. kof vvv h iii' t = x) \<and>
    (\<forall>t \<in> {k + j..<e}. x < kof vvv h iii' t))"
  unfolding scan_min_def
proof (rule loop_returns [where f = "\<lambda>(iii', x, i, j). nat (e - k - i)" and I = "\<lambda>(iii', x, i, j).
      shuffled k e iii iii' \<and> 1 \<le> j \<and> j \<le> i \<and> k + i \<le> e \<and> (\<forall>t \<in> {k..<k + j}. kof vvv h iii' t = x) \<and>
      (\<forall>t \<in> {k + j..<k + i}. x < kof vvv h iii' t)"], goal_cases)
  case 1
  have "{k..<k + 1} = {k}" by auto
  then show ?case using ke by simp
next
  case (2 s)
  obtain iii1 x i j where s: "s = (iii1, x, i, j)" by (cases s)
  have sh: "shuffled k e iii iii1" and ij: "1 \<le> j" "j \<le> i" "k + i < e"
    and eqs: "\<And>t. t \<in> {k..<k + j} \<Longrightarrow> kof vvv h iii1 t = x"
    and gts: "\<And>t. t \<in> {k + j..<k + i} \<Longrightarrow> x < kof vvv h iii1 t"
    using 2 by (simp_all add: s)
  have rd1: "readable h vvv k e iii1" by (rule readable_shuffled [OF rd sh])
  have len: "0 \<le> k" "e \<le> int (length iii1)" using rd1 by (simp_all add: readable_def)
  let ?y = "kof vvv h iii1 (k + i)"
  have key: "key iii1 vvv h (k + i) = gives ?y" by (rule key_readable [OF rd1]) (use ij in simp)
  have step: "returns (swap iii1 (k + j') (k + i)) (\<lambda>iii2. shuffled k e iii iii2 \<and>
      (\<forall>t \<in> {k..<k + (j' + 1)}. kof vvv h iii2 t = ?y) \<and> (\<forall>t \<in> {k + (j' + 1)..<k + (i + 1)}. ?y < kof vvv h iii2 t))"
    if j': "0 \<le> j'" "j' \<le> i" and e': "\<And>t. t \<in> {k..<k + j'} \<Longrightarrow> kof vvv h iii1 t = ?y"
      and g': "\<And>t. t \<in> {k + j'..<k + i} \<Longrightarrow> ?y < kof vvv h iii1 t" for j'
  proof -
    let ?z = "put (put iii1 (k + j') (get iii1 (k + i))) (k + i) (get iii1 (k + j'))"
    have g: "get ?z t = (if t = k + i then get iii1 (k + j') else if t = k + j' then get iii1 (k + i) else get iii1 t)"
      if "0 \<le> t" for t
      using get_swap [of "k + j'" iii1 "k + i" t] that len j' ij by simp
    have "shuffled k e iii1 ?z" by (rule shuffled_swap) (use len j' ij in simp_all)
    moreover have "kof vvv h ?z t = ?y" if t: "t \<in> {k..<k + (j' + 1)}" for t
      using g [of t] t len(1) j' e' [of t] by (cases "t = k + j'") auto
    moreover have "?y < kof vvv h ?z t" if t: "t \<in> {k + (j' + 1)..<k + (i + 1)}" for t
      using g [of t] t len(1) j' g' [of t] g' [of "k + j'"] by (cases "t = k + i") auto
    ultimately show ?thesis
      using len j' ij shuffled_trans [OF sh] by auto
  qed
  consider "?y < x" | "?y = x" | "x < ?y" by linarith
  then show ?case
  proof cases
    case 1
    have "?y < kof vvv h iii1 t" if "t \<in> {k..<k + i}" for t
      using eqs [of t] gts [of t] 1 that by (cases "t < k + j") auto
    then have st: "returns (swap iii1 (k + 0) (k + i)) (\<lambda>iii2. shuffled k e iii iii2 \<and>
      (\<forall>t \<in> {k..<k + (0 + 1)}. kof vvv h iii2 t = ?y) \<and> (\<forall>t \<in> {k + (0 + 1)..<k + (i + 1)}. ?y < kof vvv h iii2 t))"
      by (intro step) (use ij in simp_all)
    note st = st [unfolded add_0_right add_0]
    show ?thesis
      using 1 ij by (simp add: s key del: returns_swap) (rule returns_mono [OF st], simp)
  next
    case 2
    have st: "returns (swap iii1 (k + j) (k + i)) (\<lambda>iii2. shuffled k e iii iii2 \<and>
      (\<forall>t \<in> {k..<k + (j + 1)}. kof vvv h iii2 t = ?y) \<and> (\<forall>t \<in> {k + (j + 1)..<k + (i + 1)}. ?y < kof vvv h iii2 t))"
      by (intro step) (use ij eqs gts 2 in simp_all)
    show ?thesis
      using 2 ij by (simp add: s key del: returns_swap) (rule returns_mono [OF st], simp)
  next
    case 3
    have "x < kof vvv h iii1 t" if "t \<in> {k + j..<k + (i + 1)}" for t
      using gts [of t] 3 that by (cases "t = k + i") auto
    moreover have "(?y < x) = False" "(?y = x) = False" using 3 by simp_all
    ultimately show ?thesis using ij sh eqs by (simp add: s key)
  qed
next
  case (3 s)
  then obtain iii1 x i j where s: "s = (iii1, x, i, j)" by (cases s)
  then have "k + i = e" using 3 by simp
  then show ?case using 3 by (simp add: s)
qed


text \<open>Two suffixes of a group compare as their keys.\<close>

lemma keys_less:
  assumes r: "ready buf h s e g iii vvv sg" and j: "j \<in> {s..<e}" and k: "k \<in> {s..<e}"
    and less: "kof vvv h iii j < kof vvv h iii k"
  shows "suf buf (sg j) < suf buf (sg k)"
proof -
  note d = readyD [OF r]
  have in_r: "sg j \<in> ranks buf" "sg k \<in> ranks buf" using sane_range [OF d(1)] d(11) j k by blast+
  have "alike buf h (sg j) (sg k)"
    using d(1) in_r d(7) [OF j] d(7) [OF k] by (simp add: sane_def groups_alike_def)
  moreover have "suf buf (sg j + h) < suf buf (sg k + h)"
    using d(1) in_r d(6,8) [OF j] d(6,8) [OF k] d(12) less by (simp add: sane_def orders_def)
  ultimately show ?thesis
    by (rule alike_less) (use in_r d(12) in simp_all)
qed

lemma keys_alike:
  assumes r: "ready buf h s e g iii vvv sg" and j: "j \<in> {s..<e}" and k: "k \<in> {s..<e}"
    and eq: "kof vvv h iii j = kof vvv h iii k"
  shows "alike buf (h + h) (sg j) (sg k)"
proof -
  note d = readyD [OF r]
  have in_r: "sg j \<in> ranks buf" "sg k \<in> ranks buf" using sane_range [OF d(1)] d(11) j k by blast+
  have "alike buf h (sg j) (sg k)"
    using d(1) in_r d(7) [OF j] d(7) [OF k] by (simp add: sane_def groups_alike_def)
  moreover have "alike buf h (sg j + h) (sg k + h)"
    using d(1) in_r d(6,8) [OF j] d(6,8) [OF k] d(12) eq by (simp add: sane_def groups_alike_def)
  ultimately show ?thesis
    by (rule alike_double) (use in_r d(12) in simp_all)
qed

text \<open>The first part \<open>s..<m\<close> of a group gets its number and, alone, its mark.\<close>

lemma number_part:
  assumes r: "ready buf h s m g iii vvv sg" and sm: "s < m"
    and al: "\<And>j k. j \<in> {s..<m} \<Longrightarrow> k \<in> {s..<m} \<Longrightarrow> alike buf (h + h) (sg j) (sg k)"
  shows "returns (number iii s (m - s) (m - 1) vvv) (\<lambda>(vvv', _).
    returns (if m = s + 1 then upd iii s (-1) else gives iii) (\<lambda>iii'. refined buf h s m iii vvv sg iii' vvv' sg))"
proof -
  note d = readyD [OF r]
  have img: "get iii ` {s..<m} = sg ` {s..<m}" using d(6) by (intro image_cong) auto
  have lens: "int (length iii) = int (length buf) + 1" "int (length vvv) = int (length buf) + 1"
    using sane_lengths [OF d(1)] by simp_all
  have rng: "0 \<le> a \<and> a < int (length vvv)" if "a \<in> get iii ` {s..<m}" for a
  proof -
    have "a \<in> ranks buf" using that sane_range [OF d(1)] d(11) unfolding img by blast
    then show ?thesis using lens(2) by simp
  qed
  have n: "returns (number iii s (m - s) (m - 1) vvv) (\<lambda>(vvv', i). length vvv' = length vvv \<and>
    (\<forall>q \<ge> 0. get vvv' q = (if q \<in> get iii ` {s..<s + (m - s)} then m - 1 else get vvv q)))"
    by (rule number_returns) (use d(2-5) lens sm rng in auto)
  show ?thesis
  proof (rule returns_mono [OF n], clarify, goal_cases)
    case (1 vvv' i)
    then have v: "get vvv' q = (if q \<in> sg ` {s..<m} then m - 1 else get vvv q)" if "0 \<le> q" for q
      using that img by simp
    note f = refined_number [OF r sm al _ 1(1) v]
    have s_in: "0 \<le> s" "s < int (length iii)" using d(2,4,5) lens sm by simp_all
    show ?case
    proof (cases "m = s + 1")
      case True
      show ?thesis
        unfolding if_P [OF True] returns_upd
        using s_in by (intro conjI f) (simp_all add: get_put True)
    next
      case False
      then show ?thesis unfolding if_not_P [OF False] returns_gives by (intro f) simp_all
    qed
  qed
qed

lemma select_returns:
  assumes r: "ready buf h s e g iii vvv sg"
  shows "returns (select h e iii vvv s) (\<lambda>(iii', vvv', k). \<exists>sg'. refined buf h s e iii vvv sg iii' vvv' sg')"
  unfolding select_def
proof (rule loop_returns [where f = "\<lambda>(iii1, vvv1, k). nat (e - k)" and I = "\<lambda>(iii1, vvv1, k).
      s \<le> k \<and> k \<le> e \<and> (\<exists>sg1. ready buf h k e g iii1 vvv1 sg1 \<and> (\<forall>iii' vvv' sg'.
        refined buf h k e iii1 vvv1 sg1 iii' vvv' sg' \<longrightarrow> refined buf h s e iii vvv sg iii' vvv' sg'))"], goal_cases)
  case 1
  then show ?case using r readyD(3) [OF r] by auto
next
  case (2 st)
  obtain iii1 vvv1 k where st: "st = (iii1, vvv1, k)" by (cases st)
  have k: "s \<le> k" "k < e" using 2 by (simp_all add: st)
  obtain sg1 where r1: "ready buf h k e g iii1 vvv1 sg1"
    and rest: "\<And>iii' vvv' sg'. refined buf h k e iii1 vvv1 sg1 iii' vvv' sg' \<Longrightarrow>
        refined buf h s e iii vvv sg iii' vvv' sg'"
    using 2 by (auto simp: st)
  have rd: "readable h vvv1 k e iii1" by (rule ready_readable [OF r1])
  have key: "key iii1 vvv1 h k = gives (kof vvv1 h iii1 k)"
    by (rule key_readable [OF rd]) (use k in simp)
  have step: "returns (after (number iii2 k j (k + j - 1) vvv1) (\<lambda>(vvv, uu).
        after (if j = 1 then upd iii2 k (- 1) else gives iii2) (\<lambda>iii. gives (iii, vvv, k + j))))
      (\<lambda>s'. (case s' of (iii1, vvv1, k) \<Rightarrow>
        s \<le> k \<and> k \<le> e \<and> (\<exists>sg1. ready buf h k e g iii1 vvv1 sg1 \<and> (\<forall>iii' vvv' sg'.
        refined buf h k e iii1 vvv1 sg1 iii' vvv' sg' \<longrightarrow> refined buf h s e iii vvv sg iii' vvv' sg'))) \<and>
        (case s' of (iii1, vvv1, k) \<Rightarrow> nat (e - k)) < nat (e - k))"
    if sc: "shuffled k e iii1 iii2" "1 \<le> j" "k + j \<le> e" "\<forall>t \<in> {k..<k + j}. kof vvv1 h iii2 t = x"
      "\<forall>t \<in> {k + j..<e}. x < kof vvv1 h iii2 t" for iii2 x j
  proof -
    let ?sg = "moved k e iii2 sg1" and ?m = "k + j"
    have r2: "ready buf h k e g iii2 vvv1 ?sg" by (rule ready_moved [OF r1 sc(1)])
    have r3: "ready buf h k ?m g iii2 vvv1 ?sg"
    proof (rule ready_prefix [OF r2])
      fix a b assume a: "a \<in> {k..<?m}" and b: "b \<in> {?m..<e}"
      then have "kof vvv1 h iii2 a < kof vvv1 h iii2 b" using sc(4,5) by simp
      then show "suf buf (?sg a) < suf buf (?sg b)"
        by (rule keys_less [OF r2, rotated 2]) (use a b sc(2,3) in auto)
    qed (use sc in simp_all)
    have al: "alike buf (h + h) (?sg a) (?sg b)" if "a \<in> {k..<?m}" "b \<in> {k..<?m}" for a b
      by (rule keys_alike [OF r2]) (use that sc in auto)
    have n: "returns (number iii2 k (?m - k) (?m - 1) vvv1) (\<lambda>(vvv', _).
        returns (if ?m = k + 1 then upd iii2 k (-1) else gives iii2)
          (\<lambda>iii'. refined buf h k ?m iii2 vvv1 ?sg iii' vvv' ?sg))"
      by (rule number_part [OF r3 _ al]) (use sc in simp_all)
    have next_k: "ready buf h ?m e g iii3 vvv3 ?sg \<and> (\<forall>iii' vvv' sg'.
        refined buf h ?m e iii3 vvv3 ?sg iii' vvv' sg' \<longrightarrow> refined buf h s e iii vvv sg iii' vvv' sg')"
      if f: "refined buf h k ?m iii2 vvv1 ?sg iii3 vvv3 ?sg" for iii3 vvv3
    proof (intro conjI allI impI)
      show "ready buf h ?m e g iii3 vvv3 ?sg" by (rule ready_next [OF r2 f]) (use sc in simp_all)
      fix iii' vvv' sg' assume f2: "refined buf h ?m e iii3 vvv3 ?sg iii' vvv' sg'"
      note d2 = readyD [OF r2]
      have "refined buf h k e iii2 vvv1 ?sg iii' vvv' sg'"
        by (rule refined_trans [OF d2(1) f f2]) (use d2(2-5) sc in simp_all)
      then show "refined buf h s e iii vvv sg iii' vvv' sg'"
        by (intro rest refined_moved [OF r1 sc(1)])
    qed
    have "(?m = k + 1) = (j = 1)" by simp
    note n = n [unfolded this add_diff_cancel_left']
    show ?thesis
    proof (rule returns_afterI [OF n], clarify, rule returns_afterI, assumption, goal_cases)
      case (1 v1 i1 iii3)
      from next_k [OF this(2)] show ?case
        using sc(2,3) k by (simp del: atLeastLessThan_iff) blast
    qed
  qed
  show ?case
    unfolding st prod.case key after_gives
  proof (rule returns_afterI [OF scan_min_returns [OF rd k(2)]], clarify, goal_cases)
    case (1 iii2 x i j)
    then show ?case by (rule step)
  qed
next
  case (3 st)
  obtain iii1 vvv1 k where st: "st = (iii1, vvv1, k)" by (cases st)
  with 3 have "k = e" by simp
  with 3 obtain sg1 where "ready buf h e e g iii1 vvv1 sg1" and
    "\<And>iii' vvv' sg'. refined buf h e e iii1 vvv1 sg1 iii' vvv' sg' \<Longrightarrow> refined buf h s e iii vvv sg iii' vvv' sg'"
    by (auto simp: st)
  then show ?case using refined_empty [OF readyD(1)] by (fastforce simp: st)
qed



subsection \<open>The partition\<close>

lemma tallied_ge: "S \<subseteq> {s..<e} \<Longrightarrow> (\<And>t. t \<in> S \<Longrightarrow> P t) \<Longrightarrow> int (card S) \<le> tallied P s e"
  unfolding tallied_def of_nat_le_iff by (rule card_mono) auto

lemma tallied_ge_Suc:
  assumes "{a..<b} \<subseteq> {s..<e}" and "a \<le> b" and "\<And>t. t \<in> {a..<b} \<Longrightarrow> P t" and "i \<in> {s..<e}" and "P i"
    and "i \<notin> {a..<b}"
  shows "b - a + 1 \<le> tallied P s e"
proof -
  have "int (card (insert i {a..<b})) \<le> tallied P s e"
    by (rule tallied_ge) (use assms in blast)+
  then show ?thesis using assms(2,6) by (simp del: atLeastLessThan_iff)
qed

lemma tallied_shuffled:
  assumes "shuffled s e iii iii'" and "inj_on (get iii) {s..<e}"
  shows "tallied (\<lambda>t. P (get iii' t)) s e = tallied (\<lambda>t. P (get iii t)) s e"
proof -
  have "card ({s..<e} \<inter> {t. P (get xs t)}) = card (get xs ` {s..<e} \<inter> Collect P)"
    if "inj_on (get xs) {s..<e}" for xs :: "'a list"
  proof -
    have "get xs ` ({s..<e} \<inter> {t. P (get xs t)}) = get xs ` {s..<e} \<inter> Collect P" by auto
    moreover have "inj_on (get xs) ({s..<e} \<inter> {t. P (get xs t)})"
      using that by (rule inj_on_subset) simp
    ultimately show ?thesis by (metis card_image)
  qed
  from this [OF assms(2)] this [OF shuffled_inj [OF assms]] assms(1) show ?thesis
    by (simp add: tallied_def shuffled_def)
qed

lemma tallied_three:
  fixes f :: "int \<Rightarrow> int"
  assumes "s \<le> e"
  shows "tallied (\<lambda>t. f t < x) s e + tallied (\<lambda>t. f t = x) s e + tallied (\<lambda>t. x < f t) s e = e - s"
proof -
  have "{s..<e} = ({s..<e} \<inter> {t. f t < x}) \<union> (({s..<e} \<inter> {t. f t = x}) \<union> ({s..<e} \<inter> {t. x < f t}))"
    by auto
  then have "card {s..<e} = card ({s..<e} \<inter> {t. f t < x}) + card (({s..<e} \<inter> {t. f t = x}) \<union> ({s..<e} \<inter> {t. x < f t}))"
    by (subst card_Un_disjoint [symmetric]) auto
  also have "card (({s..<e} \<inter> {t. f t = x}) \<union> ({s..<e} \<inter> {t. x < f t})) =
      card ({s..<e} \<inter> {t. f t = x}) + card ({s..<e} \<inter> {t. x < f t})"
    by (rule card_Un_disjoint) auto
  finally have "int (card {s..<e}) = int (card ({s..<e} \<inter> {t. f t < x})) + (int (card ({s..<e} \<inter> {t. f t = x})) +
      int (card ({s..<e} \<inter> {t. x < f t})))" by simp
  then show ?thesis using assms by (simp add: tallied_def)
qed

lemma tally_returns:
  assumes rd: "readable h vvv s e iii" and "s \<le> e"
  shows "returns (tally iii vvv h x s e) (\<lambda>(i, jj, kk). jj = tallied (\<lambda>t. kof vvv h iii t < x) s e \<and>
    kk = tallied (\<lambda>t. kof vvv h iii t = x) s e)"
  unfolding tally_def
proof (rule loop_returns [where f = "\<lambda>(i, jj, kk). nat (e - i)" and I = "\<lambda>(i, jj, kk). s \<le> i \<and> i \<le> e \<and>
      jj = tallied (\<lambda>t. kof vvv h iii t < x) s i \<and> kk = tallied (\<lambda>t. kof vvv h iii t = x) s i"], goal_cases)
  case (2 st)
  obtain i jj kk where st: "st = (i, jj, kk)" by (cases st)
  have "key iii vvv h i = gives (kof vvv h iii i)"
    by (rule key_readable [OF rd]) (use 2 in \<open>simp add: st\<close>)
  then show ?case using 2 by (simp add: st tallied_Suc)
qed (use assms in auto)

text \<open>What the partition knows: the counts of the three parts, in any order of the entries.\<close>

definition counted :: "int \<Rightarrow> int list \<Rightarrow> int \<Rightarrow> int \<Rightarrow> int \<Rightarrow> int \<Rightarrow> int \<Rightarrow> int list \<Rightarrow> bool" where
  "counted h vvv x s e jj kk iii \<longleftrightarrow> readable h vvv s e iii \<and> inj_on (get iii) {s..<e} \<and> s \<le> e \<and>
     jj = s + tallied (\<lambda>t. kof vvv h iii t < x) s e \<and> kk = jj + tallied (\<lambda>t. kof vvv h iii t = x) s e"

lemma counted_shuffled:
  assumes "counted h vvv x s e jj kk iii" and "shuffled s e iii iii'"
  shows "counted h vvv x s e jj kk iii'"
  using assms tallied_shuffled [OF assms(2), of "\<lambda>a. get vvv (a + h) < x"]
    tallied_shuffled [OF assms(2), of "\<lambda>a. get vvv (a + h) = x"]
    readable_shuffled [OF _ assms(2)] shuffled_inj [OF assms(2)]
  unfolding counted_def by auto

lemma counted_bounds:
  assumes c: "counted h vvv x s e jj kk iii"
  shows "s \<le> jj" "jj \<le> kk" "kk \<le> e" "0 \<le> s" "e \<le> int (length iii)"
    "i \<in> {s..<e} \<Longrightarrow> key iii vvv h i = gives (kof vvv h iii i)"
  using c tallied_three [of s e "kof vvv h iii" x]
  by (auto simp: counted_def tallied_def readable_def intro: key_readable)

text \<open>A part that is not full while one more entry belongs to it has room for it.\<close>

lemma counted_room:
  assumes c: "counted h vvv x s e jj kk iii" and i: "i \<in> {s..<e}"
  shows "kof vvv h iii i = x \<Longrightarrow> 0 \<le> j \<Longrightarrow> jj + j \<le> kk \<Longrightarrow> i \<notin> {jj..<jj + j} \<Longrightarrow>
      (\<And>t. t \<in> {jj..<jj + j} \<Longrightarrow> kof vvv h iii t = x) \<Longrightarrow> jj + j < kk"
    and "x < kof vvv h iii i \<Longrightarrow> 0 \<le> k \<Longrightarrow> kk + k \<le> e \<Longrightarrow> i \<notin> {kk..<kk + k} \<Longrightarrow>
      (\<And>t. t \<in> {kk..<kk + k} \<Longrightarrow> x < kof vvv h iii t) \<Longrightarrow> kk + k < e"
    and "kof vvv h iii i < x \<Longrightarrow> i \<notin> {s..<jj} \<Longrightarrow> (\<And>t. t \<in> {s..<jj} \<Longrightarrow> kof vvv h iii t < x) \<Longrightarrow> False"
proof -
  note b = counted_bounds [OF c]
  have eqs: "tallied (\<lambda>t. kof vvv h iii t < x) s e = jj - s" "tallied (\<lambda>t. kof vvv h iii t = x) s e = kk - jj"
    "tallied (\<lambda>t. x < kof vvv h iii t) s e = e - kk"
    using c tallied_three [of s e "kof vvv h iii" x] by (simp_all add: counted_def)
  show "jj + j < kk" if "kof vvv h iii i = x" "0 \<le> j" "jj + j \<le> kk" "i \<notin> {jj..<jj + j}"
    "\<And>t. t \<in> {jj..<jj + j} \<Longrightarrow> kof vvv h iii t = x"
    using tallied_ge_Suc [of jj "jj + j" s e "\<lambda>t. kof vvv h iii t = x" i] that b i eqs by auto
  show "kk + k < e" if "x < kof vvv h iii i" "0 \<le> k" "kk + k \<le> e" "i \<notin> {kk..<kk + k}"
    "\<And>t. t \<in> {kk..<kk + k} \<Longrightarrow> x < kof vvv h iii t"
    using tallied_ge_Suc [of kk "kk + k" s e "\<lambda>t. x < kof vvv h iii t" i] that b i eqs by auto
  show False if "kof vvv h iii i < x" "i \<notin> {s..<jj}" "\<And>t. t \<in> {s..<jj} \<Longrightarrow> kof vvv h iii t < x"
    using tallied_ge_Suc [of s jj s e "\<lambda>t. kof vvv h iii t < x" i] that b i eqs by auto
qed

text \<open>The entries sorted into the three parts so far: all of the first up to \<open>i\<close>, \<open>j\<close> and \<open>k\<close> of the
  others.\<close>

definition sifted ::
  "int \<Rightarrow> int list \<Rightarrow> int \<Rightarrow> int \<Rightarrow> int \<Rightarrow> int \<Rightarrow> int \<Rightarrow> int list \<Rightarrow> int \<Rightarrow> int \<Rightarrow> int \<Rightarrow> int list \<Rightarrow> bool"
where
  "sifted h vvv x s e jj kk iii0 i j k iii \<longleftrightarrow> shuffled s e iii0 iii \<and> counted h vvv x s e jj kk iii \<and>
     s \<le> i \<and> i \<le> jj \<and> 0 \<le> j \<and> jj + j \<le> kk \<and> 0 \<le> k \<and> kk + k \<le> e \<and>
     (\<forall>t \<in> {s..<i}. kof vvv h iii t < x) \<and> (\<forall>t \<in> {jj..<jj + j}. kof vvv h iii t = x) \<and>
     (\<forall>t \<in> {kk..<kk + k}. x < kof vvv h iii t)"

lemma sifted_swap:
  assumes "sifted h vvv x s e jj kk iii0 i j k iii" and "a \<in> {s..<e}" and "b \<in> {s..<e}"
    and "a \<notin> {s..<i} \<union> {jj..<jj + j} \<union> {kk..<kk + k}" and "b \<notin> {s..<i} \<union> {jj..<jj + j} \<union> {kk..<kk + k}"
  shows "returns (swap iii a b) (\<lambda>iii'. sifted h vvv x s e jj kk iii0 i j k iii' \<and>
    get iii' a = get iii b \<and> get iii' b = get iii a)"
proof -
  have c: "counted h vvv x s e jj kk iii" and sh: "shuffled s e iii0 iii" using assms(1) by (simp_all add: sifted_def)
  note bd = counted_bounds [OF c]
  let ?z = "put (put iii a (get iii b)) b (get iii a)"
  have g: "get ?z t = (if t = b then get iii a else if t = a then get iii b else get iii t)" if "0 \<le> t" for t
    by (rule get_swap) (use assms bd that in auto)
  have sz: "shuffled s e iii ?z" by (rule shuffled_swap) (use assms bd in auto)
  have g': "get ?z t = get iii t" if "t \<in> {s..<i} \<union> {jj..<jj + j} \<union> {kk..<kk + k}" for t
    using g [of t] that assms(4,5) bd(1-4) by auto
  have "sifted h vvv x s e jj kk iii0 i j k ?z"
    using assms(1) shuffled_trans [OF sh sz] counted_shuffled [OF c sz] g' unfolding sifted_def by simp
  moreover have "get ?z a = get iii b" "get ?z b = get iii a"
    using g [of a] g [of b] assms(2,3) bd by auto
  ultimately show ?thesis using assms(2,3) bd by simp
qed

lemma sift_low_returns:
  assumes "counted h vvv x s e jj kk iii"
  shows "returns (sift_low vvv h x jj kk iii s) (\<lambda>(iii', i, j, k). sifted h vvv x s e jj kk iii jj j k iii')"
  unfolding sift_low_def
proof (rule loop_returns [where f = "\<lambda>(iii', i, j, k). nat (jj - i) + nat (kk - jj - j) + nat (e - kk - k)"
      and I = "\<lambda>(iii', i, j, k). sifted h vvv x s e jj kk iii i j k iii'"], goal_cases)
  case 1
  show ?case using assms counted_bounds [OF assms] by (simp add: sifted_def)
next
  case (2 st)
  obtain iii1 i j k where st: "st = (iii1, i, j, k)" by (cases st)
  have sf: "sifted h vvv x s e jj kk iii i j k iii1" and ij: "i < jj" using 2 by (simp_all add: st)
  have c: "counted h vvv x s e jj kk iii1" using sf by (simp add: sifted_def)
  note b = counted_bounds [OF c]
  have bs: "s \<le> i" "0 \<le> j" "jj + j \<le> kk" "0 \<le> k" "kk + k \<le> e"
    and mids: "\<And>t. t \<in> {jj..<jj + j} \<Longrightarrow> kof vvv h iii1 t = x"
    and highs: "\<And>t. t \<in> {kk..<kk + k} \<Longrightarrow> x < kof vvv h iii1 t"
    using sf by (simp_all add: sifted_def)
  have i: "i \<in> {s..<e}" using ij bs b by simp
  consider "kof vvv h iii1 i < x" | "kof vvv h iii1 i = x" | "x < kof vvv h iii1 i" by linarith
  then show ?case
  proof cases
    case 1
    have "{s..<i + 1} = insert i {s..<i}" using bs by auto
    then have "sifted h vvv x s e jj kk iii (i + 1) j k iii1" using sf 1 ij by (simp add: sifted_def)
    then show ?thesis using 1 ij b(6) [OF i] by (simp add: st)
  next
    case 2
    have room: "jj + j < kk" by (rule counted_room(1) [OF c i 2]) (use bs ij mids in auto)
    have "returns (swap iii1 i (jj + j)) (\<lambda>iii'. sifted h vvv x s e jj kk iii i j k iii' \<and>
        get iii' i = get iii1 (jj + j) \<and> get iii' (jj + j) = get iii1 i)"
      by (rule sifted_swap [OF sf i]) (use room bs b ij in auto)
    then have "returns (swap iii1 i (jj + j)) (\<lambda>iii'. sifted h vvv x s e jj kk iii i (j + 1) k iii')"
    proof (rule returns_mono)
      fix iii' assume a: "sifted h vvv x s e jj kk iii i j k iii' \<and>
        get iii' i = get iii1 (jj + j) \<and> get iii' (jj + j) = get iii1 i"
      have "{jj..<jj + (j + 1)} = insert (jj + j) {jj..<jj + j}" using bs by auto
      then show "sifted h vvv x s e jj kk iii i (j + 1) k iii'" using a 2 room bs by (simp add: sifted_def)
    qed
    then show ?thesis
      using 2 ij room b(6) [OF i] by (simp add: st del: returns_swap)
  next
    case 3
    have room: "kk + k < e" by (rule counted_room(2) [OF c i 3]) (use bs b ij highs in auto)
    have "returns (swap iii1 i (kk + k)) (\<lambda>iii'. sifted h vvv x s e jj kk iii i j k iii' \<and>
        get iii' i = get iii1 (kk + k) \<and> get iii' (kk + k) = get iii1 i)"
      by (rule sifted_swap [OF sf i]) (use room bs b ij in auto)
    then have "returns (swap iii1 i (kk + k)) (\<lambda>iii'. sifted h vvv x s e jj kk iii i j (k + 1) iii')"
    proof (rule returns_mono)
      fix iii' assume a: "sifted h vvv x s e jj kk iii i j k iii' \<and>
        get iii' i = get iii1 (kk + k) \<and> get iii' (kk + k) = get iii1 i"
      have "{kk..<kk + (k + 1)} = insert (kk + k) {kk..<kk + k}" using bs by auto
      then show "sifted h vvv x s e jj kk iii i j (k + 1) iii'" using a 3 room bs by (simp add: sifted_def)
    qed
    then show ?thesis
      using 3 ij room b(6) [OF i] by (simp add: st del: returns_swap)
  qed
next
  case (3 st)
  obtain iii1 i j k where st: "st = (iii1, i, j, k)" by (cases st)
  then have "i = jj" using 3 by (simp add: sifted_def)
  then show ?case using 3 by (simp add: st)
qed


lemma sift_mid_returns:
  assumes "sifted h vvv x s e jj kk iii0 jj j k iii"
  shows "returns (sift_mid vvv h x jj kk iii j k) (\<lambda>(iii', j, k). shuffled s e iii0 iii' \<and>
    (\<forall>t \<in> {s..<jj}. kof vvv h iii' t < x) \<and> (\<forall>t \<in> {jj..<kk}. kof vvv h iii' t = x) \<and>
    (\<forall>t \<in> {kk..<e}. x < kof vvv h iii' t))"
  unfolding sift_mid_def
proof (rule loop_returns [where f = "\<lambda>(iii', j, k). nat (kk - jj - j) + nat (e - kk - k)"
      and I = "\<lambda>(iii', j, k). sifted h vvv x s e jj kk iii0 jj j k iii'"], goal_cases)
  case (2 st)
  obtain iii1 j k where st: "st = (iii1, j, k)" by (cases st)
  have sf: "sifted h vvv x s e jj kk iii0 jj j k iii1" and ij: "jj + j < kk" using 2 by (simp_all add: st)
  have c: "counted h vvv x s e jj kk iii1" using sf by (simp add: sifted_def)
  note b = counted_bounds [OF c]
  have bs: "s \<le> jj" "0 \<le> j" "0 \<le> k" "kk + k \<le> e"
    and lows: "\<And>t. t \<in> {s..<jj} \<Longrightarrow> kof vvv h iii1 t < x"
    and highs: "\<And>t. t \<in> {kk..<kk + k} \<Longrightarrow> x < kof vvv h iii1 t"
    using sf by (simp_all add: sifted_def)
  have i: "jj + j \<in> {s..<e}" using ij bs b by simp
  have "\<not> kof vvv h iii1 (jj + j) < x"
    using counted_room(3) [OF c i _ _ lows] bs by auto
  then consider "kof vvv h iii1 (jj + j) = x" | "x < kof vvv h iii1 (jj + j)" by linarith
  then show ?case
  proof cases
    case 1
    have "{jj..<jj + (j + 1)} = insert (jj + j) {jj..<jj + j}" using bs by auto
    then have "sifted h vvv x s e jj kk iii0 jj (j + 1) k iii1" using sf 1 ij by (simp add: sifted_def)
    then show ?thesis using 1 ij b(6) [OF i] by (simp add: st)
  next
    case 2
    have room: "kk + k < e" by (rule counted_room(2) [OF c i 2]) (use bs b ij highs in auto)
    have "returns (swap iii1 (jj + j) (kk + k)) (\<lambda>iii'. sifted h vvv x s e jj kk iii0 jj j k iii' \<and>
        get iii' (jj + j) = get iii1 (kk + k) \<and> get iii' (kk + k) = get iii1 (jj + j))"
      by (rule sifted_swap [OF sf i]) (use room bs b ij in auto)
    then have "returns (swap iii1 (jj + j) (kk + k)) (\<lambda>iii'. sifted h vvv x s e jj kk iii0 jj j (k + 1) iii')"
    proof (rule returns_mono)
      fix iii' assume a: "sifted h vvv x s e jj kk iii0 jj j k iii' \<and>
        get iii' (jj + j) = get iii1 (kk + k) \<and> get iii' (kk + k) = get iii1 (jj + j)"
      have "{kk..<kk + (k + 1)} = insert (kk + k) {kk..<kk + k}" using bs by auto
      then show "sifted h vvv x s e jj kk iii0 jj j (k + 1) iii'" using a 2 room bs by (simp add: sifted_def)
    qed
    then show ?thesis
      using 2 ij room b(6) [OF i] by (simp add: st del: returns_swap)
  qed
next
  case (3 st)
  obtain iii1 j k where st: "st = (iii1, j, k)" by (cases st)
  have sf: "sifted h vvv x s e jj kk iii0 jj j k iii1" and j: "\<not> jj + j < kk" using 3 by (simp_all add: st)
  have c: "counted h vvv x s e jj kk iii1" using sf by (simp add: sifted_def)
  note b = counted_bounds [OF c]
  have kk: "jj + j = kk" using sf j by (simp add: sifted_def)
  have lows: "\<And>t. t \<in> {s..<jj} \<Longrightarrow> kof vvv h iii1 t < x"
    and mids: "\<And>t. t \<in> {jj..<kk} \<Longrightarrow> kof vvv h iii1 t = x"
    using sf kk by (simp_all add: sifted_def)
  have "x < kof vvv h iii1 t" if t: "t \<in> {kk..<e}" for t
  proof -
    have i: "t \<in> {s..<e}" using t b by simp
    have "\<not> kof vvv h iii1 t < x" using counted_room(3) [OF c i _ _ lows] t b by auto
    moreover have "kof vvv h iii1 t \<noteq> x"
      using counted_room(1) [OF c i, of j] mids t kk sf by (auto simp: sifted_def)
    ultimately show ?thesis by simp
  qed
  then show ?case using lows mids sf by (simp add: st sifted_def)
qed (use assms in simp)


subsection \<open>The whole split\<close>

lemma ready_inj:
  assumes "ready buf h s e g iii vvv sg"
  shows "inj_on (get iii) {s..<e}"
proof (rule inj_onI)
  note d = readyD [OF assms]
  fix a b assume a: "a \<in> {s..<e}" and b: "b \<in> {s..<e}" and eq: "get iii a = get iii b"
  have ab: "a \<in> ranks buf" "b \<in> ranks buf" using a b d(11) by blast+
  have "sg a = get iii a" by (rule d(6) [OF a, symmetric])
  also have "\<dots> = sg b" unfolding eq by (rule d(6) [OF b])
  finally show "a = b" by (rule sane_inj [OF d(1) ab])
qed

text \<open>The three parts after the partition.\<close>

definition split_parts ::
  "int \<Rightarrow> int \<Rightarrow> int \<Rightarrow> int \<Rightarrow> int \<Rightarrow> int list \<Rightarrow> int list \<Rightarrow> (int list \<times> int list) run"
where
  "split_parts h s e jj kk iii vvv =
     after (if jj > s then split_group h iii vvv s (jj - s) else gives (iii, vvv)) (\<lambda>(iii, vvv).
     after (number iii jj (kk - jj) (kk - 1) vvv) (\<lambda>(vvv, _).
     after (if jj = kk - 1 then upd iii jj (-1) else gives iii) (\<lambda>iii.
     if e > kk then split_group h iii vvv kk (e - kk) else gives (iii, vvv))))"

lemma split_group_big:
  assumes "\<not> ln < 16"
  shows "split_group h iii vvv s ln =
    after (key iii vvv h (s + ln div 2)) (\<lambda>x.
    after (tally iii vvv h x s (s + ln)) (\<lambda>(i, jj0, kk0).
    after (sift_low vvv h x (jj0 + s) (kk0 + (jj0 + s)) iii s) (\<lambda>(iii, i, j, k).
    after (sift_mid vvv h x (jj0 + s) (kk0 + (jj0 + s)) iii j k) (\<lambda>(iii, j, k).
    split_parts h s (s + ln) (jj0 + s) (kk0 + (jj0 + s)) iii vvv))))"
  by (subst split_group.simps) (simp only: if_not_P [OF assms] split_parts_def Let_def)

definition splits_smaller :: "bytes \<Rightarrow> int \<Rightarrow> int \<Rightarrow> int \<Rightarrow> bool" where
  "splits_smaller buf h n g \<longleftrightarrow> (\<forall>s ln iii vvv sg. ln < n \<longrightarrow> ready buf h s (s + ln) g iii vvv sg \<longrightarrow>
     returns (split_group h iii vvv s ln)
       (\<lambda>(iii', vvv'). \<exists>sg'. refined buf h s (s + ln) iii vvv sg iii' vvv' sg'))"

lemma split_smaller:
  assumes "splits_smaller buf h n g" and "ready buf h s e g iii vvv sg" and "e - s < n"
  shows "returns (if e > s then split_group h iii vvv s (e - s) else gives (iii, vvv))
    (\<lambda>(iii', vvv'). \<exists>sg'. refined buf h s e iii vvv sg iii' vvv' sg')"
proof (cases "e > s")
  case True
  have "ready buf h s (s + (e - s)) g iii vvv sg" using assms(2) by simp
  with assms(1,3) have "returns (split_group h iii vvv s (e - s))
      (\<lambda>(iii', vvv'). \<exists>sg'. refined buf h s (s + (e - s)) iii vvv sg iii' vvv' sg')"
    unfolding splits_smaller_def by blast
  then show ?thesis using True by simp
next
  case False
  then have "e = s" using readyD(3) [OF assms(2)] by simp
  then show ?thesis using refined_empty [OF readyD(1) [OF assms(2)]] by auto
qed

lemma split_parts_returns:
  assumes ih: "splits_smaller buf h (e - s) g" and r: "ready buf h s e g iii vvv sg"
    and jk: "s \<le> jj" "jj < kk" "kk \<le> e"
    and less1: "\<And>t u. t \<in> {s..<jj} \<Longrightarrow> u \<in> {jj..<e} \<Longrightarrow> suf buf (sg t) < suf buf (sg u)"
    and less2: "\<And>t u. t \<in> {jj..<kk} \<Longrightarrow> u \<in> {kk..<e} \<Longrightarrow> suf buf (sg t) < suf buf (sg u)"
    and al: "\<And>t u. t \<in> {jj..<kk} \<Longrightarrow> u \<in> {jj..<kk} \<Longrightarrow> alike buf (h + h) (sg t) (sg u)"
  shows "returns (split_parts h s e jj kk iii vvv)
    (\<lambda>(iii', vvv'). \<exists>sg'. refined buf h s e iii vvv sg iii' vvv' sg')"
proof -
  note d = readyD [OF r]
  have le: "0 \<le> s" "e \<le> int (length buf) + 1" using d(2,4,5) by simp_all
  have "ready buf h s jj g iii vvv sg" by (rule ready_prefix [OF r jk(1) _ less1]) (use jk in simp_all)
  then have low: "returns (if jj > s then split_group h iii vvv s (jj - s) else gives (iii, vvv))
      (\<lambda>(iii1, vvv1). \<exists>sg1. refined buf h s jj iii vvv sg iii1 vvv1 sg1)"
    by (rule split_smaller [OF ih]) (use jk in simp)
  show ?thesis
    unfolding split_parts_def
  proof (rule returns_afterI [OF low], clarify, goal_cases)
    case (1 iii1 vvv1 sg1)
    have r1: "ready buf h jj e g iii1 vvv1 sg1" by (rule ready_next [OF r 1]) (use jk in simp_all)
    have same: "sg1 t = sg t" if "t \<in> {jj..<e}" for t
      using refinedD(2) [OF 1, of t] that by simp
    have "ready buf h jj kk g iii1 vvv1 sg1"
      by (rule ready_prefix [OF r1]) (use jk less2 same in auto)
    then have n: "returns (number iii1 jj (kk - jj) (kk - 1) vvv1) (\<lambda>(vvv', _).
        returns (if kk = jj + 1 then upd iii1 jj (-1) else gives iii1)
          (\<lambda>iii'. refined buf h jj kk iii1 vvv1 sg1 iii' vvv' sg1))"
      by (rule number_part [OF _ jk(2)]) (use al same jk in auto)
    have "(kk = jj + 1) = (jj = kk - 1)" by auto
    note n = n [unfolded this]
    show ?case
    proof (rule returns_afterI [OF n], clarify, rule returns_afterI, assumption, goal_cases)
      case (1 vvv2 i iii2)
      note f2 = 1(2)
      have r2: "ready buf h kk e g iii2 vvv2 sg1" by (rule ready_next [OF r1 f2]) (use jk in simp_all)
      have f12: "refined buf h s kk iii vvv sg iii2 vvv2 sg1"
        by (rule refined_trans [OF d(1) \<open>refined buf h s jj iii vvv sg iii1 vvv1 sg1\<close> f2]) (use le jk in simp_all)
      have "refined buf h s e iii vvv sg iii' vvv' sg'" if "refined buf h kk e iii2 vvv2 sg1 iii' vvv' sg'" for iii' vvv' sg'
        by (rule refined_trans [OF d(1) f12 that]) (use le jk in simp_all)
      moreover have "returns (if e > kk then split_group h iii2 vvv2 kk (e - kk) else gives (iii2, vvv2))
          (\<lambda>(iii', vvv'). \<exists>sg'. refined buf h kk e iii2 vvv2 sg1 iii' vvv' sg')"
        by (rule split_smaller [OF ih r2]) (use jk in simp)
      ultimately show ?case by (elim returns_mono) blast
    qed
  qed
qed

text \<open>From the keys of the entries after the partition.\<close>

lemma split_parts_after:
  assumes ih: "splits_smaller buf h (e - s) g" and r: "ready buf h s e g iii vvv sg"
    and jk: "s \<le> jj" "jj < kk" "kk \<le> e" and sh: "shuffled s e iii iii2"
    and lows: "\<forall>t \<in> {s..<jj}. kof vvv h iii2 t < x" and mids: "\<forall>t \<in> {jj..<kk}. kof vvv h iii2 t = x"
    and highs: "\<forall>t \<in> {kk..<e}. x < kof vvv h iii2 t"
  shows "returns (split_parts h s e jj kk iii2 vvv)
    (\<lambda>(iii', vvv'). \<exists>sg'. refined buf h s e iii vvv sg iii' vvv' sg')"
proof -
  let ?sg = "moved s e iii2 sg"
  have r2: "ready buf h s e g iii2 vvv ?sg" by (rule ready_moved [OF r sh])
  have in_e: "{s..<jj} \<subseteq> {s..<e}" "{jj..<kk} \<subseteq> {s..<e}" "{kk..<e} \<subseteq> {s..<e}" "{jj..<e} \<subseteq> {s..<e}"
    using jk by auto
  have less: "suf buf (?sg t) < suf buf (?sg u)"
    if "t \<in> {s..<e}" "u \<in> {s..<e}" "kof vvv h iii2 t < kof vvv h iii2 u" for t u
    by (rule keys_less [OF r2 that])
  have "returns (split_parts h s e jj kk iii2 vvv)
      (\<lambda>(iii', vvv'). \<exists>sg'. refined buf h s e iii2 vvv ?sg iii' vvv' sg')"
  proof (rule split_parts_returns [OF ih r2 jk])
    fix t u assume t: "t \<in> {s..<jj}" and u: "u \<in> {jj..<e}"
    have "x \<le> kof vvv h iii2 u"
    proof (cases "u < kk")
      case True
      then have "u \<in> {jj..<kk}" using u by simp
      with mids show ?thesis by (metis order_refl)
    next
      case False
      then have "u \<in> {kk..<e}" using u by simp
      with highs have "x < kof vvv h iii2 u" by blast
      then show ?thesis by simp
    qed
    moreover have "kof vvv h iii2 t < x" using lows t by blast
    ultimately have "kof vvv h iii2 t < kof vvv h iii2 u" by linarith
    then show "suf buf (?sg t) < suf buf (?sg u)"
      by (rule less [rotated 2]) (use t u in_e in blast)+
  next
    fix t u assume t: "t \<in> {jj..<kk}" and u: "u \<in> {kk..<e}"
    have "kof vvv h iii2 t = x" using mids t by blast
    moreover have "x < kof vvv h iii2 u" using highs u by blast
    ultimately have "kof vvv h iii2 t < kof vvv h iii2 u" by linarith
    then show "suf buf (?sg t) < suf buf (?sg u)"
      by (rule less [rotated 2]) (use t u in_e in blast)+
  next
    fix t u assume t: "t \<in> {jj..<kk}" and u: "u \<in> {jj..<kk}"
    have "kof vvv h iii2 t = kof vvv h iii2 u" using mids t u by metis
    then show "alike buf (h + h) (?sg t) (?sg u)"
      by (rule keys_alike [OF r2, rotated 2]) (use t u in_e in blast)+
  qed
  then show ?thesis
    by (rule returns_mono) (use refined_moved [OF r sh] in blast)
qed

lemma split_group_returns:
  assumes "ready buf h s (s + ln) g iii vvv sg"
  shows "returns (split_group h iii vvv s ln)
    (\<lambda>(iii', vvv'). \<exists>sg'. refined buf h s (s + ln) iii vvv sg iii' vvv' sg')"
  using assms
proof (induction "nat ln" arbitrary: s ln iii vvv sg rule: less_induct)
  case less
  note r = less(2)
  let ?e = "s + ln"
  note d = readyD [OF r]
  show ?case
  proof (cases "ln < 16")
    case True
    show ?thesis
      unfolding split_group.simps [of h iii vvv s ln] if_P [OF True]
      by (rule returns_afterI [OF select_returns [OF r]]) auto
  next
    case False
    have ih: "splits_smaller buf h (?e - s) g"
      unfolding splits_smaller_def using less(1) False by auto
    have rd: "readable h vvv s ?e iii" by (rule ready_readable [OF r])
    have p: "s + ln div 2 \<in> {s..<?e}" using False by auto
    define x where "x = kof vvv h iii (s + ln div 2)"
    have key: "key iii vvv h (s + ln div 2) = gives x"
      unfolding x_def by (rule key_readable [OF rd p])
    show ?thesis
      unfolding split_group_big [OF False] key after_gives
    proof (rule returns_afterI [OF tally_returns [OF rd d(3)]], clarify, goal_cases)
      case (1 i)
      let ?jj = "tallied (\<lambda>t. kof vvv h iii t < x) s ?e + s"
      let ?kk = "tallied (\<lambda>t. kof vvv h iii t = x) s ?e + ?jj"
      have c: "counted h vvv x s ?e ?jj ?kk iii"
        unfolding counted_def using rd ready_inj [OF r] d(3) by simp
      note b = counted_bounds [OF c]
      have "0 < tallied (\<lambda>t. kof vvv h iii t = x) s ?e" by (rule tallied_pos [OF p]) (simp add: x_def)
      then have jk: "?jj < ?kk" by simp
      show ?case
      proof (rule returns_afterI [OF sift_low_returns [OF c]], clarify, goal_cases)
        case (1 iii1 i j k)
        show ?case
        proof (rule returns_afterI [OF sift_mid_returns [OF 1]], clarify, goal_cases)
          case (1 iii2 j k)
          then show ?case by (rule split_parts_after [OF ih r b(1) jk b(3)])
        qed
      qed
    qed
  qed
qed

end
