(* ===== verification/Suffix_Passes.thy ===== *)
theory Suffix_Passes
  imports Suffix_Split
begin

section \<open>The passes of the suffix sorter\<close>

text \<open>
  One pass over the groups doubles the length they agree over, and the passes end: when the length
  exceeds the input no group has two suffixes, and the next pass joins the sorted runs to one.
\<close>

subsection \<open>The invariant of a pass\<close>

definition single :: "int list \<Rightarrow> (int \<Rightarrow> int) \<Rightarrow> int \<Rightarrow> bool" where
  "single vvv sg j \<longleftrightarrow> group_end vvv sg j = j \<and> (j = 0 \<or> group_end vvv sg (j - 1) = j - 1)"

text \<open>A run of sorted suffixes, marked by negative entries.\<close>

definition sorted_run :: "int list \<Rightarrow> int list \<Rightarrow> (int \<Rightarrow> int) \<Rightarrow> int \<Rightarrow> int \<Rightarrow> bool" where
  "sorted_run iii vvv sg a b \<longleftrightarrow> (\<forall>j \<in> {a..<b}. single vvv sg j \<and> get iii j < 0)"

text \<open>The groups before rank \<open>i\<close> have been split, and the others not yet.\<close>

definition grouped :: "bytes \<Rightarrow> int \<Rightarrow> int \<Rightarrow> int list \<Rightarrow> int list \<Rightarrow> (int \<Rightarrow> int) \<Rightarrow> bool" where
  "grouped buf h i iii vvv sg \<longleftrightarrow> sane buf h iii vvv sg \<and>
     (\<forall>k \<in> ranks buf. closes vvv sg (int (length buf) + 1) k) \<and>
     (\<forall>k \<in> ranks buf. get iii k < 0 \<longrightarrow>
        k - get iii k \<le> int (length buf) + 1 \<and> sorted_run iii vvv sg k (k - get iii k)) \<and>
     (\<forall>k \<in> ranks buf. 0 \<le> get iii k \<longrightarrow>
        get iii k = sg k \<and> sg k + (if k < i then h + h else h) \<le> int (length buf)) \<and>
     (\<forall>j \<in> ranks buf. \<forall>k \<in> ranks buf. group_end vvv sg j = group_end vvv sg k \<longrightarrow> group_end vvv sg k < i \<longrightarrow>
        alike buf (h + h) (sg j) (sg k)) \<and>
     (\<forall>k \<in> {0..<i}. group_end vvv sg k < i)"

lemma groupedD:
  assumes "grouped buf h i iii vvv sg"
  shows "sane buf h iii vvv sg" "k \<in> ranks buf \<Longrightarrow> closes vvv sg (int (length buf) + 1) k"
    "k \<in> ranks buf \<Longrightarrow> get iii k < 0 \<Longrightarrow> k - get iii k \<le> int (length buf) + 1"
    "k \<in> ranks buf \<Longrightarrow> get iii k < 0 \<Longrightarrow> sorted_run iii vvv sg k (k - get iii k)"
    "k \<in> ranks buf \<Longrightarrow> 0 \<le> get iii k \<Longrightarrow> get iii k = sg k"
    "k \<in> ranks buf \<Longrightarrow> 0 \<le> get iii k \<Longrightarrow> sg k + (if k < i then h + h else h) \<le> int (length buf)"
    "j \<in> ranks buf \<Longrightarrow> k \<in> ranks buf \<Longrightarrow> group_end vvv sg j = group_end vvv sg k \<Longrightarrow> group_end vvv sg k < i \<Longrightarrow>
        alike buf (h + h) (sg j) (sg k)"
    "k \<in> {0..<i} \<Longrightarrow> group_end vvv sg k < i"
  using assms unfolding grouped_def by blast+

text \<open>The group of a single suffix has no other.\<close>

lemma single_alone:
  assumes "single vvv sg j" and "closes vvv sg e k" and "group_end vvv sg k = j" and "0 \<le> k"
  shows "k = j"
proof (rule ccontr)
  assume "k \<noteq> j"
  then have k: "k \<le> j - 1" "j - 1 \<le> group_end vvv sg k" using closesD(1) [OF assms(2)] assms(3) by simp_all
  have "group_end vvv sg (j - 1) = j" using closesD(3) [OF assms(2) k] assms(3) by simp
  moreover have "j \<noteq> 0" using k assms(4) by simp
  ultimately show False using assms(1) by (simp add: single_def)
qed

lemma sorted_run_join: "sorted_run iii vvv sg a b \<Longrightarrow> sorted_run iii vvv sg b c \<Longrightarrow> sorted_run iii vvv sg a c"
  by (auto simp: sorted_run_def not_less)

lemma sorted_run_put:
  assumes "sorted_run iii vvv sg a b" and "v < 0" and "0 \<le> m" "m < int (length iii)" and "0 \<le> a"
  shows "sorted_run (put iii m v) vvv sg a b"
  using assms by (auto simp: sorted_run_def get_put)

text \<open>A run is skipped.\<close>

lemma grouped_skip:
  assumes g: "grouped buf h i iii vvv sg" and i: "i \<in> ranks buf" and neg: "get iii i < 0"
  shows "grouped buf h (i - get iii i) iii vvv sg"
proof -
  note d = groupedD [OF g]
  let ?e = "i - get iii i"
  have run: "single vvv sg j" "get iii j < 0" if "j \<in> {i..<?e}" for j
    using d(4) [OF i neg] that by (auto simp: sorted_run_def)
  have e: "i < ?e" "?e \<le> int (length buf) + 1" using d(3) [OF i neg] neg by simp_all
  have split: "k < i \<or> k \<in> {i..<?e} \<or> ?e \<le> k" for k by auto
  have entry: "sg k + (if k < ?e then h + h else h) \<le> int (length buf)" if k: "k \<in> ranks buf" "0 \<le> get iii k" for k
    using split [of k] d(6) [OF k] run(2) [of k] k(2) e by (auto split: if_splits)
  have deep: "alike buf (h + h) (sg j) (sg k)"
    if jk: "j \<in> ranks buf" "k \<in> ranks buf" "group_end vvv sg j = group_end vvv sg k" "group_end vvv sg k < ?e" for j k
  proof (cases "group_end vvv sg k < i")
    case False
    then have "single vvv sg (group_end vvv sg k)" using run(1) jk(4) by simp
    then have "j = group_end vvv sg k" "k = group_end vvv sg k"
      using single_alone [OF _ d(2) [OF jk(1)]] single_alone [OF _ d(2) [OF jk(2)]] jk by simp_all
    then show ?thesis by simp
  qed (use d(7) jk in blast)
  have ends: "group_end vvv sg k < ?e" if "k \<in> {0..<?e}" for k
    using split [of k] d(8) [of k] run(1) [of k] that e by (auto simp: single_def)
  show ?thesis
    unfolding grouped_def using d(1-5) entry deep ends by blast
qed

text \<open>The run before \<open>i\<close> is joined.\<close>

lemma grouped_join:
  assumes g: "grouped buf h i iii vvv sg" and run: "sorted_run iii vvv sg (i - ln) i"
    and ln: "0 < ln" "ln \<le> i" "i \<le> int (length buf) + 1"
  shows "grouped buf h i (put iii (i - ln) (- ln)) vvv sg"
proof -
  note d = groupedD [OF g]
  let ?m = "i - ln"
  let ?z = "put iii ?m (- ln)"
  have len: "int (length iii) = int (length buf) + 1" using sane_lengths(1) [OF d(1)] .
  have m: "0 \<le> ?m" "?m < int (length iii)" using ln len by simp_all
  have gz: "get ?z k = (if k = ?m then - ln else get iii k)" if "0 \<le> k" for k
    using m that by (simp add: get_put)
  have neg: "get iii ?m < 0" using run ln by (simp add: sorted_run_def)
  have z_run: "sorted_run ?z vvv sg a b" if "sorted_run iii vvv sg a b" "0 \<le> a" for a b
    by (rule sorted_run_put [OF that(1) _ m that(2)]) (use ln in simp)
  have marks: "k - get ?z k \<le> int (length buf) + 1 \<and> sorted_run ?z vvv sg k (k - get ?z k)"
    if k: "k \<in> ranks buf" "get ?z k < 0" for k
  proof (cases "k = ?m")
    case True
    then show ?thesis using z_run [OF run] m ln gz [of k] by simp
  next
    case False
    then have "get ?z k = get iii k" using gz [of k] k(1) by simp
    then show ?thesis using d(3,4) [OF k(1)] k z_run by auto
  qed
  have entry: "get ?z k = sg k \<and> sg k + (if k < i then h + h else h) \<le> int (length buf)"
    if k: "k \<in> ranks buf" "0 \<le> get ?z k" for k
  proof -
    have "k \<noteq> ?m" using gz [of k] k ln by auto
    then have "get ?z k = get iii k" using gz [of k] k(1) by simp
    then show ?thesis using d(5,6) [OF k(1)] k(2) by simp
  qed
  have "sane buf h ?z vvv sg" by (rule sane_same_groups [OF d(1)]) simp
  then show ?thesis
    unfolding grouped_def using d(2,7,8) marks entry by blast
qed

text \<open>An unsorted group is ready to be split.\<close>

lemma grouped_ready:
  assumes g: "grouped buf h i iii vvv sg" and i: "i \<in> ranks buf" and pos: "0 \<le> get iii i"
  shows "ready buf h i (group_end vvv sg i + 1) (group_end vvv sg i) iii vvv sg"
proof -
  note d = groupedD [OF g]
  define gv where "gv = group_end vvv sg i"
  note c = closesD [OF d(2) [OF i], folded gv_def]
  have gb: "i \<le> gv" "gv \<le> int (length buf)" using c(1,2) by simp_all
  have in_g: "group_end vvv sg k = gv" if "k \<in> {i..<gv + 1}" for k
    by (rule c(3)) (use that in simp_all)
  have nonneg: "0 \<le> get iii k" if k: "k \<in> {i..<gv + 1}" for k
  proof (rule ccontr)
    assume n: "\<not> 0 \<le> get iii k"
    have "k \<in> ranks buf" using k i gb by simp
    then have "sorted_run iii vvv sg k (k - get iii k)" using d(4) n by simp
    then have "single vvv sg k" using n by (simp add: sorted_run_def)
    moreover have "k \<noteq> i" using n pos by blast
    then have "i < k" using k by simp
    then have "group_end vvv sg (k - 1) = gv" "k \<noteq> 0" using in_g [of "k - 1"] k i by simp_all
    ultimately show False using in_g [OF k] by (auto simp: single_def)
  qed
  have ends: "group_end vvv sg k < i \<or> k \<in> {i..<gv + 1} \<or> gv < group_end vvv sg k" if k: "k \<in> ranks buf" for k
    using d(8) [of k] closesD(1) [OF d(2) [OF k]] k by fastforce
  have bij: "sg ` ranks buf = ranks buf" using d(1) by (simp add: sane_def bij_betw_def)
  have of: "\<exists>k \<in> ranks buf. q = sg k" if "q \<in> ranks buf" for q using that bij by blast
  have "get iii k = sg k \<and> get vvv (sg k) = gv \<and> sg k + h \<le> int (length buf)" if k: "k \<in> {i..<gv + 1}" for k
  proof -
    have "k \<in> ranks buf" using k i gb by simp
    then show ?thesis
      using d(5,6) [of k] nonneg [OF k] in_g [OF k] k by (simp add: group_end_def)
  qed
  moreover have "get vvv q < i \<or> gv \<le> get vvv q" if q: "q \<in> ranks buf" for q
  proof -
    obtain k where k: "k \<in> ranks buf" "q = sg k" using of [OF q] by blast
    then show ?thesis using ends [OF k(1)] in_g [of k] by (auto simp: group_end_def)
  qed
  moreover have "q \<in> sg ` {i..<gv + 1}" if q: "q \<in> ranks buf" "get vvv q = gv" for q
  proof -
    obtain k where k: "k \<in> ranks buf" "q = sg k" using of [OF q(1)] by blast
    then have "group_end vvv sg k = gv" using q(2) by (simp add: group_end_def)
    then have "k \<in> {i..<gv + 1}" using ends [OF k(1)] gb(1) by linarith
    then show ?thesis using k(2) by blast
  qed
  ultimately show ?thesis
    unfolding ready_def gv_def [symmetric] using d(1) i gb by auto
qed


text \<open>An unsorted group has been split.\<close>

lemma refined_room:
  assumes f: "refined buf h s e iii vvv sg iii' vvv' sg'" and k: "k \<in> {s..<e}" and pos: "get iii' k \<noteq> -1"
    and s: "0 \<le> s" "e \<le> int (length buf) + 1"
  shows "get iii' k = sg' k \<and> sg' k + (h + h) \<le> int (length buf)"
proof -
  note c = refinedD [OF f]
  note ck = closesD [OF c(6) [OF k]]
  have "\<not> (group_end vvv' sg' k = k \<and> (k = s \<or> group_end vvv' sg' (k - 1) = k - 1))"
    and val: "get iii' k = sg' k"
    using c(7) [OF k] pos by (auto split: if_splits)
  then obtain j where j: "j \<in> {s..<e}" "j \<noteq> k" "group_end vvv' sg' j = group_end vvv' sg' k"
  proof (cases "group_end vvv' sg' k = k")
    case True
    then have kp: "k - 1 \<in> {s..<e}" "group_end vvv' sg' (k - 1) \<noteq> k - 1" using \<open>\<not> (_ \<and> _)\<close> k by auto
    note cp = closesD [OF c(6) [OF kp(1)]]
    have "k \<le> group_end vvv' sg' (k - 1)" using cp(1) kp(2) by simp
    then have "group_end vvv' sg' k = group_end vvv' sg' (k - 1)" by (intro cp(3)) simp_all
    then show ?thesis using that [OF kp(1)] by simp
  next
    case False
    have "group_end vvv' sg' (group_end vvv' sg' k) = group_end vvv' sg' k" by (rule ck(3) [OF ck(1) order_refl])
    then show ?thesis using that [of "group_end vvv' sg' k"] ck(1,2) k False by simp
  qed
  have r: "k \<in> ranks buf" "j \<in> ranks buf" using k j(1) s by simp_all
  have "sg' k \<noteq> sg' j" using sane_inj [OF c(1) r] j(2) by blast
  then have "sg' k + (h + h) \<le> int (length buf)"
    using alike_room [OF c(8) [OF k j(1) j(3) [symmetric]]] sane_range [OF c(1)] r c(1) by (simp add: sane_def)
  with val show ?thesis by simp
qed

text \<open>The groups outside the one that was split keep their ends, and those inside end inside.\<close>

lemma grouped_split_ends:
  assumes g: "grouped buf h i iii vvv sg" and i: "i \<in> ranks buf" and e_def: "e = group_end vvv sg i + 1"
    and f: "refined buf h i e iii vvv sg iii' vvv' sg'"
  shows "i < e" "e \<le> int (length buf) + 1"
    "k \<in> ranks buf \<Longrightarrow> k \<notin> {i..<e} \<Longrightarrow> sg' k = sg k \<and> group_end vvv' sg' k = group_end vvv sg k"
    "k \<in> {0..<i} \<Longrightarrow> group_end vvv' sg' k < i"
    "k \<in> {i..<e} \<Longrightarrow> i \<le> group_end vvv' sg' k \<and> group_end vvv' sg' k < e"
    "k \<in> ranks buf \<Longrightarrow> e \<le> k \<Longrightarrow> e \<le> group_end vvv' sg' k"
proof -
  note d = groupedD [OF g] and c = refinedD [OF f]
  show e: "i < e" "e \<le> int (length buf) + 1" using closesD(1,2) [OF d(2) [OF i]] by (simp_all add: e_def)
  have seg: "{i..<e} \<subseteq> ranks buf" using i e by auto
  have out: "sg' k = sg k \<and> group_end vvv' sg' k = group_end vvv sg k" if k: "k \<in> ranks buf" "k \<notin> {i..<e}" for k
  proof -
    have sg: "sg' k = sg k" by (rule c(2) [OF k(2)])
    have "sg k \<notin> sg ` {i..<e}" by (rule sane_apart [OF d(1) k(1) seg k(2)])
    then have "get vvv' (sg k) = get vvv (sg k)" by (rule c(5) [OF sane_range [OF d(1) k(1)]])
    with sg show ?thesis by (simp add: group_end_def)
  qed
  then show "k \<in> ranks buf \<Longrightarrow> k \<notin> {i..<e} \<Longrightarrow> sg' k = sg k \<and> group_end vvv' sg' k = group_end vvv sg k" by blast
  show "group_end vvv' sg' k < i" if "k \<in> {0..<i}"
    using out [of k] d(8) [OF that] that i by simp
  show "i \<le> group_end vvv' sg' k \<and> group_end vvv' sg' k < e" if "k \<in> {i..<e}"
    using closesD(1,2) [OF c(6) [OF that]] that by simp
  show "e \<le> group_end vvv' sg' k" if "k \<in> ranks buf" "e \<le> k"
    using out [of k] closesD(1) [OF d(2) [OF that(1)]] that by simp
qed

lemma grouped_split_closes:
  assumes g: "grouped buf h i iii vvv sg" and i: "i \<in> ranks buf" and e: "e = group_end vvv sg i + 1"
    and f: "refined buf h i e iii vvv sg iii' vvv' sg'" and k: "k \<in> ranks buf"
  shows "closes vvv' sg' (int (length buf) + 1) k"
proof (cases "k \<in> {i..<e}")
  case True
  show ?thesis by (rule closes_later [OF refinedD(6) [OF f True] grouped_split_ends(2) [OF g i e f]])
next
  case False
  note ck = closesD [OF groupedD(2) [OF g k]] and out = grouped_split_ends(3) [OF g i e f]
  note low = grouped_split_ends(4) [OF g i e f, of k]
  note ok = out [OF k False]
  have "group_end vvv' sg' j = group_end vvv' sg' k" if j: "k \<le> j" "j \<le> group_end vvv' sg' k" for j
  proof -
    have "j \<in> ranks buf" using j k ck(2) ok by simp
    moreover have "j \<notin> {i..<e}" using j low k False by (cases "k < i") auto
    ultimately have "group_end vvv' sg' j = group_end vvv sg j" using out by blast
    also have "\<dots> = group_end vvv sg k" by (rule ck(3)) (use j ok in simp_all)
    finally show ?thesis using ok by simp
  qed
  then show ?thesis unfolding closes_def using ck(1,2) ok by simp
qed

text \<open>A group boundary stays before the segment and behind it, so that single suffixes stay single.\<close>

lemma grouped_split_before:
  assumes g: "grouped buf h i iii vvv sg" and i: "i \<in> ranks buf" and e: "e = group_end vvv sg i + 1"
    and f: "refined buf h i e iii vvv sg iii' vvv' sg'" and j: "j \<in> {i, e}" "j \<noteq> 0"
  shows "group_end vvv' sg' (j - 1) = j - 1"
proof -
  note n = grouped_split_ends [OF g i e f]
  have r: "j - 1 \<in> ranks buf" using j i n(1,2) by auto
  have "group_end vvv' sg' (j - 1) < j"
    using j n(4) [of "j - 1"] n(5) [of "j - 1"] i n(1) by auto
  then show ?thesis using closesD(1) [OF grouped_split_closes [OF g i e f r]] by simp
qed

lemma grouped_split_single:
  assumes g: "grouped buf h i iii vvv sg" and i: "i \<in> ranks buf" and e: "e = group_end vvv sg i + 1"
    and f: "refined buf h i e iii vvv sg iii' vvv' sg'"
    and j: "j \<in> ranks buf" "j \<notin> {i..<e}" "single vvv sg j"
  shows "single vvv' sg' j"
proof -
  note out = grouped_split_ends(3) [OF g i e f]
  show ?thesis
  proof (cases "j = e \<or> j = 0")
    case True
    then show ?thesis using grouped_split_before [OF g i e f, of e] j out [OF j(1,2)] by (auto simp: single_def)
  next
    case False
    then have "j - 1 \<in> ranks buf" "j - 1 \<notin> {i..<e}" using j by auto
    then show ?thesis using j(3) out [OF j(1,2)] out [of "j - 1"] by (simp add: single_def)
  qed
qed

lemma grouped_split_marks:
  assumes g: "grouped buf h i iii vvv sg" and i: "i \<in> ranks buf" and pos: "0 \<le> get iii i"
    and e: "e = group_end vvv sg i + 1" and f: "refined buf h i e iii vvv sg iii' vvv' sg'"
    and k: "k \<in> ranks buf" "get iii' k < 0"
  shows "k - get iii' k \<le> int (length buf) + 1 \<and> sorted_run iii' vvv' sg' k (k - get iii' k)"
proof -
  note d = groupedD [OF g] and c = refinedD [OF f]
  have iout: "get iii' j = get iii j" if "j \<in> ranks buf" "j \<notin> {i..<e}" for j
    using c(4) [of j] that by simp
  show ?thesis
  proof (cases "k \<in> {i..<e}")
    case True
    have "sg' k \<in> ranks buf" by (rule sane_range [OF c(1) k(1)])
    then have "get iii' k = -1" "group_end vvv' sg' k = k" "k = i \<or> group_end vvv' sg' (k - 1) = k - 1"
      using c(7) [OF True] k(2) by (auto split: if_splits)
    moreover have "{k..<k + 1} = {k}" by auto
    ultimately show ?thesis
      using grouped_split_before [OF g i e f, of i] k by (auto simp: sorted_run_def single_def)
  next
    case False
    have same: "get iii' k = get iii k" by (rule iout [OF k(1) False])
    then have run: "k - get iii k \<le> int (length buf) + 1" "sorted_run iii vvv sg k (k - get iii k)"
      using d(3,4) [OF k(1)] k(2) by simp_all
    have "single vvv' sg' j \<and> get iii' j < 0" if j: "j \<in> {k..<k - get iii k}" for j
    proof -
      have jr: "j \<in> ranks buf" "single vvv sg j" "get iii j < 0" using j k run by (simp_all add: sorted_run_def)
      have "j \<notin> {i..<e}"
      proof (cases "k < i")
        case True
        have "i \<notin> {k..<k - get iii k}" using run(2) pos unfolding sorted_run_def by (meson not_le)
        then show ?thesis using True j by simp
      qed (use False j in simp)
      then show ?thesis using grouped_split_single [OF g i e f jr(1) _ jr(2)] iout [OF jr(1)] jr(3) by simp
    qed
    then show ?thesis using run(1) same by (simp add: sorted_run_def)
  qed
qed

lemma grouped_split_deep:
  assumes g: "grouped buf h i iii vvv sg" and i: "i \<in> ranks buf" and e: "e = group_end vvv sg i + 1"
    and f: "refined buf h i e iii vvv sg iii' vvv' sg'"
    and jk: "j \<in> ranks buf" "k \<in> ranks buf" "group_end vvv' sg' j = group_end vvv' sg' k" "group_end vvv' sg' k < e"
  shows "alike buf (h + h) (sg' j) (sg' k)"
proof -
  note d = groupedD [OF g] and n = grouped_split_ends [OF g i e f]
  have part: "k < e" "j < e" using n(6) jk by force+
  then consider "j \<in> {i..<e}" "k \<in> {i..<e}" | "j < i" "k < i" | "j < i" "k \<in> {i..<e}" | "k < i" "j \<in> {i..<e}"
    using jk by fastforce
  then show ?thesis
  proof cases
    case 1
    then show ?thesis by (rule refinedD(8) [OF f _ _ jk(3)])
  next
    case 2
    then have "j \<notin> {i..<e}" "k \<notin> {i..<e}" "group_end vvv sg k < i" using d(8) [of k] jk(2) by simp_all
    then show ?thesis using n(3) [OF jk(1)] n(3) [OF jk(2)] d(7) [OF jk(1,2)] jk(3) by simp
  next
    case 3
    then show ?thesis using n(4) [of j] n(5) [of k] jk by simp
  next
    case 4
    then show ?thesis using n(4) [of k] n(5) [of j] jk by simp
  qed
qed

lemma grouped_split:
  assumes g: "grouped buf h i iii vvv sg" and i: "i \<in> ranks buf" and pos: "0 \<le> get iii i"
    and f: "refined buf h i (group_end vvv sg i + 1) iii vvv sg iii' vvv' sg'"
  shows "grouped buf h (group_end vvv sg i + 1) iii' vvv' sg'"
proof -
  obtain e where e: "e = group_end vvv sg i + 1" by blast
  note f = f [folded e]
  note d = groupedD [OF g] and n = grouped_split_ends [OF g i e f]
  have entry: "get iii' k = sg' k \<and> sg' k + (if k < e then h + h else h) \<le> int (length buf)"
    if k: "k \<in> ranks buf" "0 \<le> get iii' k" for k
  proof (cases "k \<in> {i..<e}")
    case True
    have "get iii' k \<noteq> -1" "0 \<le> i" using k(2) i by simp_all
    from refined_room [OF f True this n(2)] True show ?thesis by simp
  next
    case False
    have "get iii' k = get iii k" using refinedD(4) [OF f, of k] k(1) False by simp
    then show ?thesis using n(3) [OF k(1) False] d(5,6) [OF k(1)] k(2) False n(1) by auto
  qed
  have ends: "group_end vvv' sg' k < e" if "k \<in> {0..<e}" for k
    using n(1) n(4) [of k] n(5) [of k] that by (cases "k < i") auto
  note cl = grouped_split_closes [OF g i e f] and marks = grouped_split_marks [OF g i pos e f]
    and deep = grouped_split_deep [OF g i e f]
  show ?thesis
    unfolding grouped_def e [symmetric] using refinedD(1) [OF f] cl marks entry deep ends by blast
qed


subsection \<open>A pass\<close>

definition all_sorted :: "bytes \<Rightarrow> int list \<Rightarrow> bool" where
  "all_sorted buf iii \<longleftrightarrow> (\<forall>k \<in> ranks buf. get iii k < 0)"

text \<open>A pass with \<open>ln\<close> sorted suffixes counted before \<open>i\<close>.\<close>

definition passing :: "bytes \<Rightarrow> int \<Rightarrow> int list \<Rightarrow> int list \<Rightarrow> int list \<Rightarrow> int \<Rightarrow> int \<Rightarrow> (int \<Rightarrow> int) \<Rightarrow> bool" where
  "passing buf h iii0 iii vvv i ln sg \<longleftrightarrow> grouped buf h i iii vvv sg \<and>
     0 \<le> ln \<and> ln \<le> i \<and> i \<le> int (length buf) + 1 \<and> sorted_run iii vvv sg (i - ln) i \<and>
     (all_sorted buf iii0 \<longrightarrow> ln = i \<and> iii = iii0)"

definition join_run :: "int \<Rightarrow> int \<Rightarrow> int list \<Rightarrow> int list run" where
  "join_run i ln iii = (if ln \<noteq> 0 then upd iii (i - ln) (- ln) else gives iii)"

lemma join_run_returns:
  assumes "passing buf h iii0 iii vvv i ln sg"
  shows "returns (join_run i ln iii) (\<lambda>iii'. grouped buf h i iii' vvv sg \<and>
    (\<forall>k \<ge> i. get iii' k = get iii k) \<and> (0 < ln \<longrightarrow> get iii' (i - ln) = - ln))"
proof (cases "ln = 0")
  case True
  then show ?thesis using assms by (simp add: join_run_def passing_def)
next
  case False
  have p: "grouped buf h i iii vvv sg" "0 < ln" "ln \<le> i" "i \<le> int (length buf) + 1"
    "sorted_run iii vvv sg (i - ln) i"
    using assms False by (simp_all add: passing_def)
  then have "0 \<le> i - ln" "i - ln < int (length iii)"
    using sane_lengths(1) [OF groupedD(1) [OF p(1)]] by simp_all
  then show ?thesis
    using False grouped_join [OF p(1,5,2-4)] p(2) by (simp add: join_run_def get_put)
qed

lemma passing_step:
  assumes p: "passing buf h iii0 iii vvv i ln sg" and i: "i < int (length buf) + 1"
  shows "returns (after (idx iii i) (\<lambda>a.
          if a < 0 then gives (iii, vvv, i - a, ln - a)
          else after (join_run i ln iii) (\<lambda>iii.
            after (idx iii i) (\<lambda>a. after (idx vvv a) (\<lambda>v.
            let ln = v + 1 - i in
            after (split_group h iii vvv i ln) (\<lambda>(iii, vvv). gives (iii, vvv, i + ln, 0)))))))
    (\<lambda>(iii', vvv', i', ln'). i < i' \<and> (\<exists>sg'. passing buf h iii0 iii' vvv' i' ln' sg'))"
proof -
  have g: "grouped buf h i iii vvv sg" and ln: "0 \<le> ln" "ln \<le> i"
    and run: "sorted_run iii vvv sg (i - ln) i" and z: "all_sorted buf iii0 \<Longrightarrow> ln = i \<and> iii = iii0"
    using p by (simp_all add: passing_def)
  have ir: "i \<in> ranks buf" using i ln by simp
  note d = groupedD [OF g]
  have len: "int (length iii) = int (length buf) + 1" using sane_lengths(1) [OF d(1)] .
  have idx: "idx iii i = gives (get iii i)" using ir len by (simp add: idx_def)
  show ?thesis
  proof (cases "get iii i < 0")
    case True
    have "sorted_run iii vvv sg (i - ln) (i - get iii i)"
      by (rule sorted_run_join [OF run d(4) [OF ir True]])
    then have "passing buf h iii0 iii vvv (i - get iii i) (ln - get iii i) sg"
      unfolding passing_def using grouped_skip [OF g ir True] d(3) [OF ir True] ln z True by simp
    then show ?thesis using True by (simp add: idx) blast
  next
    case False
    have nz: "\<not> all_sorted buf iii0"
    proof
      assume "all_sorted buf iii0"
      then have "get iii i < 0" using z ir unfolding all_sorted_def by blast
      with False show False by blast
    qed
    have tail: "returns (after (idx iii1 i) (\<lambda>a. after (idx vvv a) (\<lambda>v. let ln = v + 1 - i in
          after (split_group h iii1 vvv i ln) (\<lambda>(iii, vvv). gives (iii, vvv, i + ln, 0)))))
        (\<lambda>(iii', vvv', i', ln'). i < i' \<and> (\<exists>sg'. passing buf h iii0 iii' vvv' i' ln' sg'))"
      if g1: "grouped buf h i iii1 vvv sg" and i1: "get iii1 i = get iii i" for iii1
    proof -
      note d1 = groupedD [OF g1]
      have pos: "0 \<le> get iii1 i" using i1 False by simp
      have sgi: "get iii1 i = sg i" by (rule d1(5) [OF ir pos])
      have idx1: "idx iii1 i = gives (sg i)" "idx vvv (sg i) = gives (group_end vvv sg i)"
        using ir sane_lengths [OF d1(1)] sane_range [OF d1(1) ir] sgi by (simp_all add: idx_def group_end_def)
      let ?ln = "group_end vvv sg i + 1 - i"
      have ge: "i \<le> group_end vvv sg i" "group_end vvv sg i \<le> int (length buf)"
        using closesD(1,2) [OF d1(2) [OF ir]] by simp_all
      have "ready buf h i (i + ?ln) (group_end vvv sg i) iii1 vvv sg"
        using grouped_ready [OF g1 ir pos] by simp
      from split_group_returns [OF this]
      have sp: "returns (split_group h iii1 vvv i ?ln)
          (\<lambda>(iii', vvv'). \<exists>sg'. refined buf h i (group_end vvv sg i + 1) iii1 vvv sg iii' vvv' sg')" by simp
      have new: "passing buf h iii0 iii' vvv' (i + ?ln) 0 sg'"
        if "refined buf h i (group_end vvv sg i + 1) iii1 vvv sg iii' vvv' sg'" for iii' vvv' sg'
        unfolding passing_def using grouped_split [OF g1 ir pos that] nz ge ir by (simp add: sorted_run_def)
      show ?thesis
        unfolding idx1 after_gives Let_def
      proof (rule returns_afterI [OF sp], clarify, goal_cases)
        case (1 iii' vvv' sg')
        have "\<exists>sg'. passing buf h iii0 iii' vvv' (i + ?ln) 0 sg'" using new [OF 1] by blast
        then show ?case using ge(1) by (simp only: returns_gives prod.case) simp
      qed
    qed
    show ?thesis
      using False unfolding idx after_gives
      by (simp only: if_False, intro returns_afterI [OF join_run_returns [OF p]] tail) simp_all
  qed
qed

lemma sort_pass_returns:
  assumes "grouped buf h 0 iii vvv sg" and n: "n = int (length buf)"
  shows "returns (sort_pass n h iii vvv) (\<lambda>(iii', vvv', i, ln). \<exists>sg'. passing buf h iii iii' vvv' i ln sg' \<and> i = n + 1)"
  unfolding sort_pass_def join_run_def [symmetric]
proof (rule loop_returns [where f = "\<lambda>(iii', vvv', i, ln). nat (n + 1 - i)"
      and I = "\<lambda>(iii', vvv', i, ln). \<exists>sg'. passing buf h iii iii' vvv' i ln sg'"], goal_cases)
  case 1
  show ?case using assms by (auto simp: passing_def sorted_run_def)
next
  case (2 s)
  obtain iii' vvv' i ln where s: "s = (iii', vvv', i, ln)" by (cases s)
  with 2 obtain sg' where p: "passing buf h iii iii' vvv' i ln sg'" by auto
  have i: "i < int (length buf) + 1" using 2(2) s n by simp
  show ?case
    unfolding s prod.case
    by (rule returns_mono [OF passing_step [OF p i]]) (use i n in auto)
next
  case (3 s)
  then show ?case by (cases s) (auto simp: passing_def n)
qed

text \<open>After a pass the groups agree twice as far.\<close>

lemma grouped_doubled:
  assumes g: "grouped buf h (int (length buf) + 1) iii vvv sg"
  shows "grouped buf (h + h) 0 iii vvv sg"
proof -
  note d = groupedD [OF g]
  have bij: "sg ` ranks buf = ranks buf" using d(1) by (simp add: sane_def bij_betw_def)
  have "alike buf (h + h) p q" if pq: "p \<in> ranks buf" "q \<in> ranks buf" "get vvv p = get vvv q" for p q
  proof -
    obtain j k where jk: "j \<in> ranks buf" "p = sg j" "k \<in> ranks buf" "q = sg k" using pq bij by blast
    have "group_end vvv sg k < int (length buf) + 1" by (rule closesD(2) [OF d(2) [OF jk(3)]])
    then show ?thesis using d(7) [OF jk(1,3)] pq(3) jk by (simp add: group_end_def)
  qed
  then have "sane buf (h + h) iii vvv sg" using d(1) by (simp add: sane_def groups_alike_def)
  moreover have "get iii k = sg k \<and> sg k + (if k < 0 then (h + h) + (h + h) else h + h) \<le> int (length buf)"
    if k: "k \<in> ranks buf" "0 \<le> get iii k" for k
    using d(5,6) [OF k] k by simp
  moreover have "alike buf (h + h + (h + h)) (sg j) (sg k)" if "k \<in> ranks buf" "group_end vvv sg k < 0" for j k
    using closesD(1) [OF d(2) [OF that(1)]] that by simp
  moreover have "group_end vvv sg k < 0" if "k \<in> {0..<0 :: int}" for k
    using that by simp
  ultimately show ?thesis
    unfolding grouped_def using d(2-4) by blast
qed

lemma sort_passes_returns:
  assumes g: "grouped buf 1 0 iii vvv sg" and n: "n = int (length buf)"
  shows "returns (sort_passes n iii vvv)
    (\<lambda>(iii', vvv', h). \<exists>sg'. grouped buf h 0 iii' vvv' sg' \<and> sort_done n iii')"
  unfolding sort_passes_def join_run_def [symmetric]
proof (rule loop_returns [where f = "\<lambda>(iii', vvv', h). if sort_done n iii' then 0 else Suc (nat (n + 1 - h))"
      and I = "\<lambda>(iii', vvv', h). \<exists>sg'. grouped buf h 0 iii' vvv' sg'"], goal_cases)
  case (2 s)
  obtain iii1 vvv1 h where s: "s = (iii1, vvv1, h)" by (cases s)
  with 2 obtain sg1 where g1: "grouped buf h 0 iii1 vvv1 sg1" by auto
  note d1 = groupedD [OF g1]
  have h: "0 < h" using d1(1) by (simp add: sane_def)
  have all: "all_sorted buf iii1" if nh: "n < h"
    unfolding all_sorted_def
  proof
    fix k assume k: "k \<in> ranks buf"
    show "get iii1 k < 0"
    proof (rule ccontr)
      assume "\<not> get iii1 k < 0"
      then have "sg1 k + h \<le> int (length buf)" using d1(6) [OF k] k by simp
      then show False using sane_range [OF d1(1) k] nh n by simp
    qed
  qed
  have nd: "\<not> sort_done n iii1" using 2(2) s by simp
  show ?case
    unfolding s prod.case
  proof (rule returns_afterI [OF sort_pass_returns [OF g1 n]], clarify, goal_cases)
    case (1 iii2 vvv2 i ln sg2)
    have gr: "grouped buf (h + h) 0 iii3 vvv2 sg2" if "grouped buf h (n + 1) iii3 vvv2 sg2" for iii3
      using grouped_doubled that n by simp
    have done_: "sort_done n iii3" if "n < h" "0 < ln \<longrightarrow> get iii3 (n + 1 - ln) = - ln" for iii3
    proof -
      have "ln = n + 1" using 1 all [OF that(1)] by (simp add: passing_def)
      then show ?thesis using that(2) n by (simp add: sort_done_def)
    qed
    show ?case
    proof (rule returns_afterI [OF join_run_returns [OF 1]], goal_cases)
      case (1 iii3)
      then have "\<exists>sg'. grouped buf (h + h) 0 iii3 vvv2 sg'" using gr by blast
      moreover have "sort_done n iii3 \<or> nat (n + 1 - (h + h)) < nat (n + 1 - h)"
        using 1 done_ h by (cases "n < h") auto
      ultimately show ?case using nd by auto
    qed
  qed
qed (use g in auto)

end
