(* ===== verification/Suffix_Array.thy ===== *)
theory Suffix_Array
  imports Suffix_Passes
begin

section \<open>The suffix array of bsdiff\<close>

text \<open>
  The grouping by the first byte that the passes start from, and the result: \<open>qsufsort\<close> returns, for
  every input, the positions of the suffixes (with the empty one) in increasing order of the
  suffixes.
\<close>

subsection \<open>Counting bytes\<close>

definition byte_at :: "bytes \<Rightarrow> int \<Rightarrow> int" where
  "byte_at buf i = uint (get buf i)"

text \<open>The positions before \<open>m\<close> with a byte that satisfies \<open>P\<close>.\<close>

definition having :: "bytes \<Rightarrow> int \<Rightarrow> (int \<Rightarrow> bool) \<Rightarrow> int" where
  "having buf m P = tallied (\<lambda>i. P (byte_at buf i)) 0 m"

abbreviation below :: "bytes \<Rightarrow> int \<Rightarrow> int" where
  "below buf c \<equiv> having buf (int (length buf)) (\<lambda>b. b < c)"

abbreviation up_to :: "bytes \<Rightarrow> int \<Rightarrow> int" where
  "up_to buf c \<equiv> having buf (int (length buf)) (\<lambda>b. b \<le> c)"

lemma byte_at_range: "0 \<le> byte_at buf i" "byte_at buf i < 256"
  using unsigned_less [of "get buf i", where 'a = int] by (simp_all add: byte_at_def)

lemma having_Suc: "0 \<le> m \<Longrightarrow> having buf (m + 1) P = having buf m P + (if P (byte_at buf m) then 1 else 0)"
  by (simp add: having_def tallied_Suc)

lemma having_0 [simp]: "having buf 0 P = 0"
  by (simp add: having_def)

lemma having_add:
  assumes "\<And>b. \<not> (P b \<and> Q b)" and "\<And>b. R b \<longleftrightarrow> P b \<or> Q b"
  shows "having buf m R = having buf m P + having buf m Q"
proof -
  have "{0..<m} \<inter> {i. R (byte_at buf i)} =
      ({0..<m} \<inter> {i. P (byte_at buf i)}) \<union> ({0..<m} \<inter> {i. Q (byte_at buf i)})"
    using assms(2) by auto
  then have "card ({0..<m} \<inter> {i. R (byte_at buf i)}) =
      card ({0..<m} \<inter> {i. P (byte_at buf i)}) + card ({0..<m} \<inter> {i. Q (byte_at buf i)})"
    using assms(1) by (simp add: card_Un_disjoint disjoint_iff)
  then show ?thesis by (simp add: having_def tallied_def)
qed

lemma up_to_below: "up_to buf c = below buf c + having buf (int (length buf)) (\<lambda>b. b = c)"
  by (rule having_add) auto

lemma up_to_step: "up_to buf c = up_to buf (c - 1) + having buf (int (length buf)) (\<lambda>b. b = c)"
  by (rule having_add) auto

lemma having_mono: "m \<le> m' \<Longrightarrow> (\<And>b. P b \<Longrightarrow> Q b) \<Longrightarrow> having buf m P \<le> having buf m' Q"
  unfolding having_def tallied_def by (simp, rule card_mono) auto

lemma having_nonneg [simp]: "0 \<le> having buf m P"
  by (simp add: having_def tallied_def)

lemma having_le: "0 \<le> m \<Longrightarrow> having buf m P \<le> m"
proof -
  assume "0 \<le> m"
  have "card ({0..<m} \<inter> {i. P (byte_at buf i)}) \<le> card {0..<m}" by (rule card_mono) auto
  then show ?thesis using \<open>0 \<le> m\<close> by (simp add: having_def tallied_def)
qed

text \<open>The first rank of each suffix: behind those with a smaller byte and the earlier ones with the same.\<close>

definition rank1 :: "bytes \<Rightarrow> int \<Rightarrow> int" where
  "rank1 buf i = below buf (byte_at buf i) + having buf i (\<lambda>b. b = byte_at buf i) + 1"

lemma rank1_range:
  assumes "0 \<le> i" and "i < int (length buf)"
  shows "below buf (byte_at buf i) < rank1 buf i" "rank1 buf i \<le> up_to buf (byte_at buf i)"
    "1 \<le> rank1 buf i" "rank1 buf i \<le> int (length buf)"
proof -
  let ?c = "byte_at buf i"
  show "below buf ?c < rank1 buf i" by (simp add: rank1_def add_strict_increasing2)
  have "having buf (i + 1) (\<lambda>b. b = ?c) \<le> having buf (int (length buf)) (\<lambda>b. b = ?c)"
    by (rule having_mono) (use assms in simp_all)
  then show le: "rank1 buf i \<le> up_to buf ?c"
    using assms by (simp add: rank1_def up_to_below having_Suc)
  show "1 \<le> rank1 buf i" by (simp add: rank1_def)
  show "rank1 buf i \<le> int (length buf)" using le having_le [of "int (length buf)" buf] by (meson of_nat_0_le_iff order_trans)
qed

lemma up_to_less:
  assumes "c < byte_at buf i" and "0 \<le> i" and "i < int (length buf)"
  shows "up_to buf c < rank1 buf i"
proof -
  have "up_to buf c \<le> below buf (byte_at buf i)" by (rule having_mono) (use assms in auto)
  then show ?thesis using rank1_range(1) [OF assms(2,3)] by simp
qed

lemma rank1_byte:
  assumes "0 \<le> i" "i < int (length buf)" and "below buf c < rank1 buf i" and "rank1 buf i \<le> up_to buf c"
  shows "byte_at buf i = c"
proof (rule ccontr)
  assume "byte_at buf i \<noteq> c"
  then consider "c < byte_at buf i" | "byte_at buf i < c" by linarith
  then show False
  proof cases
    case 1
    then show ?thesis using up_to_less [OF _ assms(1,2)] assms(4) by force
  next
    case 2
    have "up_to buf (byte_at buf i) \<le> below buf c" by (rule having_mono) (use 2 in auto)
    then show ?thesis using rank1_range(2) [OF assms(1,2)] assms(3) by simp
  qed
qed

lemma rank1_inj:
  assumes "0 \<le> i" "i < j" "j < int (length buf)"
  shows "rank1 buf i \<noteq> rank1 buf j"
proof
  assume eq: "rank1 buf i = rank1 buf j"
  have "byte_at buf i = byte_at buf j"
    by (rule rank1_byte) (use assms eq rank1_range [of j buf] in auto)
  moreover have "having buf (i + 1) (\<lambda>b. b = byte_at buf i) \<le> having buf j (\<lambda>b. b = byte_at buf i)"
    by (rule having_mono) (use assms in simp_all)
  ultimately show False using eq assms by (simp add: rank1_def having_Suc)
qed


subsection \<open>The loops of the first grouping\<close>

definition buckets_are :: "(int \<Rightarrow> int) \<Rightarrow> int list \<Rightarrow> bool" where
  "buckets_are f bs \<longleftrightarrow> int (length bs) = 256 \<and> (\<forall>c \<in> {0..<256}. get bs c = f c)"

lemma buckets_areD:
  "buckets_are f bs \<Longrightarrow> int (length bs) = 256" "buckets_are f bs \<Longrightarrow> 0 \<le> c \<Longrightarrow> c < 256 \<Longrightarrow> get bs c = f c"
  by (simp_all add: buckets_are_def)

lemma idx_buf: "0 \<le> i \<Longrightarrow> i < int (length buf) \<Longrightarrow> idx buf i = gives (get buf i)"
  by (simp add: idx_def)

lemma count_bytes_returns:
  "returns (count_bytes buf) (\<lambda>(bs, i). buckets_are (\<lambda>c. having buf (int (length buf)) (\<lambda>b. b = c)) bs)"
  unfolding count_bytes_def
proof (rule loop_returns [where f = "\<lambda>(bs, i). nat (int (length buf) - i)" and I = "\<lambda>(bs, i).
      0 \<le> i \<and> i \<le> int (length buf) \<and> buckets_are (\<lambda>c. having buf i (\<lambda>b. b = c)) bs"], goal_cases)
  case 1
  show ?case by (auto simp: buckets_are_def get_def nat_less_iff)
next
  case (2 s)
  obtain bs i where s: "s = (bs, i)" by (cases s)
  have i: "0 \<le> i" "i < int (length buf)" and b: "buckets_are (\<lambda>c. having buf i (\<lambda>b. b = c)) bs"
    using 2 by (simp_all add: s)
  have "buckets_are (\<lambda>c. having buf (i + 1) (\<lambda>b. b = c)) (put bs (byte_at buf i) (get bs (byte_at buf i) + 1))"
    using b byte_at_range [of buf i] i by (auto simp: buckets_are_def get_put having_Suc)
  then show ?case
    using i buckets_areD(1) [OF b] byte_at_range [of buf i] by (simp add: s idx_buf byte_at_def)
next
  case (3 s)
  then have "snd s = int (length buf)" by (auto split: prod.splits)
  then show ?case using 3 by (auto split: prod.splits)
qed

lemma add_up_returns:
  assumes "buckets_are (\<lambda>c. having buf (int (length buf)) (\<lambda>b. b = c)) bs"
  shows "returns (add_up bs) (\<lambda>(bs', i). buckets_are (up_to buf) bs')"
  unfolding add_up_def
proof (rule loop_returns [where f = "\<lambda>(bs', i). nat (256 - i)" and I = "\<lambda>(bs', i). 1 \<le> i \<and> i \<le> 256 \<and>
      buckets_are (\<lambda>c. if c < i then up_to buf c else having buf (int (length buf)) (\<lambda>b. b = c)) bs'"], goal_cases)
  case 1
  have "up_to buf 0 = having buf (int (length buf)) (\<lambda>b. b = 0)"
    by (simp add: having_def tallied_def) (rule arg_cong [where f = card], use byte_at_range in \<open>auto simp: order_antisym\<close>)
  then have "get bs c = (if c < 1 then up_to buf c else having buf (int (length buf)) (\<lambda>b. b = c))"
    if "0 \<le> c" "c < 256" for c
    using buckets_areD(2) [OF assms that] that by (cases "c = 0") simp_all
  then show ?case using buckets_areD(1) [OF assms] by (simp add: buckets_are_def)
next
  case (2 s)
  obtain bs' i where s: "s = (bs', i)" by (cases s)
  have i: "1 \<le> i" "i < 256"
    and b: "buckets_are (\<lambda>c. if c < i then up_to buf c else having buf (int (length buf)) (\<lambda>b. b = c)) bs'"
    using 2 by (simp_all add: s)
  have "get bs' i + get bs' (i - 1) = up_to buf i"
    using buckets_areD(2) [OF b] i up_to_step [of buf i] by simp
  then have "buckets_are (\<lambda>c. if c < i + 1 then up_to buf c else having buf (int (length buf)) (\<lambda>b. b = c))
      (put bs' i (get bs' i + get bs' (i - 1)))"
    using b i by (auto simp: buckets_are_def get_put)
  then show ?case using i buckets_areD(1) [OF b] by (simp add: s)
next
  case (3 s)
  then have "snd s = 256" by (auto split: prod.splits)
  then show ?case using 3 by (auto simp: buckets_are_def split: prod.splits)
qed

lemma shift_up_returns:
  assumes "buckets_are (up_to buf) bs"
  shows "returns (after (shift_up bs) (\<lambda>(bs, i). upd bs 0 0)) (buckets_are (below buf))"
proof -
  have "returns (shift_up bs) (\<lambda>(bs', i). buckets_are (\<lambda>c. if c = 0 then up_to buf 0 else below buf c) bs')"
    unfolding shift_up_def
  proof (rule loop_returns [where f = "\<lambda>(bs', i). nat i" and I = "\<lambda>(bs', i). 0 \<le> i \<and> i \<le> 255 \<and>
        buckets_are (\<lambda>c. if c \<le> i then up_to buf c else below buf c) bs'"], goal_cases)
    case 1
    show ?case using assms by (auto simp: buckets_are_def)
  next
    case (2 s)
    obtain bs' i where s: "s = (bs', i)" by (cases s)
    have i: "0 < i" "i \<le> 255" and b: "buckets_are (\<lambda>c. if c \<le> i then up_to buf c else below buf c) bs'"
      using 2 by (simp_all add: s)
    have "get bs' (i - 1) = below buf i"
      using buckets_areD(2) [OF b, of "i - 1"] i by simp
    then have "buckets_are (\<lambda>c. if c \<le> i - 1 then up_to buf c else below buf c) (put bs' i (get bs' (i - 1)))"
      using b i by (auto simp: buckets_are_def get_put)
    then show ?case using i buckets_areD(1) [OF b] by (simp add: s)
  next
    case (3 s)
    then have "snd s = 0" by (auto split: prod.splits)
    then show ?case using 3 by (auto simp: buckets_are_def split: prod.splits)
  qed
  then show ?thesis
  proof (rule returns_afterI, clarify, goal_cases)
    case (1 bs' i)
    have "\<not> byte_at buf x < 0" for x using byte_at_range(1) [of buf x] by simp
    then have "below buf 0 = 0" by (simp add: having_def tallied_def)
    then show ?case using 1 by (auto simp: buckets_are_def get_put)
  qed
qed


lemma place_bytes_returns:
  assumes b0: "buckets_are (below buf) bs" and len: "int (length iii) = int (length buf) + 1"
  shows "returns (place_bytes buf iii bs) (\<lambda>(iii', bs', i). buckets_are (up_to buf) bs' \<and> length iii' = length iii \<and>
    (\<forall>j \<in> {0..<int (length buf)}. get iii' (rank1 buf j) = j))"
  unfolding place_bytes_def
proof (rule loop_returns [where f = "\<lambda>(iii', bs', i). nat (int (length buf) - i)" and I = "\<lambda>(iii', bs', i).
      0 \<le> i \<and> i \<le> int (length buf) \<and> length iii' = length iii \<and>
      buckets_are (\<lambda>c. below buf c + having buf i (\<lambda>b. b = c)) bs' \<and>
      (\<forall>j \<in> {0..<i}. get iii' (rank1 buf j) = j)"], goal_cases)
  case 1
  show ?case using b0 by (simp add: buckets_are_def)
next
  case (2 s)
  obtain iii' bs' i where s: "s = (iii', bs', i)" by (cases s)
  have i: "0 \<le> i" "i < int (length buf)" and l: "length iii' = length iii"
    and b: "buckets_are (\<lambda>c. below buf c + having buf i (\<lambda>b. b = c)) bs'"
    and pl: "\<And>j. j \<in> {0..<i} \<Longrightarrow> get iii' (rank1 buf j) = j"
    using 2 by (simp_all add: s)
  let ?c = "byte_at buf i"
  have m: "get bs' ?c + 1 = rank1 buf i"
    using buckets_areD(2) [OF b byte_at_range] by (simp add: rank1_def)
  have "buckets_are (\<lambda>c. below buf c + having buf (i + 1) (\<lambda>b. b = c)) (put bs' ?c (get bs' ?c + 1))"
    using b byte_at_range [of buf i] i by (auto simp: buckets_are_def get_put having_Suc)
  moreover have r: "0 \<le> rank1 buf i" "rank1 buf i < int (length iii')"
    using rank1_range(3,4) [OF i] l len by simp_all
  moreover have "get (put iii' (rank1 buf i) i) (rank1 buf j) = j" if j: "j \<in> {0..<i + 1}" for j
  proof (cases "j = i")
    case False
    then have "rank1 buf j \<noteq> rank1 buf i" "0 \<le> rank1 buf j" using rank1_inj [of j i buf] rank1_range(3) [of j buf] j i by auto
    then show ?thesis using r pl [of j] j False by (simp add: get_put)
  qed (use r in \<open>simp add: get_put\<close>)
  ultimately show ?case
    using i l buckets_areD(1) [OF b] byte_at_range [of buf i] m by (simp add: s idx_buf byte_at_def)
next
  case (3 s)
  then have "snd (snd s) = int (length buf)" by (auto split: prod.splits)
  then show ?case using 3 by (auto simp: up_to_below split: prod.splits)
qed

lemma first_numbers_returns:
  assumes b: "buckets_are (up_to buf) bs" and len: "int (length vvv) = int (length buf) + 1"
  shows "returns (first_numbers buf bs vvv) (\<lambda>(vvv', i). length vvv' = length vvv \<and>
    (\<forall>j \<in> {0..<int (length buf)}. get vvv' j = up_to buf (byte_at buf j)))"
  unfolding first_numbers_def
proof (rule loop_returns [where f = "\<lambda>(vvv', i). nat (int (length buf) - i)" and I = "\<lambda>(vvv', i).
      0 \<le> i \<and> i \<le> int (length buf) \<and> length vvv' = length vvv \<and>
      (\<forall>j \<in> {0..<i}. get vvv' j = up_to buf (byte_at buf j))"], goal_cases)
  case (2 s)
  obtain vvv' i where s: "s = (vvv', i)" by (cases s)
  have i: "0 \<le> i" "i < int (length buf)" using 2 by (simp_all add: s)
  have "at_byte bs buf i = gives (up_to buf (byte_at buf i))"
    using i buckets_areD(1) [OF b] buckets_areD(2) [OF b byte_at_range [of buf i]] byte_at_range [of buf i]
    by (simp add: at_byte_def idx_buf) (simp add: idx_def byte_at_def)
  then show ?case using 2 i len by (auto simp: s get_put)
qed (auto split: prod.splits)

definition lone :: "bytes \<Rightarrow> int \<Rightarrow> int \<Rightarrow> bool" where
  "lone buf m k \<longleftrightarrow> (\<exists>c \<in> {1..<m}. up_to buf c = up_to buf (c - 1) + 1 \<and> k = up_to buf c)"

lemma lone_Suc:
  "1 \<le> m \<Longrightarrow> lone buf (m + 1) k \<longleftrightarrow> lone buf m k \<or> (up_to buf m = up_to buf (m - 1) + 1 \<and> k = up_to buf m)"
proof -
  assume "1 \<le> m"
  then have "{1..<m + 1} = insert m {1..<m}" by auto
  then show ?thesis by (auto simp: lone_def)
qed

lemma mark_singles_returns:
  assumes b: "buckets_are (up_to buf) bs" and len: "int (length iii) = int (length buf) + 1"
  shows "returns (mark_singles bs iii) (\<lambda>(iii', i). length iii' = length iii \<and>
    (\<forall>k \<ge> 0. get iii' k = (if lone buf 256 k then -1 else get iii k)))"
  unfolding mark_singles_def
proof (rule loop_returns [where f = "\<lambda>(iii', i). nat (256 - i)" and I = "\<lambda>(iii', i). 1 \<le> i \<and> i \<le> 256 \<and>
      length iii' = length iii \<and> (\<forall>k \<ge> 0. get iii' k = (if lone buf i k then -1 else get iii k))"], goal_cases)
  case 1
  show ?case by (simp add: lone_def)
next
  case (2 s)
  obtain iii' i where s: "s = (iii', i)" by (cases s)
  have i: "1 \<le> i" "i < 256" and l: "length iii' = length iii"
    and g: "\<And>k. 0 \<le> k \<Longrightarrow> get iii' k = (if lone buf i k then -1 else get iii k)"
    using 2 by (simp_all add: s)
  have ix: "idx bs i = gives (up_to buf i)" "idx bs (i - 1) = gives (up_to buf (i - 1))"
    using i buckets_areD(1) [OF b] buckets_areD(2) [OF b, of i] buckets_areD(2) [OF b, of "i - 1"]
    by (simp_all add: idx_def)
  show ?case
  proof (cases "up_to buf i = up_to buf (i - 1) + 1")
    case True
    have r: "0 \<le> up_to buf i" "up_to buf i < int (length iii')"
      using having_le [of "int (length buf)" buf] l len by (simp_all add: le_imp_less_Suc order_le_less_trans)
    then have "get (put iii' (up_to buf i) (-1)) k = (if lone buf (i + 1) k then -1 else get iii k)" if "0 \<le> k" for k
      using g [OF that] that True lone_Suc [OF i(1)] by (simp add: get_put)
    then show ?thesis unfolding s prod.case ix after_gives if_P [OF True] using r i l by simp
  next
    case False
    then have "get iii' k = (if lone buf (i + 1) k then -1 else get iii k)" if "0 \<le> k" for k
      using g [OF that] lone_Suc [OF i(1)] by simp
    then show ?thesis unfolding s prod.case ix after_gives if_not_P [OF False] using i l by simp
  qed
next
  case (3 s)
  then have "snd s = 256" by (auto split: prod.splits)
  then show ?case using 3 by (auto split: prod.splits)
qed


subsection \<open>The first groups\<close>

lemma suf_Cons: "0 \<le> p \<Longrightarrow> p < int (length buf) \<Longrightarrow> suf buf p = get buf p # suf buf (p + 1)"
  by (simp add: suf_def get_def nat_add_distrib Cons_nth_drop_Suc)

lemma suf_end: "suf buf (int (length buf)) = []"
  by (simp add: suf_def)

lemma byte_less: "byte_at buf p < byte_at buf q \<longleftrightarrow> get buf p < get buf q"
  by (simp add: byte_at_def word_less_def)

lemma byte_eq: "byte_at buf p = byte_at buf q \<longleftrightarrow> get buf p = get buf q"
  by (simp add: byte_at_def word_uint_eq_iff)

text \<open>Every rank but the first is that of a suffix.\<close>

lemma rank1_surj: "rank1 buf ` {0..<int (length buf)} = {1..int (length buf)}"
proof (rule card_subset_eq)
  have "inj_on (rank1 buf) {0..<int (length buf)}"
    by (rule inj_onI) (metis atLeastLessThan_iff linorder_neqE rank1_inj)
  then show "card (rank1 buf ` {0..<int (length buf)}) = card {1..int (length buf)}" by (simp add: card_image)
qed (use rank1_range in auto)

text \<open>The arrays before the marks.\<close>

definition placed :: "bytes \<Rightarrow> int list \<Rightarrow> int list \<Rightarrow> bool" where
  "placed buf iii vvv \<longleftrightarrow> int (length iii) = int (length buf) + 1 \<and> int (length vvv) = int (length buf) + 1 \<and>
     get iii 0 = int (length buf) \<and> get vvv (int (length buf)) = 0 \<and>
     (\<forall>j \<in> {0..<int (length buf)}. get iii (rank1 buf j) = j \<and> get vvv j = up_to buf (byte_at buf j))"

lemma placedD:
  assumes "placed buf iii vvv"
  shows "int (length iii) = int (length buf) + 1" "int (length vvv) = int (length buf) + 1"
    "get iii 0 = int (length buf)" "get vvv (int (length buf)) = 0"
    "0 \<le> j \<Longrightarrow> j < int (length buf) \<Longrightarrow> get iii (rank1 buf j) = j"
    "0 \<le> j \<Longrightarrow> j < int (length buf) \<Longrightarrow> get vvv j = up_to buf (byte_at buf j)"
  using assms by (simp_all add: placed_def)

lemma rank_cases:
  assumes "k \<in> ranks buf"
  obtains "k = 0" | j where "0 \<le> j" "j < int (length buf)" "k = rank1 buf j"
proof (cases "k = 0")
  case False
  then have "k \<in> rank1 buf ` {0..<int (length buf)}" unfolding rank1_surj using assms by simp
  then show ?thesis using that(2) by auto
qed (use that in blast)

lemma placed_bij:
  assumes p: "placed buf iii vvv"
  shows "bij_betw (get iii) (ranks buf) (ranks buf)"
proof -
  note d = placedD [OF p]
  have "get iii k \<in> ranks buf" if "k \<in> ranks buf" for k
    using that by (cases rule: rank_cases) (use d(3,5) in auto)
  moreover have "j \<in> get iii ` ranks buf" if "j \<in> ranks buf" for j
  proof (cases "j = int (length buf)")
    case True
    then show ?thesis using d(3) by (metis atLeastAtMost_iff imageI of_nat_0_le_iff order_refl)
  next
    case False
    then have j: "0 \<le> j" "j < int (length buf)" using that by simp_all
    show ?thesis using d(5) [OF j] rank1_range(3,4) [OF j] by (metis atLeastAtMost_iff imageI order_trans zero_le_one)
  qed
  ultimately have "get iii ` ranks buf = ranks buf" by blast
  then show ?thesis by (simp add: bij_betw_def eq_card_imp_inj_on)
qed

lemma placed_group_end:
  assumes p: "placed buf iii vvv"
  shows "group_end vvv (get iii) 0 = 0"
    "0 \<le> j \<Longrightarrow> j < int (length buf) \<Longrightarrow> group_end vvv (get iii) (rank1 buf j) = up_to buf (byte_at buf j)"
  using placedD [OF p] by (simp_all add: group_end_def)

lemma placed_closes:
  assumes p: "placed buf iii vvv" and k: "k \<in> ranks buf"
  shows "closes vvv (get iii) (int (length buf) + 1) k"
  using k
proof (cases rule: rank_cases)
  case 1
  then show ?thesis using placed_group_end(1) [OF p] by (auto simp: closes_def)
next
  case (2 j)
  note ge = placed_group_end(2) [OF p] and r = rank1_range [OF 2(1,2)]
  have "group_end vvv (get iii) m = up_to buf (byte_at buf j)"
    if m: "rank1 buf j \<le> m" "m \<le> up_to buf (byte_at buf j)" for m
  proof -
    have "m \<in> ranks buf" "m \<noteq> 0" using m r having_le [of "int (length buf)" buf] by (auto intro: order_trans)
    then obtain i where i: "0 \<le> i" "i < int (length buf)" "m = rank1 buf i"
      by (cases rule: rank_cases) auto
    have "byte_at buf i = byte_at buf j" by (rule rank1_byte [OF i(1,2)]) (use m r i in auto)
    then show ?thesis using ge [OF i(1,2)] i(3) by simp
  qed
  then show ?thesis
    unfolding closes_def using 2 r(2) ge [OF 2(1,2)] having_le [of "int (length buf)" buf] by (simp add: le_imp_less_Suc order_le_less_trans)
qed

lemma placed_orders:
  assumes p: "placed buf iii vvv"
  shows "orders buf vvv" and "groups_alike buf 1 vvv"
proof -
  note d = placedD [OF p]
  have pos: "0 < up_to buf (byte_at buf q)" if "0 \<le> q" "q < int (length buf)" for q
    using rank1_range(2,3) [OF that] by simp
  have mono: "up_to buf (byte_at buf q) \<le> up_to buf (byte_at buf r)" if "byte_at buf q \<le> byte_at buf r" for q r
    by (rule having_mono) (use that in auto)
  have strict: "up_to buf (byte_at buf q) < up_to buf (byte_at buf r)"
    if "byte_at buf q < byte_at buf r" "0 \<le> r" "r < int (length buf)" for q r
    using up_to_less [OF that] rank1_range(2) [OF that(2,3)] by simp
  have cases: "q = int (length buf) \<or> (0 \<le> q \<and> q < int (length buf))" if "q \<in> ranks buf" for q
    using that by auto
  show "orders buf vvv"
    unfolding orders_def
  proof (intro ballI impI)
    fix q r assume q: "q \<in> ranks buf" and r: "r \<in> ranks buf" and lt: "get vvv q < get vvv r"
    show "suf buf q < suf buf r"
    proof (cases "q = int (length buf)")
      case True
      then have "r \<noteq> int (length buf)" using lt by blast
      then show ?thesis using True suf_Cons [of r buf] suf_end [of buf] r by simp
    next
      case False
      then have qq: "0 \<le> q" "q < int (length buf)" using q by simp_all
      have "r \<noteq> int (length buf)"
        using lt d(4) d(6) [OF qq] by (metis having_nonneg linorder_not_less)
      then have rr: "0 \<le> r" "r < int (length buf)" using r by simp_all
      have "byte_at buf q < byte_at buf r"
        using lt mono [of r q] d(6) [OF qq] d(6) [OF rr] by (metis linorder_not_le)
      then show ?thesis by (simp add: byte_less suf_Cons [OF qq] suf_Cons [OF rr])
    qed
  qed
  show "groups_alike buf 1 vvv"
    unfolding groups_alike_def
  proof (intro ballI impI)
    fix q r assume q: "q \<in> ranks buf" and r: "r \<in> ranks buf" and eq: "get vvv q = get vvv r"
    have "(q = int (length buf)) = (r = int (length buf))"
      using cases [OF q] cases [OF r] eq d(4) d(6) [of q] d(6) [of r] pos [of q] pos [of r] by auto
    then consider "q = r" | "0 \<le> q" "q < int (length buf)" "0 \<le> r" "r < int (length buf)"
      using cases [OF q] cases [OF r] by fastforce
    then show "alike buf 1 q r"
    proof cases
      case 2
      then have "byte_at buf q = byte_at buf r"
        using eq d(6) [of q] d(6) [of r] strict [of q r] strict [of r q] by (metis linorder_neqE order_less_irrefl)
      then show ?thesis using 2 by (simp add: alike_def suf_Cons byte_eq)
    qed simp
  qed
qed

lemma lone_single:
  assumes p: "placed buf iii vvv" and l: "lone buf 256 k"
  shows "single vvv (get iii) k" and "1 \<le> k" and "k \<le> int (length buf)"
proof -
  obtain c where c: "up_to buf c = up_to buf (c - 1) + 1" "k = up_to buf c" using l by (auto simp: lone_def)
  note ge = placed_group_end [OF p]
  show k1: "1 \<le> k" using c by simp
  show kn: "k \<le> int (length buf)" using c(2) having_le [of "int (length buf)" buf] by simp
  have "k \<in> ranks buf" "k \<noteq> 0" using k1 kn by simp_all
  then obtain i where i: "0 \<le> i" "i < int (length buf)" "k = rank1 buf i" by (cases rule: rank_cases) auto
  have "byte_at buf i = c" by (rule rank1_byte [OF i(1,2)]) (use c i in auto)
  then have here: "group_end vvv (get iii) k = k" using ge(2) [OF i(1,2)] i(3) c(2) by simp
  have "group_end vvv (get iii) (k - 1) = k - 1"
  proof (cases "k - 1 = 0")
    case False
    have "k - 1 \<in> ranks buf" using k1 kn by simp
    then obtain j where j: "0 \<le> j" "j < int (length buf)" "k - 1 = rank1 buf j"
      using False by (cases rule: rank_cases) auto
    have e: "k - 1 = up_to buf (c - 1)" using c by simp
    have "\<not> c - 1 < byte_at buf j"
      using up_to_less [of "c - 1" buf j] j e by force
    then have "up_to buf (byte_at buf j) \<le> up_to buf (c - 1)" by (intro having_mono) auto
    then show ?thesis using ge(2) [OF j(1,2)] rank1_range(2) [OF j(1,2)] j(3) e by simp
  qed (use ge(1) in simp)
  with here show "single vvv (get iii) k" by (simp add: single_def)
qed

lemma grouped_start:
  assumes p: "placed buf iii vvv" and len: "length iii' = length iii"
    and g: "\<And>k. 0 \<le> k \<Longrightarrow> get iii' k = (if k = 0 \<or> lone buf 256 k then -1 else get iii k)"
  shows "grouped buf 1 0 iii' vvv (get iii)"
proof -
  note d = placedD [OF p]
  have sane: "sane buf 1 iii' vvv (get iii)"
    using placed_bij [OF p] placed_orders [OF p] d(1,2) len by (simp add: sane_def)
  have rng: "0 \<le> get iii k" if "k \<in> ranks buf" for k
    using sane_range [OF sane that] by simp
  have marks: "k - get iii' k \<le> int (length buf) + 1 \<and> sorted_run iii' vvv (get iii) k (k - get iii' k)"
    if k: "k \<in> ranks buf" "get iii' k < 0" for k
  proof -
    have kl: "k = 0 \<or> lone buf 256 k" using g [of k] k rng [OF k(1)] by (auto split: if_splits)
    then have m: "get iii' k = -1" using g [of k] k(1) by simp
    have "single vvv (get iii) k"
      using kl lone_single(1) [OF p] placed_group_end(1) [OF p] by (auto simp: single_def)
    moreover have "{k..<k + 1} = {k}" by auto
    ultimately show ?thesis using m k(1) by (simp add: sorted_run_def)
  qed
  have entry: "get iii' k = get iii k \<and> get iii k + (if k < 0 then 1 + 1 else 1) \<le> int (length buf)"
    if k: "k \<in> ranks buf" "0 \<le> get iii' k" for k
  proof -
    have nk: "k \<noteq> 0" "get iii' k = get iii k" using g [of k] k by (auto split: if_splits)
    have "get iii k < int (length buf)"
      using k(1) by (cases rule: rank_cases) (use nk d(5) in auto)
    then show ?thesis using nk k by simp
  qed
  have deep: "alike buf (1 + 1) (get iii j) (get iii k)"
    if "k \<in> ranks buf" "group_end vvv (get iii) k < 0" for j k
    using closesD(1) [OF placed_closes [OF p that(1)]] that by simp
  have ends: "group_end vvv (get iii) k < 0" if "k \<in> {0..<0 :: int}" for k
    using that by simp
  show ?thesis
    unfolding grouped_def using sane placed_closes [OF p] marks entry deep ends by blast
qed


subsection \<open>The result\<close>

text \<open>The positions of the suffixes, with the empty one, in increasing order of the suffixes.\<close>

definition suffix_array :: "bytes \<Rightarrow> int list \<Rightarrow> bool" where
  "suffix_array buf iii \<longleftrightarrow>
     length iii = length buf + 1 \<and> set iii = ranks buf \<and>
     sorted_wrt (<) (map (suf buf) iii)"

lemma sorted_run_single: "sorted_run iii vvv sg a b \<Longrightarrow> j \<in> {a..<b} \<Longrightarrow> single vvv sg j"
  unfolding sorted_run_def by blast

text \<open>When one run covers the array every group has one suffix, and the group numbers are the ranks.\<close>

lemma done_rank:
  assumes g: "grouped buf h 0 iii vvv sg" and d: "sort_done (int (length buf)) iii" and k: "k \<in> ranks buf"
  shows "get vvv (sg k) = k"
proof -
  have neg: "get iii 0 < 0" "0 - get iii 0 = int (length buf) + 1" using d by (simp_all add: sort_done_def)
  have "sorted_run iii vvv sg 0 (0 - get iii 0)" by (rule groupedD(4) [OF g _ neg(1)]) simp
  then have run: "sorted_run iii vvv sg 0 (int (length buf) + 1)" unfolding neg(2) .
  have "single vvv sg k" by (rule sorted_run_single [OF run]) (use k in simp)
  then show ?thesis unfolding single_def group_end_def by (rule conjunct1)
qed

lemma invert_returns:
  assumes sane: "sane buf h iii vvv sg" and rank: "\<And>k. k \<in> ranks buf \<Longrightarrow> get vvv (sg k) = k"
  shows "returns (invert (int (length buf)) vvv iii)
    (\<lambda>(iii', i). length iii' = length iii \<and> (\<forall>k \<in> ranks buf. get iii' k = sg k))"
proof -
  have at: "\<exists>k \<in> ranks buf. q = sg k \<and> get vvv q = k" if "q \<in> ranks buf" for q
  proof -
    have "q \<in> sg ` ranks buf" using that sane by (simp add: sane_def bij_betw_def)
    then obtain k where "q = sg k" "k \<in> ranks buf" by (rule imageE)
    then show ?thesis using rank by blast
  qed
  have rng: "get vvv q \<in> ranks buf" if "q \<in> ranks buf" for q using at [OF that] by (elim bexE conjE) simp
  have inj: "q = r" if "q \<in> ranks buf" "r \<in> ranks buf" "get vvv q = get vvv r" for q r
    using at [OF that(1)] at [OF that(2)] that(3) by metis
  have "returns (invert (int (length buf)) vvv iii) (\<lambda>(iii', i). length iii' = length iii \<and>
      (\<forall>q \<in> ranks buf. get iii' (get vvv q) = q))"
    unfolding invert_def
  proof (rule loop_returns [where f = "\<lambda>(iii', i). nat (int (length buf) + 1 - i)" and I = "\<lambda>(iii', i).
        0 \<le> i \<and> i \<le> int (length buf) + 1 \<and> length iii' = length iii \<and>
        (\<forall>q \<in> {0..<i}. get iii' (get vvv q) = q)"], goal_cases)
    case (2 s)
    obtain iii' i where s: "s = (iii', i)" by (cases s)
    have i: "i \<in> ranks buf" "length iii' = length iii" using 2 by (simp_all add: s)
    have old: "get iii' (get vvv q) = q" if "q \<in> {0..<i}" for q using 2 that by (simp add: s)
    have v: "0 \<le> get vvv i" "get vvv i < int (length iii')"
      using rng [OF i(1)] i(2) sane_lengths(1) [OF sane] by simp_all
    have "get (put iii' (get vvv i) i) (get vvv q) = q" if q: "q \<in> {0..<i + 1}" for q
    proof (cases "q = i")
      case False
      have "get vvv q \<noteq> get vvv i" "0 \<le> get vvv q" using inj [of q i] rng [of q] q i(1) False by auto
      then show ?thesis using v old [of q] q False by (simp add: get_put)
    qed (use v in \<open>simp add: get_put\<close>)
    then show ?case using i v sane_lengths(2) [OF sane] by (simp add: s)
  qed auto
  then show ?thesis
  proof (rule returns_mono, clarify, goal_cases)
    case (1 iii' i k)
    then have "get iii' (get vvv (sg k)) = sg k" using sane_range [OF sane, of k] by simp
    then show ?case using rank [of k] 1 by simp
  qed
qed

lemma list_of_ranks:
  assumes "length iii = length buf + 1" and "\<And>k. k \<in> ranks buf \<Longrightarrow> get iii k = sg k"
    and "bij_betw sg (ranks buf) (ranks buf)" and "orders buf vvv" and "\<And>k. k \<in> ranks buf \<Longrightarrow> get vvv (sg k) = k"
  shows "suffix_array buf iii"
proof -
  have nth: "iii ! m = sg (int m)" if "m < length iii" for m
    using assms(1) assms(2) [of "int m"] that by (simp add: get_def)
  have rng: "sg k \<in> ranks buf" if "k \<in> ranks buf" for k using assms(3) that by (auto simp: bij_betw_def)
  have "set iii = sg ` ranks buf"
  proof (intro equalityI subsetI)
    fix x assume "x \<in> sg ` ranks buf"
    then obtain k where k: "k \<in> ranks buf" "x = sg k" by blast
    then show "x \<in> set iii" using nth [of "nat k"] assms(1) by (auto simp: in_set_conv_nth intro!: exI [of _ "nat k"])
  qed (use nth assms(1) in \<open>fastforce simp: in_set_conv_nth\<close>)
  moreover have "suf buf (iii ! i) < suf buf (iii ! j)" if "i < j" "j < length iii" for i j
  proof -
    have r: "int i \<in> ranks buf" "int j \<in> ranks buf" using that assms(1) by simp_all
    then have "get vvv (sg (int i)) < get vvv (sg (int j))" using assms(5) that by simp
    then show ?thesis using assms(4) rng [OF r(1)] rng [OF r(2)] nth that unfolding orders_def by simp
  qed
  ultimately show ?thesis
    using assms(1,3) by (simp add: suffix_array_def sorted_wrt_iff_nth_less bij_betw_def)
qed

text \<open>From the first grouping on.\<close>

lemma sorted_returns:
  assumes "grouped buf 1 0 iii vvv sg"
  shows "returns (after (sort_passes (int (length buf)) iii vvv) (\<lambda>(iii, vvv, h).
    after (invert (int (length buf)) vvv iii) (\<lambda>(iii, _). gives iii))) (suffix_array buf)"
proof (rule returns_afterI [OF sort_passes_returns [OF assms refl]], clarify, goal_cases)
  case (1 iii' vvv' h sg')
  have sane: "sane buf h iii' vvv' sg'" by (rule groupedD(1) [OF 1(1)])
  note rank = done_rank [OF 1(1) 1(2)]
  show ?case
  proof (rule returns_afterI [OF invert_returns [OF sane rank]], assumption, clarify, goal_cases)
    case (1 iii'' i)
    have "suffix_array buf iii''"
      by (rule list_of_ranks [where sg = sg' and vvv = vvv'])
        (use 1 sane rank sane_lengths(1) [OF sane] in \<open>auto simp: sane_def\<close>)
    then show ?case by simp
  qed
qed

lemma placed_start:
  assumes len: "length iii = nat (int (length buf) + 1)" "length vvv = nat (int (length buf) + 1)"
    and i: "\<And>j. 0 \<le> j \<Longrightarrow> j < int (length buf) \<Longrightarrow> get iii (rank1 buf j) = j"
    and v: "\<And>j. 0 \<le> j \<Longrightarrow> j < int (length buf) \<Longrightarrow> get vvv j = up_to buf (byte_at buf j)"
  shows "placed buf (put iii 0 (int (length buf))) (put vvv (int (length buf)) 0)"
proof -
  have r: "rank1 buf j \<noteq> 0" "0 \<le> rank1 buf j" if "0 \<le> j" "j < int (length buf)" for j
    using rank1_range(3) [OF that] by simp_all
  show ?thesis using len i v r by (simp add: placed_def get_put)
qed

lemma first_marks:
  assumes p: "placed buf iii vvv" and b: "buckets_are (up_to buf) bs"
  shows "returns (after (mark_singles bs iii) (\<lambda>(iii, _). upd iii 0 (-1)))
    (\<lambda>iii'. grouped buf 1 0 iii' vvv (get iii))"
proof (rule returns_afterI [OF mark_singles_returns [OF b placedD(1) [OF p]]], clarify, goal_cases)
  case (1 iii' i)
  have l: "int (length iii') = int (length buf) + 1" using 1(1) placedD(1) [OF p] by simp
  have "get (put iii' 0 (-1)) k = (if k = 0 \<or> lone buf 256 k then -1 else get iii k)" if "0 \<le> k" for k
    using 1(2) that l by (simp add: get_put)
  then have "grouped buf 1 0 (put iii' 0 (-1)) vvv (get iii)"
    by (rule_tac grouped_start [OF p]) (use 1(1) in simp_all)
  then show ?case using l by simp
qed

lemma after_assoc: "after (after m f) g = after m (\<lambda>x. after (f x) g)"
  by (auto simp: after_def split: option.split sum.split)

lemma qsufsort_returns: "returns (qsufsort buf) (suffix_array buf)"
proof -
  let ?n = "int (length buf)" and ?zeros = "replicate (nat (int (length buf) + 1)) (0 :: int)"
  have zeros: "int (length ?zeros) = ?n + 1" by simp
  have tail: "returns (after (mark_singles bs iii) (\<lambda>(iii, _). after (upd iii 0 (-1)) (\<lambda>iii.
      after (sort_passes ?n iii vvv) (\<lambda>(iii, vvv, h). after (invert ?n vvv iii) (\<lambda>(iii, _). gives iii)))))
      (suffix_array buf)"
    if "placed buf iii vvv" "buckets_are (up_to buf) bs" for bs iii vvv
    using returns_afterI [OF first_marks [OF that] sorted_returns] by (simp add: after_assoc case_prod_unfold)
  have place: "returns (after (place_bytes buf ?zeros bs) (\<lambda>(iii, bs, _). after (upd iii 0 ?n) (\<lambda>iii.
      after (first_numbers buf bs ?zeros) (\<lambda>(vvv, _). after (upd vvv ?n 0) (\<lambda>vvv.
      after (mark_singles bs iii) (\<lambda>(iii, _). after (upd iii 0 (-1)) (\<lambda>iii.
      after (sort_passes ?n iii vvv) (\<lambda>(iii, vvv, h). after (invert ?n vvv iii) (\<lambda>(iii, _). gives iii)))))))))
      (suffix_array buf)"
    if "buckets_are (below buf) bs" for bs
  proof (rule returns_afterI [OF place_bytes_returns [OF that zeros]], clarify, goal_cases)
    case (1 iii bs i)
    have "returns (after (first_numbers buf bs ?zeros) (\<lambda>(vvv, _). after (upd vvv ?n 0) (\<lambda>vvv.
      after (mark_singles bs (put iii 0 ?n)) (\<lambda>(iii, _). after (upd iii 0 (-1)) (\<lambda>iii.
      after (sort_passes ?n iii vvv) (\<lambda>(iii, vvv, h). after (invert ?n vvv iii) (\<lambda>(iii, _). gives iii)))))))
      (suffix_array buf)"
    proof (rule returns_afterI [OF first_numbers_returns [OF 1(1) zeros]], clarify, goal_cases)
      case v: (1 vvv i)
      show ?case
        using tail [OF placed_start 1(1), of iii vvv] 1 v by (simp add: upd_def)
    qed
    then show ?case using 1(2) by (simp add: upd_def)
  qed
  show ?thesis
    unfolding qsufsort_def Let_def
  proof (rule returns_afterI [OF count_bytes_returns], clarify, rule returns_afterI [OF add_up_returns],
      assumption, clarify, goal_cases)
    case (1 bs1 i1 bs2 i2)
    show ?case
      using returns_afterI [OF shift_up_returns [OF 1(2)] place] by (simp add: after_assoc case_prod_unfold)
  qed
qed

text \<open>\<open>C13\<close>. The suffix sorter ends on every input, without a panic, and returns every position of the
  input once, with its end, in strictly increasing order of the suffixes there.\<close>

theorem qsufsort_sorts:
  "\<exists>iii. qsufsort buf = gives iii \<and> length iii = length buf + 1 \<and> set iii = {0..int (length buf)} \<and>
     sorted_wrt (<) (map (\<lambda>p. drop (nat p) buf) iii)"
  using qsufsort_returns [of buf] unfolding returns_def suffix_array_def suf_def .

end
