(* ===== verification/Bsdiff.thy ===== *)
theory Bsdiff
  imports Bspatch Suffix_Array
begin

section \<open>The BSDIFF40 patch encoder\<close>

text \<open>
  Models \<^verbatim>\<open>gabstv-go-bsdiff/pkg/bsdiff/bsdiff.go\<close> (\<open>diffb\<close>, \<open>search\<close>, \<open>matchlen\<close>) and the
  \<^verbatim>\<open>BufWriter\<close> of \<^verbatim>\<open>pkg/util/io.go\<close>, as runs over slices. The variables of the scanning loop are the
  record \<open>scanner\<close>; each inner loop is one definition, in the order of the code. A bzip2 writer
  compresses what has been written to it when it is closed: it is the function \<open>bz2\<close>, an argument,
  with its error. The result of this theory: \<open>diffb\<close> ends for every pair of files that fit in memory,
  without a panic, and what it has emitted describes the new file in terms of the old one.
\<close>

subsection \<open>Searching the suffix array\<close>

fun matchlen :: "bytes \<Rightarrow> bytes \<Rightarrow> int" where
  "matchlen (a # as) (b # bs) = (if a \<noteq> b then 0 else matchlen as bs + 1)"
| "matchlen _ _ = 0"

text \<open>The length of the match found and its position. Lists of bytes are compared as \<^verbatim>\<open>bytes.Compare\<close> does.\<close>

function search :: "int list \<Rightarrow> bytes \<Rightarrow> bytes \<Rightarrow> int \<Rightarrow> int \<Rightarrow> (int \<times> int) run" where
  "search iii oldbin newbin st en =
     (let oldsize = int (length oldbin); newsize = int (length newbin) in
      if en - st < 2 then
        after (idx iii st) (\<lambda>p. after (subslice oldbin p oldsize) (\<lambda>a.
        after (idx iii en) (\<lambda>q. after (subslice oldbin q oldsize) (\<lambda>b.
        let x = matchlen a newbin; y = matchlen b newbin in
        if x > y then gives (x, p) else gives (y, q)))))
      else
        let x = st + (en - st) div 2 in
        after (idx iii x) (\<lambda>p.
        let cmpln = min (oldsize - p) newsize in
        after (subslice oldbin p (p + cmpln)) (\<lambda>a. after (subslice newbin 0 cmpln) (\<lambda>b.
        if a < b then search iii oldbin newbin x en else search iii oldbin newbin st x))))"
  by pat_completeness auto
termination
  by (relation "measure (\<lambda>(iii, oldbin, newbin, st, en). nat (en - st))") auto

declare search.simps [simp del]


subsection \<open>The loops of diffb\<close>

record scanner =
  v_scan :: int
  v_ln :: int
  v_lastscan :: int
  v_lastpos :: int
  v_lastoffset :: int
  v_pos :: int
  v_db :: bytes
  v_dblen :: int
  v_eb :: bytes
  v_eblen :: int
  v_ctrl :: bytes

text \<open>\<^verbatim>\<open>i+lastoffset < oldsize && oldbin[i+lastoffset] == newbin[i]\<close>.\<close>

definition same_at :: "bytes \<Rightarrow> bytes \<Rightarrow> int \<Rightarrow> int \<Rightarrow> bool run" where
  "same_at oldbin newbin lastoffset i =
     (if i + lastoffset < int (length oldbin)
      then after (idx oldbin (i + lastoffset)) (\<lambda>a. after (idx newbin i) (\<lambda>b. gives (a = b)))
      else gives False)"

definition count_same :: "bytes \<Rightarrow> bytes \<Rightarrow> int \<Rightarrow> int \<Rightarrow> int \<Rightarrow> int \<Rightarrow> (int \<times> int) run" where
  "count_same oldbin newbin lastoffset e scsc oldscore =
     loop (\<lambda>(scsc, oldscore). scsc < e)
       (\<lambda>(scsc, oldscore). after (same_at oldbin newbin lastoffset scsc) (\<lambda>b.
          gives (scsc + 1, if b then oldscore + 1 else oldscore)))
       (scsc, oldscore)"

text \<open>The inner scan, to the next match worth a new triple; \<^verbatim>\<open>break\<close> sets the first variable.\<close>

definition find_next ::
  "int list \<Rightarrow> bytes \<Rightarrow> bytes \<Rightarrow> int \<Rightarrow> int \<Rightarrow> int \<Rightarrow> int \<Rightarrow> (bool \<times> int \<times> int \<times> int \<times> int \<times> int) run"
where
  "find_next iii oldbin newbin lastoffset scan ln pos =
     loop (\<lambda>(brk, scan, scsc, oldscore, ln, pos). \<not> brk \<and> scan < int (length newbin))
       (\<lambda>(brk, scan, scsc, oldscore, ln, pos).
          after (subslice newbin scan (int (length newbin))) (\<lambda>rest.
          after (search iii oldbin rest 0 (int (length oldbin))) (\<lambda>(ln, pos).
          after (count_same oldbin newbin lastoffset (scan + ln) scsc oldscore) (\<lambda>(scsc, oldscore).
          if ln = oldscore \<and> ln \<noteq> 0 \<or> ln > oldscore + 8 then gives (True, scan, scsc, oldscore, ln, pos)
          else after (same_at oldbin newbin lastoffset scan) (\<lambda>b.
            gives (False, scan + 1, scsc, if b then oldscore - 1 else oldscore, ln, pos))))))
       (False, scan, scan, 0, ln, pos)"

text \<open>How far the match before is extended forwards, and the one found backwards.\<close>

definition grow_forward ::
  "bytes \<Rightarrow> bytes \<Rightarrow> int \<Rightarrow> int \<Rightarrow> int \<Rightarrow> (int \<times> int \<times> int \<times> int) run"
where
  "grow_forward oldbin newbin lastscan lastpos scan =
     loop (\<lambda>(i, s, Sf, lenf). lastscan + i < scan \<and> lastpos + i < int (length oldbin))
       (\<lambda>(i, s, Sf, lenf). after (idx oldbin (lastpos + i)) (\<lambda>a. after (idx newbin (lastscan + i)) (\<lambda>b.
          let s = (if a = b then s + 1 else s); i = i + 1 in
          if s * 2 - i > Sf * 2 - lenf then gives (i, s, s, i) else gives (i, s, Sf, lenf))))
       (0, 0, 0, 0)"

definition grow_backward ::
  "bytes \<Rightarrow> bytes \<Rightarrow> int \<Rightarrow> int \<Rightarrow> int \<Rightarrow> (int \<times> int \<times> int \<times> int) run"
where
  "grow_backward oldbin newbin lastscan scan pos =
     loop (\<lambda>(i, s, Sb, lenb). scan \<ge> lastscan + i \<and> pos \<ge> i)
       (\<lambda>(i, s, Sb, lenb). after (idx oldbin (pos - i)) (\<lambda>a. after (idx newbin (scan - i)) (\<lambda>b.
          let s = (if a = b then s + 1 else s) in
          if s * 2 - i > Sb * 2 - lenb then gives (i + 1, s, s, i) else gives (i + 1, s, Sb, lenb))))
       (1, 0, 0, 0)"

text \<open>Where two extensions that overlap are cut.\<close>

definition best_cut ::
  "bytes \<Rightarrow> bytes \<Rightarrow> int \<Rightarrow> int \<Rightarrow> int \<Rightarrow> int \<Rightarrow> int \<Rightarrow> (int \<times> int \<times> int \<times> int) run"
where
  "best_cut oldbin newbin overlap new_f old_f new_b old_b =
     loop (\<lambda>(i, s, Ss, lens). i < overlap)
       (\<lambda>(i, s, Ss, lens).
          after (idx newbin (new_f + i)) (\<lambda>a. after (idx oldbin (old_f + i)) (\<lambda>b.
          after (idx newbin (new_b + i)) (\<lambda>c. after (idx oldbin (old_b + i)) (\<lambda>d.
          let s = (if a = b then s + 1 else s); s = (if c = d then s - 1 else s) in
          if s > Ss then gives (i + 1, s, s, i + 1) else gives (i + 1, s, Ss, lens))))))
       (0, 0, 0, 0)"

definition extents :: "bytes \<Rightarrow> bytes \<Rightarrow> scanner \<Rightarrow> (int \<times> int) run" where
  "extents oldbin newbin v =
     after (grow_forward oldbin newbin (v_lastscan v) (v_lastpos v) (v_scan v)) (\<lambda>(i, s, Sf, lenf).
     after (if v_scan v < int (length newbin)
            then grow_backward oldbin newbin (v_lastscan v) (v_scan v) (v_pos v)
            else gives (i, s, 0, 0)) (\<lambda>(i, s, Sb, lenb).
     if v_lastscan v + lenf > v_scan v - lenb then
       let overlap = (v_lastscan v + lenf) - (v_scan v - lenb) in
       after (best_cut oldbin newbin overlap (v_lastscan v + lenf - overlap) (v_lastpos v + lenf - overlap)
                (v_scan v - lenb) (v_pos v - lenb)) (\<lambda>(i, s, Ss, lens).
       gives (lenf + (lens - overlap), lenb - lens))
     else gives (lenf, lenb)))"

definition fill_diff :: "bytes \<Rightarrow> bytes \<Rightarrow> int \<Rightarrow> int \<Rightarrow> int \<Rightarrow> int \<Rightarrow> bytes \<Rightarrow> (bytes \<times> int) run" where
  "fill_diff oldbin newbin lastscan lastpos lenf dblen db =
     loop (\<lambda>(db, i). i < lenf)
       (\<lambda>(db, i). after (idx newbin (lastscan + i)) (\<lambda>a. after (idx oldbin (lastpos + i)) (\<lambda>b.
          after (upd db (dblen + i) (a - b)) (\<lambda>db. gives (db, i + 1)))))
       (db, 0)"

definition fill_extra :: "bytes \<Rightarrow> int \<Rightarrow> int \<Rightarrow> int \<Rightarrow> bytes \<Rightarrow> (bytes \<times> int) run" where
  "fill_extra newbin start n eblen eb =
     loop (\<lambda>(eb, i). i < n)
       (\<lambda>(eb, i). after (idx newbin (start + i)) (\<lambda>a.
          after (upd eb (eblen + i) a) (\<lambda>eb. gives (eb, i + 1))))
       (eb, 0)"

text \<open>A control triple, with its parts of the diff and extra blocks.\<close>

definition emit :: "bytes \<Rightarrow> bytes \<Rightarrow> scanner \<Rightarrow> scanner run" where
  "emit oldbin newbin v =
     after (extents oldbin newbin v) (\<lambda>(lenf, lenb).
     let extra = (v_scan v - lenb) - (v_lastscan v + lenf) in
     after (fill_diff oldbin newbin (v_lastscan v) (v_lastpos v) lenf (v_dblen v) (v_db v)) (\<lambda>(db, _).
     after (fill_extra newbin (v_lastscan v + lenf) extra (v_eblen v) (v_eb v)) (\<lambda>(eb, _).
     gives (v\<lparr>v_db := db, v_eb := eb, v_dblen := v_dblen v + lenf, v_eblen := v_eblen v + extra,
       v_ctrl := v_ctrl v @ offtout lenf @ offtout extra @
         offtout ((v_pos v - lenb) - (v_lastpos v + lenf)),
       v_lastscan := v_scan v - lenb, v_lastpos := v_pos v - lenb, v_lastoffset := v_pos v - v_scan v\<rparr>))))"

definition diff_step :: "int list \<Rightarrow> bytes \<Rightarrow> bytes \<Rightarrow> scanner \<Rightarrow> scanner run" where
  "diff_step iii oldbin newbin v =
     after (find_next iii oldbin newbin (v_lastoffset v) (v_scan v + v_ln v) (v_ln v) (v_pos v))
       (\<lambda>(brk, scan, scsc, oldscore, ln, pos).
          let v = v\<lparr>v_scan := scan, v_ln := ln, v_pos := pos\<rparr> in
          if ln \<noteq> oldscore \<or> scan = int (length newbin) then emit oldbin newbin v else gives v)"

definition diff_loop :: "int list \<Rightarrow> bytes \<Rightarrow> bytes \<Rightarrow> scanner run" where
  "diff_loop iii oldbin newbin =
     loop (\<lambda>v. v_scan v < int (length newbin)) (diff_step iii oldbin newbin)
       \<lparr> v_scan = 0, v_ln = 0, v_lastscan = 0, v_lastpos = 0, v_lastoffset = 0, v_pos = 0,
         v_db = replicate (length newbin + 1) 0, v_dblen = 0,
         v_eb = replicate (length newbin + 1) 0, v_eblen = 0, v_ctrl = [] \<rparr>"


subsection \<open>The file\<close>

record buf_writer =
  b_buf :: bytes
  b_pos :: nat

definition Write :: "bytes \<Rightarrow> buf_writer \<Rightarrow> buf_writer" where
  "Write p m =
     \<lparr> b_buf = take (b_pos m) (b_buf m) @ replicate (b_pos m - length (b_buf m)) 0 @ p @
         drop (b_pos m + length p) (b_buf m),
       b_pos = b_pos m + length p \<rparr>"

datatype whence = SeekStart | SeekCurrent | SeekEnd

definition Seek :: "int \<Rightarrow> whence \<Rightarrow> buf_writer \<Rightarrow> buf_writer res" where
  "Seek offset wh m =
     (let newPos = (case wh of SeekStart \<Rightarrow> offset | SeekCurrent \<Rightarrow> int (b_pos m) + offset
                             | SeekEnd \<Rightarrow> int (length (b_buf m)) + offset) in
      if newPos < 0 then Inl (NewErr ''negative result pos'') else Inr (m\<lparr>b_pos := nat newPos\<rparr>))"

text \<open>\<^verbatim>\<open>offtout(x, header[k:])\<close>.\<close>

definition put_offset :: "nat \<Rightarrow> int \<Rightarrow> bytes \<Rightarrow> bytes" where
  "put_offset k x header = take k header @ offtout x @ drop (k + 8) header"

definition make_panic :: goerr where
  "make_panic = Panicked ''runtime error: makeslice: len out of range''"

text \<open>A compressed block is written behind what the buffer holds.\<close>

definition put_block :: "(bytes \<Rightarrow> bytes res) \<Rightarrow> bytes \<Rightarrow> buf_writer \<Rightarrow> buf_writer run" where
  "put_block bz2 x pf = after (lift_res (bz2 x)) (\<lambda>z. gives (Write z pf))"

definition diffb :: "(bytes \<Rightarrow> bytes res) \<Rightarrow> bytes \<Rightarrow> bytes \<Rightarrow> bytes run" where
  "diffb bz2 oldbin newbin =
     (if 8 * (int (length oldbin) + 1) > max_alloc then stops make_panic else
      after (qsufsort oldbin) (\<lambda>iii.
      let newsize = int (length newbin);
          header = put_offset 24 newsize (put_offset 16 0 (put_offset 8 0 (magic @ replicate 24 0)));
          pf = Write header \<lparr> b_buf = [], b_pos = 0 \<rparr> in
      if newsize + 1 > max_alloc then stops make_panic else
      after (diff_loop iii oldbin newbin) (\<lambda>v.
      after (put_block bz2 (v_ctrl v) pf) (\<lambda>pf.
      let ln = int (length (b_buf pf)); header = put_offset 8 (ln - 32) header in
      after (subslice (v_db v) 0 (v_dblen v)) (\<lambda>d.
      after (put_block bz2 d pf) (\<lambda>pf.
      let newsize = int (length (b_buf pf)); header = put_offset 16 (newsize - ln) header in
      after (subslice (v_eb v) 0 (v_eblen v)) (\<lambda>e.
      after (put_block bz2 e pf) (\<lambda>pf.
      after (lift_res (Seek 0 SeekStart pf)) (\<lambda>pf.
      gives (b_buf (Write header pf)))))))))))"


subsection \<open>Every inner loop ends, inside the slices\<close>

lemma matchlen_range: "0 \<le> matchlen a b" "matchlen a b \<le> int (length b)"
  by (induction a b rule: matchlen.induct) simp_all

lemma matchlen_same: "take (nat (matchlen a b)) a = take (nat (matchlen a b)) b"
  by (induction a b rule: matchlen.induct) (simp_all add: nat_add_distrib matchlen_range)

text \<open>All that the loops need of the suffix array: its length, and positions as entries.\<close>

definition positions :: "bytes \<Rightarrow> int list \<Rightarrow> bool" where
  "positions oldbin iii \<longleftrightarrow> length iii = length oldbin + 1 \<and> set iii \<subseteq> ranks oldbin"

lemma suffix_array_positions: "suffix_array oldbin iii \<Longrightarrow> positions oldbin iii"
  by (simp add: suffix_array_def positions_def)

lemma positionsD:
  assumes "positions oldbin iii" and "0 \<le> k" and "k \<le> int (length oldbin)"
  shows "k < int (length iii)" "0 \<le> get iii k" "get iii k \<le> int (length oldbin)"
proof -
  show k: "k < int (length iii)" using assms by (simp add: positions_def)
  then have "get iii k \<in> set iii" using assms(2) by (simp add: get_def)
  then have "get iii k \<in> ranks oldbin" using assms(1) by (auto simp: positions_def)
  then show "0 \<le> get iii k" "get iii k \<le> int (length oldbin)" by simp_all
qed

text \<open>What a search returns is a match.\<close>

definition match_at :: "bytes \<Rightarrow> bytes \<Rightarrow> int \<times> int \<Rightarrow> bool" where
  "match_at oldbin newbin = (\<lambda>(l, p). 0 \<le> p \<and> p \<le> int (length oldbin) \<and> 0 \<le> l \<and> l \<le> int (length newbin) \<and>
     take (nat l) (drop (nat p) oldbin) = take (nat l) newbin)"

lemma match_atI:
  assumes "0 \<le> p" and "p \<le> int (length oldbin)"
  shows "match_at oldbin newbin (matchlen (take (nat (int (length oldbin) - p)) (drop (nat p) oldbin)) newbin, p)"
proof -
  have "take (nat (int (length oldbin) - p)) (drop (nat p) oldbin) = drop (nat p) oldbin"
    using assms by (intro take_all) simp
  then show ?thesis
    using assms matchlen_range matchlen_same [of "drop (nat p) oldbin" newbin] by (simp add: match_at_def)
qed

lemma search_returns:
  assumes i: "positions oldbin iii" and "0 \<le> st" and "st \<le> en" and "en \<le> int (length oldbin)"
  shows "returns (search iii oldbin newbin st en) (match_at oldbin newbin)"
  using assms(2-4)
proof (induction "nat (en - st)" arbitrary: st en rule: less_induct)
  case less
  note pst = positionsD [OF i, of st] and pen = positionsD [OF i, of en]
  show ?case
  proof (cases "en - st < 2")
    case True
    then show ?thesis
      using less(2-4) pst pen match_atI [of "get iii st" oldbin newbin] match_atI [of "get iii en" oldbin newbin]
      by (subst search.simps) (simp add: Let_def)
  next
    case False
    obtain x where xdef: "st + (en - st) div 2 = x" by blast
    have x: "0 \<le> x" "x \<le> int (length oldbin)" "st < x" "x < en" using False less(2-4) xdef by linarith+
    note px = positionsD [OF i x(1,2)]
    have rec: "returns (search iii oldbin newbin x en) (match_at oldbin newbin)"
      "returns (search iii oldbin newbin st x) (match_at oldbin newbin)"
      by (rule less(1); use x less(2-4) in simp)+
    obtain c where cdef: "min (int (length oldbin) - get iii x) (int (length newbin)) = c" by blast
    have c: "0 \<le> c" "get iii x + c \<le> int (length oldbin)" "c \<le> int (length newbin)"
      using px(2,3) unfolding cdef [symmetric] by linarith+
    show ?thesis
      by (subst search.simps, unfold Let_def if_not_P [OF False] xdef returns_after returns_idx cdef returns_subslice)
        (use x px c rec in simp)
  qed
qed

text \<open>Comparing at the distance of the last match reads inside both files.\<close>

lemma same_at_returns:
  assumes "0 \<le> i" and "i < int (length newbin)" and "0 \<le> i + off"
  shows "returns (same_at oldbin newbin off i) (\<lambda>_. True)"
  using assms by (simp add: same_at_def)

lemma count_same_returns:
  assumes "0 \<le> scsc" and "e \<le> int (length newbin)" and "0 \<le> scsc + off"
  shows "returns (count_same oldbin newbin off e scsc sc) (\<lambda>(scsc', sc'). scsc \<le> scsc' \<and> sc \<le> sc')"
  unfolding count_same_def
proof (rule loop_returns [where f = "\<lambda>(k, c). nat (e - k)" and I = "\<lambda>(k, c). scsc \<le> k \<and> sc \<le> c"], goal_cases)
  case (2 s)
  then have "returns (same_at oldbin newbin off (fst s)) (\<lambda>_. True)"
    using assms by (intro same_at_returns) (auto split: prod.splits)
  then show ?case
    using 2 by (auto simp: returns_def split: prod.splits)
qed auto

text \<open>The scan makes progress: it comes to the end, or its match ends behind where it started.\<close>

definition found :: "bytes \<Rightarrow> bytes \<Rightarrow> int \<Rightarrow> bool \<times> int \<times> int \<times> int \<times> int \<times> int \<Rightarrow> bool" where
  "found oldbin newbin scan0 = (\<lambda>(brk, scan, scsc, sc, ln, pos).
     scan0 \<le> scan \<and> scan \<le> int (length newbin) \<and> 0 \<le> ln \<and> 0 \<le> pos \<and> pos \<le> int (length oldbin) \<and>
     (scan < int (length newbin) \<longrightarrow> scan + ln \<le> int (length newbin) \<and> scan0 < scan + ln))"

lemma find_next_returns:
  assumes i: "positions oldbin iii" and 0: "0 \<le> scan0" "scan0 \<le> int (length newbin)" "0 \<le> scan0 + off"
    "0 \<le> ln0" "0 \<le> pos0" "pos0 \<le> int (length oldbin)"
  shows "returns (find_next iii oldbin newbin off scan0 ln0 pos0) (found oldbin newbin scan0)"
  unfolding find_next_def
proof (rule loop_returns [where f = "\<lambda>(brk, scan, scsc, sc, ln, pos). if brk then 0 else Suc (nat (int (length newbin) - scan))"
      and I = "\<lambda>(brk, scan, scsc, sc, ln, pos). scan0 \<le> scan \<and> scan \<le> int (length newbin) \<and> 0 \<le> ln \<and> 0 \<le> pos \<and>
        pos \<le> int (length oldbin) \<and> scan0 \<le> scsc \<and> scan0 - scan \<le> sc \<and>
        (brk \<longrightarrow> scan + ln \<le> int (length newbin) \<and> scan0 < scan + ln)"], goal_cases)
  case 1
  show ?case using 0 by simp
next
  case (2 s)
  obtain scan scsc sc ln pos where s: "s = (False, scan, scsc, sc, ln, pos)" using 2 by (cases s) auto
  have inv: "scan0 \<le> scan" "scan < int (length newbin)" "scan0 \<le> scsc" "scan0 - scan \<le> sc"
    using 2 by (simp_all add: s)
  let ?rest = "take (nat (int (length newbin) - scan)) (drop (nat scan) newbin)"
  have same: "returns (same_at oldbin newbin off scan) (\<lambda>_. True)"
    by (rule same_at_returns) (use 0 inv in auto)
  have match: "returns (search iii oldbin ?rest 0 (int (length oldbin))) (match_at oldbin ?rest)"
    by (rule search_returns [OF i]) simp_all
  have body: "returns (after (search iii oldbin ?rest 0 (int (length oldbin))) (\<lambda>(ln, pos).
          after (count_same oldbin newbin off (scan + ln) scsc sc) (\<lambda>(scsc, sc).
          if ln = sc \<and> ln \<noteq> 0 \<or> ln > sc + 8 then gives (True, scan, scsc, sc, ln, pos)
          else after (same_at oldbin newbin off scan) (\<lambda>b.
            gives (False, scan + 1, scsc, if b then sc - 1 else sc, ln, pos)))))
      (\<lambda>(brk, scan', scsc, sc, ln, pos). scan0 \<le> scan' \<and> scan' \<le> int (length newbin) \<and> 0 \<le> ln \<and> 0 \<le> pos \<and>
        pos \<le> int (length oldbin) \<and> scan0 \<le> scsc \<and> scan0 - scan' \<le> sc \<and>
        (brk \<longrightarrow> scan' + ln \<le> int (length newbin) \<and> scan0 < scan' + ln) \<and> (brk \<or> scan' = scan + 1))"
  proof (rule returns_afterI [OF match], clarify, goal_cases)
    case (1 l p)
    have l: "0 \<le> l" "scan + l \<le> int (length newbin)" "0 \<le> p" "p \<le> int (length oldbin)"
      using 1 inv 0(1) by (auto simp: match_at_def)
    have "returns (count_same oldbin newbin off (scan + l) scsc sc) (\<lambda>(scsc', sc'). scsc \<le> scsc' \<and> sc \<le> sc')"
      by (rule count_same_returns) (use 0 inv l in auto)
    then show ?case
      by (rule returns_afterI) (use inv l same in \<open>auto simp: returns_def\<close>)
  qed
  show ?case
    using body inv 0(1) unfolding s by (auto simp: elim!: returns_mono)
next
  case (3 s)
  then show ?case by (auto simp: found_def)
qed

lemma grow_forward_returns:
  assumes "0 \<le> lastscan" and "lastscan \<le> scan" and "scan \<le> int (length newbin)"
    and "0 \<le> lastpos" and "lastpos \<le> int (length oldbin)"
  shows "returns (grow_forward oldbin newbin lastscan lastpos scan)
    (\<lambda>(i, s, Sf, lenf). 0 \<le> lenf \<and> lastscan + lenf \<le> scan \<and> lastpos + lenf \<le> int (length oldbin))"
  unfolding grow_forward_def
  by (rule loop_returns [where f = "\<lambda>(i, s, Sf, lenf). nat (scan - (lastscan + i))" and
      I = "\<lambda>(i, s, Sf, lenf). 0 \<le> i \<and> 0 \<le> lenf \<and> lenf \<le> i \<and> lastscan + i \<le> scan \<and> lastpos + i \<le> int (length oldbin)"])
    (use assms in \<open>auto simp: Let_def\<close>)

lemma grow_backward_returns:
  assumes "0 \<le> lastscan" and "lastscan \<le> scan" and "scan \<le> int (length newbin)"
    and "0 \<le> pos" and "pos \<le> int (length oldbin)"
  shows "returns (grow_backward oldbin newbin lastscan scan pos)
    (\<lambda>(i, s, Sb, lenb). 0 \<le> lenb \<and> lastscan + lenb \<le> scan \<and> lenb \<le> pos)"
  unfolding grow_backward_def
  by (rule loop_returns [where f = "\<lambda>(i, s, Sb, lenb). nat (scan + 1 - (lastscan + i))" and
      I = "\<lambda>(i, s, Sb, lenb). 1 \<le> i \<and> 0 \<le> lenb \<and> lastscan + lenb \<le> scan \<and> lenb \<le> pos"])
    (use assms in \<open>auto simp: Let_def\<close>)

lemma best_cut_returns:
  assumes "0 \<le> overlap" and "0 \<le> new_f" "new_f + overlap \<le> int (length newbin)"
    and "0 \<le> old_f" "old_f + overlap \<le> int (length oldbin)"
    and "0 \<le> new_b" "new_b + overlap \<le> int (length newbin)"
    and "0 \<le> old_b" "old_b + overlap \<le> int (length oldbin)"
  shows "returns (best_cut oldbin newbin overlap new_f old_f new_b old_b)
    (\<lambda>(i, s, Ss, lens). 0 \<le> lens \<and> lens \<le> overlap)"
  unfolding best_cut_def
  by (rule loop_returns [where f = "\<lambda>(i, s, Ss, lens). nat (overlap - i)" and
      I = "\<lambda>(i, s, Ss, lens). 0 \<le> i \<and> i \<le> overlap \<and> 0 \<le> lens \<and> lens \<le> i"])
    (use assms in \<open>auto simp: Let_def\<close>)

end
