(* ===== verification/Bsdiff_Roundtrip.thy ===== *)
theory Bsdiff_Roundtrip
  imports Bsdiff
begin

section \<open>A patch that is made restores the new file\<close>

text \<open>
  What the encoder has emitted at any time is a prefix of the new file, as the decoder assembles it;
  the outer loop keeps this and ends with the whole file. With a bzip2 reader that gets back what a
  writer was given, decoding the patch with the old file gives the new file.
\<close>

subsection \<open>What has been emitted\<close>

text \<open>Triples, diff and extra bytes for the first \<open>s\<close> bytes, leaving the old file at position \<open>p\<close>.\<close>

inductive emitted ::
  "bytes \<Rightarrow> bytes \<Rightarrow> (int \<times> int \<times> int) list \<Rightarrow> bytes \<Rightarrow> bytes \<Rightarrow> int \<Rightarrow> int \<Rightarrow> bool"
  for oldbin newbin :: bytes
where
  emitted_none: "emitted oldbin newbin [] [] [] 0 0"
| emitted_more: "emitted oldbin newbin cs ds es s p \<Longrightarrow> s < int (length newbin) \<Longrightarrow> 0 \<le> x \<Longrightarrow> 0 \<le> y \<Longrightarrow>
    s + x + y \<le> int (length newbin) \<Longrightarrow> p + x \<le> int (length oldbin) \<Longrightarrow>
    0 \<le> p' \<Longrightarrow> p' \<le> int (length oldbin) \<Longrightarrow>
    emitted oldbin newbin (cs @ [(x, y, p' - (p + x))])
      (ds @ map (\<lambda>i. newbin ! (nat s + i) - oldbin ! (nat p + i)) [0..<nat x])
      (es @ take (nat y) (drop (nat (s + x)) newbin)) (s + x + y) p'"

lemma emitted_bounds:
  "emitted oldbin newbin cs ds es s p \<Longrightarrow> 0 \<le> s \<and> s \<le> int (length newbin) \<and> 0 \<le> p \<and> p \<le> int (length oldbin)"
  by (induction rule: emitted.induct) auto

lemma add_plain_diff:
  assumes "0 \<le> s" "0 \<le> p" "s + int x \<le> int (length newbin)" "p + int x \<le> int (length oldbin)"
  shows "add_plain oldbin p (map (\<lambda>i. newbin ! (nat s + i) - oldbin ! (nat p + i)) [0..<x]) =
    take x (drop (nat s) newbin)"
  using assms by (intro nth_equalityI) (auto simp: add_plain_def nat_add_distrib)

text \<open>The decoder's view of a prefix, with anything behind it.\<close>

lemma emitted_assembles:
  assumes "emitted oldbin newbin cs ds es s p"
    and "int (length oldbin) \<le> 2 ^ 60" and "int (length newbin) \<le> 2 ^ 60"
  shows "ctrl_fits cs2 (length d2) (length e2) (int (length newbin) - s) p \<Longrightarrow>
      ctrl_fits (cs @ cs2) (length (ds @ d2)) (length (es @ e2)) (int (length newbin)) 0"
    and "assemble oldbin (cs @ cs2) (ds @ d2) (es @ e2) 0 =
      take (nat s) newbin @ assemble oldbin cs2 d2 e2 p"
  using assms(1)
proof (induction arbitrary: cs2 d2 e2 rule: emitted.induct)
  case emitted_none
  {
    case 1
    then show ?case by simp
  next
    case 2
    then show ?case by simp
  }
next
  case (emitted_more cs ds es s p x y p')
  note b = emitted_bounds [OF emitted_more.hyps(1)]
  let ?d = "map (\<lambda>i. newbin ! (nat s + i) - oldbin ! (nat p + i)) [0..<nat x]"
  let ?e = "take (nat y) (drop (nat (s + x)) newbin)" and ?t = "(x, y, p' - (p + x))"
  have ld: "length ?d = nat x" and le: "length ?e = nat y"
    using emitted_more.hyps b by (simp_all add: nat_le_iff)
  {
    case 1
    have "ctrl_fits (?t # cs2) (length (?d @ d2)) (length (?e @ e2)) (int (length newbin) - s) p"
      using 1 emitted_more.hyps b assms(2,3) unfolding ctrl_fits.simps length_append ld le
      by (auto simp: algebra_simps)
    from emitted_more.IH(1) [OF this] show ?case by simp
  next
    case 2
    have a: "add_plain oldbin p ?d = take (nat x) (drop (nat s) newbin)"
      by (rule add_plain_diff) (use emitted_more.hyps b in auto)
    have "assemble oldbin (?t # cs2) (?d @ d2) (?e @ e2) p =
        take (nat x) (drop (nat s) newbin) @ ?e @ assemble oldbin cs2 d2 e2 p'"
      using a ld le by simp
    moreover have "take (nat s) newbin @ take (nat x) (drop (nat s) newbin) @ ?e = take (nat (s + x + y)) newbin"
      using emitted_more.hyps b by (simp add: nat_add_distrib take_add)
    ultimately show ?case
      using emitted_more.IH(2) [of "?t # cs2" "?d @ d2" "?e @ e2"] by simp
  }
qed


subsection \<open>Filling the blocks\<close>

lemma take_put:
  "0 \<le> k \<Longrightarrow> k < int (length xs) \<Longrightarrow> take (nat (k + 1)) (put xs k v) = take (nat k) xs @ [v]"
  by (simp add: put_def nat_add_distrib take_Suc_conv_app_nth)

lemma fill_diff_returns:
  assumes "0 \<le> lastscan" "lastscan + lenf \<le> int (length newbin)" "0 \<le> lastpos" "lastpos + lenf \<le> int (length oldbin)"
    and "0 \<le> lenf" "0 \<le> dblen" "dblen + lenf \<le> int (length db)"
  shows "returns (fill_diff oldbin newbin lastscan lastpos lenf dblen db) (\<lambda>(db', _). length db' = length db \<and>
    take (nat (dblen + lenf)) db' =
      take (nat dblen) db @ map (\<lambda>i. newbin ! (nat lastscan + i) - oldbin ! (nat lastpos + i)) [0..<nat lenf])"
  unfolding fill_diff_def
proof (rule loop_returns [where f = "\<lambda>(db', i). nat (lenf - i)" and I = "\<lambda>(db', i). 0 \<le> i \<and> i \<le> lenf \<and>
      length db' = length db \<and> take (nat (dblen + i)) db' =
        take (nat dblen) db @ map (\<lambda>i. newbin ! (nat lastscan + i) - oldbin ! (nat lastpos + i)) [0..<nat i]"],
    goal_cases)
  case (2 s)
  obtain db' i where s: "s = (db', i)" by (cases s)
  have i: "0 \<le> i" "i < lenf" "length db' = length db" using 2 by (simp_all add: s)
  have t: "take (nat (dblen + i + 1)) (put db' (dblen + i) v) = take (nat (dblen + i)) db' @ [v]" for v
    by (rule take_put) (use i assms in auto)
  show ?case
    using 2 assms t by (auto simp: s get_def nat_add_distrib add.assoc)
qed (use assms in auto)

lemma fill_extra_returns:
  assumes "0 \<le> start" "start + n \<le> int (length newbin)" "0 \<le> n" "0 \<le> eblen" "eblen + n \<le> int (length eb)"
  shows "returns (fill_extra newbin start n eblen eb) (\<lambda>(eb', _). length eb' = length eb \<and>
    take (nat (eblen + n)) eb' = take (nat eblen) eb @ take (nat n) (drop (nat start) newbin))"
  unfolding fill_extra_def
proof (rule loop_returns [where f = "\<lambda>(eb', i). nat (n - i)" and I = "\<lambda>(eb', i). 0 \<le> i \<and> i \<le> n \<and>
      length eb' = length eb \<and> take (nat (eblen + i)) eb' =
        take (nat eblen) eb @ take (nat i) (drop (nat start) newbin)"], goal_cases)
  case (2 s)
  obtain eb' i where s: "s = (eb', i)" by (cases s)
  have i: "0 \<le> i" "i < n" "length eb' = length eb" using 2 by (simp_all add: s)
  have t: "take (nat (eblen + i + 1)) (put eb' (eblen + i) v) = take (nat (eblen + i)) eb' @ [v]" for v
    by (rule take_put) (use i assms in auto)
  have u: "take (nat (i + 1)) (drop (nat start) newbin) =
      take (nat i) (drop (nat start) newbin) @ [get newbin (start + i)]"
    using i assms by (simp add: get_def nat_add_distrib take_Suc_conv_app_nth)
  show ?case
    using 2 assms t u by (auto simp: s add.assoc)
qed (use assms in auto)

text \<open>The extensions leave room for each other.\<close>

lemma extents_returns:
  assumes "0 \<le> v_lastscan v" "v_lastscan v \<le> v_scan v" "v_scan v \<le> int (length newbin)"
    and "0 \<le> v_lastpos v" "v_lastpos v \<le> int (length oldbin)" "0 \<le> v_pos v" "v_pos v \<le> int (length oldbin)"
  shows "returns (extents oldbin newbin v) (\<lambda>(lenf, lenb). 0 \<le> lenf \<and> 0 \<le> lenb \<and>
    v_lastscan v + lenf \<le> v_scan v - lenb \<and> v_lastpos v + lenf \<le> int (length oldbin) \<and> lenb \<le> v_pos v \<and>
    (v_scan v = int (length newbin) \<longrightarrow> lenb = 0))"
  unfolding extents_def
proof (rule returns_afterI [OF grow_forward_returns], goal_cases)
  case (6 r)
  obtain i s Sf lenf where r: "r = (i, s, Sf, lenf)" by (cases r)
  have f: "0 \<le> lenf" "v_lastscan v + lenf \<le> v_scan v" "v_lastpos v + lenf \<le> int (length oldbin)"
    using 6 by (simp_all add: r)
  have grown: "returns (if v_scan v < int (length newbin)
        then grow_backward oldbin newbin (v_lastscan v) (v_scan v) (v_pos v) else gives (i, s, 0, 0))
      (\<lambda>(i, s, Sb, lenb). 0 \<le> lenb \<and> v_lastscan v + lenb \<le> v_scan v \<and> lenb \<le> v_pos v \<and>
        (v_scan v = int (length newbin) \<longrightarrow> lenb = 0))"
    using grow_backward_returns [of "v_lastscan v" "v_scan v" newbin "v_pos v" oldbin] assms
    by (auto elim!: returns_mono)
  show ?case
    unfolding r prod.case
  proof (rule returns_afterI [OF grown], clarify, goal_cases)
    case (1 i s Sb lenb)
    show ?case
    proof (cases "v_lastscan v + lenf > v_scan v - lenb")
      case False
      then show ?thesis using 1 f assms by simp
    next
      case True
      let ?o = "(v_lastscan v + lenf) - (v_scan v - lenb)"
      have "returns (best_cut oldbin newbin ?o (v_lastscan v + lenf - ?o) (v_lastpos v + lenf - ?o)
          (v_scan v - lenb) (v_pos v - lenb)) (\<lambda>(i, s, Ss, lens). 0 \<le> lens \<and> lens \<le> ?o)"
        by (rule best_cut_returns) (use True 1 f assms in linarith)+
      then show ?thesis
        using True 1 f assms by (auto simp: Let_def elim!: returns_mono)
    qed
  qed
qed (use assms in auto)


subsection \<open>The outer loop\<close>

text \<open>The blocks and the control bytes hold what was emitted.\<close>

definition emits :: "bytes \<Rightarrow> bytes \<Rightarrow> scanner \<Rightarrow> bool" where
  "emits oldbin newbin v \<longleftrightarrow>
     length (v_db v) = length newbin + 1 \<and> length (v_eb v) = length newbin + 1 \<and>
     0 \<le> v_dblen v \<and> 0 \<le> v_eblen v \<and> v_dblen v + v_eblen v = v_lastscan v \<and>
     (\<exists>cs. v_ctrl v = enc_ctrl cs \<and> emitted oldbin newbin cs (take (nat (v_dblen v)) (v_db v))
        (take (nat (v_eblen v)) (v_eb v)) (v_lastscan v) (v_lastpos v))"

definition scanning :: "bytes \<Rightarrow> bytes \<Rightarrow> scanner \<Rightarrow> bool" where
  "scanning oldbin newbin v \<longleftrightarrow> emits oldbin newbin v \<and>
     v_lastscan v \<le> v_scan v \<and> v_scan v \<le> int (length newbin) \<and> 0 \<le> v_ln v \<and>
     (v_scan v < int (length newbin) \<longrightarrow> v_scan v + v_ln v \<le> int (length newbin)) \<and>
     0 \<le> v_scan v + v_lastoffset v \<and> 0 \<le> v_pos v \<and> v_pos v \<le> int (length oldbin)"

lemma emits_bounds:
  assumes "emits oldbin newbin v"
  shows "0 \<le> v_lastscan v" "v_lastscan v \<le> int (length newbin)" "0 \<le> v_lastpos v" "v_lastpos v \<le> int (length oldbin)"
  using assms by (auto simp: emits_def dest: emitted_bounds)

lemma enc_ctrl_snoc: "enc_ctrl (cs @ [(x, y, z)]) = enc_ctrl cs @ offtout x @ offtout y @ offtout z"
  by (simp add: enc_ctrl_def)

lemma emits_more:
  assumes e: "emits oldbin newbin v" and x: "0 \<le> x" "0 \<le> y" "v_lastscan v + x + y \<le> int (length newbin)"
    "v_lastpos v + x \<le> int (length oldbin)" "0 \<le> p'" "p' \<le> int (length oldbin)"
    "v_lastscan v < int (length newbin)"
    and d: "length db = length (v_db v)" "take (nat (v_dblen v + x)) db = take (nat (v_dblen v)) (v_db v) @
      map (\<lambda>i. newbin ! (nat (v_lastscan v) + i) - oldbin ! (nat (v_lastpos v) + i)) [0..<nat x]"
    and b: "length eb = length (v_eb v)" "take (nat (v_eblen v + y)) eb = take (nat (v_eblen v)) (v_eb v) @
      take (nat y) (drop (nat (v_lastscan v + x)) newbin)"
    and v': "v' = v\<lparr>v_db := db, v_eb := eb, v_dblen := v_dblen v + x, v_eblen := v_eblen v + y,
       v_ctrl := v_ctrl v @ offtout x @ offtout y @ offtout (p' - (v_lastpos v + x)),
       v_lastscan := v_lastscan v + x + y, v_lastpos := p', v_lastoffset := off\<rparr>"
  shows "emits oldbin newbin v'"
proof -
  obtain cs where cs: "v_ctrl v = enc_ctrl cs" "emitted oldbin newbin cs (take (nat (v_dblen v)) (v_db v))
        (take (nat (v_eblen v)) (v_eb v)) (v_lastscan v) (v_lastpos v)" using e by (auto simp: emits_def)
  have "emitted oldbin newbin (cs @ [(x, y, p' - (v_lastpos v + x))]) (take (nat (v_dblen v + x)) db)
      (take (nat (v_eblen v + y)) eb) (v_lastscan v + x + y) p'"
    unfolding d(2) b(2) by (rule emitted_more [OF cs(2)]) (use x in auto)
  then show ?thesis
    unfolding v' emits_def using e x d(1) b(1) cs(1)
    by (auto simp: emits_def enc_ctrl_snoc intro!: exI [of _ "cs @ [(x, y, p' - (v_lastpos v + x))]"])
qed

lemma emit_returns:
  assumes e: "emits oldbin newbin v" and s: "v_lastscan v \<le> v_scan v" "v_scan v \<le> int (length newbin)"
    "v_lastscan v < int (length newbin)" "0 \<le> v_pos v" "v_pos v \<le> int (length oldbin)"
  shows "returns (emit oldbin newbin v) (\<lambda>v'. emits oldbin newbin v' \<and>
    v_scan v' = v_scan v \<and> v_ln v' = v_ln v \<and> v_pos v' = v_pos v \<and> v_lastscan v' \<le> v_scan v \<and>
    v_lastoffset v' = v_pos v - v_scan v \<and> (v_scan v = int (length newbin) \<longrightarrow> v_lastscan v' = v_scan v))"
  unfolding emit_def
proof (rule returns_afterI [OF extents_returns], goal_cases)
  note b = emits_bounds [OF e]
  have l: "int (length (v_db v)) = int (length newbin) + 1" "int (length (v_eb v)) = int (length newbin) + 1"
    "0 \<le> v_dblen v" "0 \<le> v_eblen v" "v_dblen v + v_eblen v = v_lastscan v"
    using e by (simp_all add: emits_def)
  case (8 r)
  obtain lenf lenb where r: "r = (lenf, lenb)" by (cases r)
  have f: "0 \<le> lenf" "0 \<le> lenb" "v_lastscan v + lenf \<le> v_scan v - lenb" "v_lastpos v + lenf \<le> int (length oldbin)"
    "lenb \<le> v_pos v" "v_scan v = int (length newbin) \<longrightarrow> lenb = 0" using 8 by (simp_all add: r)
  obtain y where y: "y = (v_scan v - lenb) - (v_lastscan v + lenf)" by blast
  show ?case
    unfolding r prod.case Let_def y [symmetric]
  proof (rule returns_afterI [OF fill_diff_returns], goal_cases)
    case (8 q)
    obtain db i where q: "q = (db, i)" by (cases q)
    show ?case
      unfolding q prod.case
    proof (rule returns_afterI [OF fill_extra_returns], goal_cases)
      case (6 u)
      obtain eb j where u: "u = (eb, j)" by (cases u)
      have eq: "v_scan v - lenb = v_lastscan v + lenf + y" using y by simp
      have "emits oldbin newbin (v\<lparr>v_db := db, v_eb := eb, v_dblen := v_dblen v + lenf, v_eblen := v_eblen v + y,
          v_ctrl := v_ctrl v @ offtout lenf @ offtout y @ offtout ((v_pos v - lenb) - (v_lastpos v + lenf)),
          v_lastscan := v_lastscan v + lenf + y, v_lastpos := v_pos v - lenb, v_lastoffset := v_pos v - v_scan v\<rparr>)"
        by (rule emits_more [OF e _ _ _ _ _ _ _ _ _ _ _ refl]) (use 6 8 f y s in \<open>auto simp: u q\<close>)
      then show ?case using f s eq by (auto simp: u)
    qed (use f s b l y in auto)
  qed (use f s b l y in auto)
qed (use s emits_bounds [OF e] in auto)

lemma scanning_step:
  assumes i: "positions oldbin iii" and v: "scanning oldbin newbin v" and more: "v_scan v < int (length newbin)"
  shows "returns (diff_step iii oldbin newbin v) (\<lambda>v'. scanning oldbin newbin v' \<and>
    (v_scan v' < int (length newbin) \<longrightarrow> v_scan v + v_ln v < v_scan v' + v_ln v') \<and>
    (v_scan v' = int (length newbin) \<longrightarrow> v_lastscan v' = int (length newbin)))"
proof -
  have s: "emits oldbin newbin v" "v_lastscan v \<le> v_scan v" "0 \<le> v_ln v" "v_scan v + v_ln v \<le> int (length newbin)"
    "0 \<le> v_scan v + v_lastoffset v" "0 \<le> v_pos v" "v_pos v \<le> int (length oldbin)"
    using v more by (simp_all add: scanning_def)
  note b = emits_bounds [OF s(1)]
  show ?thesis
    unfolding diff_step_def
  proof (rule returns_afterI [OF find_next_returns [OF i]], goal_cases)
    case (7 r)
    obtain brk scan scsc sc ln pos where r: "r = (brk, scan, scsc, sc, ln, pos)" by (cases r)
    obtain u where u: "u = v\<lparr>v_scan := scan, v_ln := ln, v_pos := pos\<rparr>" by blast
    have us: "v_scan u = scan" "v_ln u = ln" "v_pos u = pos" "v_lastscan u = v_lastscan v"
      "v_lastoffset u = v_lastoffset v" "emits oldbin newbin u"
      using s(1) by (simp_all add: u emits_def)
    have f: "v_scan v + v_ln v \<le> scan" "scan \<le> int (length newbin)" "0 \<le> ln" "0 \<le> pos" "pos \<le> int (length oldbin)"
      "scan < int (length newbin) \<longrightarrow> scan + ln \<le> int (length newbin) \<and> v_scan v + v_ln v < scan + ln"
      using 7 by (simp_all add: r found_def)
    have "returns (emit oldbin newbin u) (\<lambda>v'. emits oldbin newbin v' \<and>
      v_scan v' = v_scan u \<and> v_ln v' = v_ln u \<and> v_pos v' = v_pos u \<and> v_lastscan v' \<le> v_scan u \<and>
      v_lastoffset v' = v_pos u - v_scan u \<and> (v_scan u = int (length newbin) \<longrightarrow> v_lastscan v' = v_scan u))"
      by (rule emit_returns) (use us f s more in auto)
    then show ?case
      using us f s by (auto simp: r u [symmetric] scanning_def elim!: returns_mono)
  qed (use s b in auto)
qed

text \<open>The outer loop ends, with the whole new file emitted.\<close>

lemma diff_loop_returns:
  assumes "positions oldbin iii"
  shows "returns (diff_loop iii oldbin newbin) (\<lambda>v. emits oldbin newbin v \<and> v_lastscan v = int (length newbin))"
  unfolding diff_loop_def
proof (rule loop_returns [where f = "\<lambda>v. if v_scan v < int (length newbin)
      then Suc (nat (int (length newbin) - (v_scan v + v_ln v))) else 0" and I = "\<lambda>v. scanning oldbin newbin v \<and>
      (v_scan v = int (length newbin) \<longrightarrow> v_lastscan v = int (length newbin))"], goal_cases)
  case 1
  have "emits oldbin newbin \<lparr> v_scan = 0, v_ln = 0, v_lastscan = 0, v_lastpos = 0, v_lastoffset = 0, v_pos = 0,
         v_db = replicate (length newbin + 1) 0, v_dblen = 0,
         v_eb = replicate (length newbin + 1) 0, v_eblen = 0, v_ctrl = [] \<rparr>"
    by (auto simp: emits_def enc_ctrl_def intro: emitted_none intro!: exI [of _ "[]"])
  then show ?case by (simp add: scanning_def)
next
  case (2 v)
  then have "returns (diff_step iii oldbin newbin v) (\<lambda>v'. scanning oldbin newbin v' \<and>
    (v_scan v' < int (length newbin) \<longrightarrow> v_scan v + v_ln v < v_scan v' + v_ln v') \<and>
    (v_scan v' = int (length newbin) \<longrightarrow> v_lastscan v' = int (length newbin)))"
    by (intro scanning_step [OF assms]) simp_all
  then show ?case
    by (rule returns_mono) (use 2 in \<open>auto simp: scanning_def\<close>)
next
  case (3 v)
  then show ?case by (auto simp: scanning_def)
qed


text \<open>All that the encoder asks of its sorter: it ends, with a list of positions. \<open>qsufsort\<close> does.\<close>

locale suffix_sorter =
  fixes sorter :: "bytes \<Rightarrow> int list run"
  assumes ends: "returns (sorter buf) (positions buf)"
begin

lemma scans:
  "returns (after (sorter oldbin) (\<lambda>iii. diff_loop iii oldbin newbin))
     (\<lambda>v. emits oldbin newbin v \<and> v_lastscan v = int (length newbin))"
  by (rule returns_afterI [OF ends diff_loop_returns])

lemma searches:
  "returns (after (sorter oldbin) (\<lambda>iii. search iii oldbin newbin 0 (int (length oldbin)))) (match_at oldbin newbin)"
  by (rule returns_afterI [OF ends search_returns]) simp_all

end

interpretation qs: suffix_sorter qsufsort
  by unfold_locales (rule returns_mono [OF qsufsort_returns suffix_array_positions])


subsection \<open>The file\<close>

text \<open>The steps of \<open>diffb\<close> behind the outer loop.\<close>

definition diff_file :: "(bytes \<Rightarrow> bytes res) \<Rightarrow> bytes \<Rightarrow> bytes \<Rightarrow> bytes \<Rightarrow> int \<Rightarrow> bytes run" where
  "diff_file bz2 c d e n =
     after (lift_res (bz2 c)) (\<lambda>zc. after (lift_res (bz2 d)) (\<lambda>zd. after (lift_res (bz2 e)) (\<lambda>ze.
       gives (patch_file n zc zd ze))))"

lemma length_magic [simp]: "length magic = 8"
  by (simp add: magic_def)

lemma header_start:
  "put_offset 24 n (put_offset 16 0 (put_offset 8 0 (magic @ replicate 24 0))) =
     magic @ offtout 0 @ offtout 0 @ offtout n"
  by (simp add: put_offset_def)

lemma header_ctrl: "put_offset 8 x (magic @ a @ b) = magic @ offtout x @ b" if "length a = 8"
  using that by (simp add: put_offset_def)

lemma header_diff: "put_offset 16 x (magic @ offtout y @ a @ b) = magic @ offtout y @ offtout x @ b" if "length a = 8"
  using that by (simp add: put_offset_def)

lemma write_behind: "b_pos m = length (b_buf m) \<Longrightarrow>
    Write p m = \<lparr> b_buf = b_buf m @ p, b_pos = length (b_buf m) + length p \<rparr>"
  by (simp add: Write_def)

lemma write_header:
  "b_buf (Write (magic @ offtout a @ offtout b @ offtout n)
     \<lparr> b_buf = magic @ offtout a' @ offtout b' @ offtout n' @ r, b_pos = 0 \<rparr>) =
   magic @ offtout a @ offtout b @ offtout n @ r"
  by (simp add: Write_def)

lemma lift_res_Inr [simp]: "lift_res (Inr x) = gives x"
  by (simp add: lift_res_def gives_def)

lemma diffb_file:
  assumes q: "qsufsort oldbin = gives iii" and l: "diff_loop iii oldbin newbin = gives v"
    and e: "emits oldbin newbin v" and last: "v_lastscan v = int (length newbin)"
    and m: "8 * (int (length oldbin) + 1) \<le> max_alloc" "int (length newbin) + 1 \<le> max_alloc"
  shows "diffb bz2 oldbin newbin = diff_file bz2 (v_ctrl v) (take (nat (v_dblen v)) (v_db v))
    (take (nat (v_eblen v)) (v_eb v)) (int (length newbin))"
proof -
  have b: "0 \<le> v_dblen v" "v_dblen v \<le> int (length (v_db v))" "0 \<le> v_eblen v" "v_eblen v \<le> int (length (v_eb v))"
    using e last by (simp_all add: emits_def)
  have sd: "subslice (v_db v) 0 (v_dblen v) = gives (take (nat (v_dblen v)) (v_db v))"
    "subslice (v_eb v) 0 (v_eblen v) = gives (take (nat (v_eblen v)) (v_eb v))"
    using b by (simp_all add: subslice_def)
  let ?n = "int (length newbin)"
  show ?thesis
    using m q l sd
    by (simp add: diffb_def diff_file_def Let_def put_block_def header_start header_ctrl header_diff
        write_behind write_header after_assoc patch_file_def Seek_def)
qed

text \<open>A bzip2 reader gets back what a writer was given, whatever follows in the file.\<close>

definition undoes :: "(bytes \<Rightarrow> bytes \<times> goerr) \<Rightarrow> (bytes \<Rightarrow> bytes res) \<Rightarrow> bool" where
  "undoes bz bz2 \<longleftrightarrow> (\<forall>x z r. bz2 x = Inr z \<longrightarrow> (\<exists>t er. bz (z @ r) = (x @ t, er)))"

lemma enc_blocks_decode:
  assumes u: "undoes bz bz2" and e: "emitted oldbin newbin cs ds es (int (length newbin)) p"
    and z: "bz2 (enc_ctrl cs) = Inr c" "bz2 ds = Inr d" "bz2 es = Inr z"
    and m: "8 * (int (length oldbin) + 1) \<le> max_alloc" "int (length newbin) + 1 \<le> max_alloc"
    and l: "int (length (patch_file (int (length newbin)) c d z)) < 2 ^ 61"
  shows "patchb bz oldbin (patch_file (int (length newbin)) c d z) = Inr newbin"
proof -
  obtain tc td te ec ed ee where r: "bz (c @ d @ z) = (enc_ctrl cs @ tc, ec)" "bz (d @ z) = (ds @ td, ed)"
    "bz (z @ []) = (es @ te, ee)"
    using u z unfolding undoes_def by meson
  have s: "int (length oldbin) \<le> 2 ^ 60" "int (length newbin) \<le> 2 ^ 60" using m by (simp_all add: max_alloc_def)
  have fits: "ctrl_fits cs (length (ds @ td)) (length (es @ te)) (int (length newbin)) 0"
    using emitted_assembles(1) [OF e s, of "[]" td te] by simp
  have out: "assemble oldbin cs (ds @ td) (es @ te) 0 = newbin"
    using emitted_assembles(2) [OF e s, of "[]" td te] by simp
  have "patchb bz oldbin (patch_file (int (length newbin)) c d z) =
      patch_loop oldbin (int (length newbin)) (enc_ctrl cs @ tc, ec) (ds @ td, ed) (es @ te, ee) [] 0"
    using m l r by (subst patchb_patch_file) (simp_all add: patch_file_def)
  also have "\<dots> = Inr ([] @ assemble oldbin cs (ds @ td) (es @ te) 0)"
    by (rule patch_loop_assemble) (use fits m in \<open>simp_all add: max_alloc_def\<close>)
  finally show ?thesis by (simp add: out)
qed

text \<open>What a call returns: a patch that decodes to the new file, or the error of the bzip2 writer.\<close>

definition restores :: "(bytes \<Rightarrow> bytes \<times> goerr) \<Rightarrow> bytes \<Rightarrow> bytes \<Rightarrow> bytes \<Rightarrow> bool" where
  "restores bz oldbin newbin patch \<longleftrightarrow> (int (length patch) < 2 ^ 61 \<longrightarrow> patchb bz oldbin patch = Inr newbin)"

definition writer_error :: "(bytes \<Rightarrow> bytes res) \<Rightarrow> bytes run \<Rightarrow> bool" where
  "writer_error bz2 r \<longleftrightarrow> (\<exists>x e. bz2 x = Inl e \<and> r = stops e)"

lemma diffb_result:
  assumes u: "undoes bz bz2" and m: "8 * (int (length oldbin) + 1) \<le> max_alloc" "int (length newbin) + 1 \<le> max_alloc"
  shows "returns (diffb bz2 oldbin newbin) (restores bz oldbin newbin) \<or> writer_error bz2 (diffb bz2 oldbin newbin)"
proof -
  obtain iii v where q: "qsufsort oldbin = gives iii" and v: "diff_loop iii oldbin newbin = gives v"
    "emits oldbin newbin v" "v_lastscan v = int (length newbin)"
    using qs.scans [of oldbin newbin] by (auto simp: returns_def after_eq_gives)
  obtain cs where cs: "v_ctrl v = enc_ctrl cs" and e: "emitted oldbin newbin cs (take (nat (v_dblen v)) (v_db v))
        (take (nat (v_eblen v)) (v_eb v)) (int (length newbin)) (v_lastpos v)"
    using v(2,3) by (auto simp: emits_def)
  have r: "diffb bz2 oldbin newbin = diff_file bz2 (enc_ctrl cs) (take (nat (v_dblen v)) (v_db v))
      (take (nat (v_eblen v)) (v_eb v)) (int (length newbin))"
    using diffb_file [OF q v m] cs by simp
  consider (good) c d z where "bz2 (enc_ctrl cs) = Inr c" "bz2 (take (nat (v_dblen v)) (v_db v)) = Inr d"
      "bz2 (take (nat (v_eblen v)) (v_eb v)) = Inr z"
    | (bad) x er where "bz2 x = Inl er" "diffb bz2 oldbin newbin = stops er"
    unfolding r diff_file_def
    by (cases "bz2 (enc_ctrl cs)"; cases "bz2 (take (nat (v_dblen v)) (v_db v))";
      cases "bz2 (take (nat (v_eblen v)) (v_eb v))") (auto simp: lift_res_def after_def stops_def gives_def)
  then show ?thesis
  proof cases
    case good
    then show ?thesis
      using enc_blocks_decode [OF u e good m] by (simp add: r diff_file_def restores_def)
  next
    case bad
    then show ?thesis unfolding writer_error_def by blast
  qed
qed

subsection \<open>The round trip\<close>

text \<open>\<open>C5\<close>. Making a patch and applying it gives the new file. For all files that fit in memory, and a
  bzip2 reader that gets back what the writer was given, \<open>diffb\<close> ends without a panic; unless the
  writer fails, it returns a patch that the decoder, given the old file, turns into the new one.\<close>

theorem diffb_roundtrip:
  assumes "\<And>x z r. bz2 x = Inr z \<Longrightarrow> \<exists>t er. bz (z @ r) = (x @ t, er)"
    and "8 * (int (length oldbin) + 1) \<le> max_alloc" and "int (length newbin) + 1 \<le> max_alloc"
  shows "(\<exists>patch. diffb bz2 oldbin newbin = gives patch \<and>
      (int (length patch) < 2 ^ 61 \<longrightarrow> patchb bz oldbin patch = Inr newbin)) \<or>
    (\<exists>x e. bz2 x = Inl e \<and> diffb bz2 oldbin newbin = stops e)"
proof -
  have "undoes bz bz2" using assms(1) by (auto simp: undoes_def)
  from diffb_result [OF this assms(2,3)] show ?thesis
    by (auto simp: returns_def restores_def writer_error_def)
qed

text \<open>A stand-in for bzip2 on blocks of any length: each byte behind a 1, and a 0 at the end.\<close>

fun tag_bytes :: "bytes \<Rightarrow> bytes" where
  "tag_bytes [] = [0]"
| "tag_bytes (b # bs) = 1 # b # tag_bytes bs"

fun untag_bytes :: "bytes \<Rightarrow> bytes" where
  "untag_bytes (t # b # r) = (if t = 0 then [] else b # untag_bytes r)"
| "untag_bytes _ = []"

definition tag_bzip2 :: "bytes \<Rightarrow> bytes res" where
  "tag_bzip2 x = Inr (tag_bytes x)"

definition tag_bunzip2 :: "bytes \<Rightarrow> bytes \<times> goerr" where
  "tag_bunzip2 x = (untag_bytes x, eof)"

lemma untag_tag: "untag_bytes (tag_bytes x @ r) = x"
proof (induction x)
  case Nil
  show ?case by (cases r) simp_all
qed simp

lemma tag_codec: "tag_bzip2 x = Inr z \<Longrightarrow> \<exists>t er. tag_bunzip2 (z @ r) = (x @ t, er)"
  by (auto simp: tag_bzip2_def tag_bunzip2_def untag_tag)

lemma tag_total: "tag_bzip2 x \<noteq> Inl e"
  by (simp add: tag_bzip2_def)

definition demo_diff :: bytes where
  "demo_diff = patch_file 5 (tag_bytes (enc_ctrl [(0, 5, 0)])) [0] (tag_bytes [11, 20, 31, 7, 8])"

definition demo_scanner :: scanner where
  "demo_scanner = \<lparr> v_scan = 5, v_ln = 0, v_lastscan = 5, v_lastpos = 0, v_lastoffset = -5, v_pos = 0,
     v_db = replicate 6 0, v_dblen = 0, v_eb = [11, 20, 31, 7, 8, 0], v_eblen = 5,
     v_ctrl = enc_ctrl [(0, 5, 0)] \<rparr>"

lemma demo_diff_made: "diffb tag_bzip2 [10, 20, 30] [11, 20, 31, 7, 8] = gives demo_diff"
proof -
  have q: "qsufsort [10, 20, 30] = gives [3, 0, 1, 2]" by code_simp
  have l: "diff_loop [3, 0, 1, 2] [10, 20, 30] [11, 20, 31, 7, 8] = gives demo_scanner" by code_simp
  have p: "positions [10, 20, 30] [3, 0, 1, 2]" by (simp add: positions_def)
  have e: "emits [10, 20, 30] [11, 20, 31, 7, 8] demo_scanner"
    using diff_loop_returns [OF p, of "[11, 20, 31, 7, 8]"] by (simp add: l)
  show ?thesis
    by (subst diffb_file [OF q l e]) (simp_all add: demo_scanner_def demo_diff_def diff_file_def tag_bzip2_def max_alloc_def)
qed

theorem diffb_roundtrip_witness: "patchb tag_bunzip2 [10, 20, 30] demo_diff = Inr [11, 20, 31, 7, 8]"
proof -
  have l: "int (length demo_diff) < 2 ^ 61" by code_simp
  show ?thesis
    using diffb_roundtrip [of tag_bzip2 tag_bunzip2 "[10, 20, 30]" "[11, 20, 31, 7, 8]", OF tag_codec] l
    by (simp add: demo_diff_made tag_total max_alloc_def)
qed

end
