(* ===== verification/Bsdiff_Cmd.thy ===== *)
theory Bsdiff_Cmd
  imports Bsdiff_Roundtrip Patch Transport
begin

section \<open>client/cmd/bsdiff: making a patch file\<close>

text \<open>
  Models \<open>Bytes\<close> and \<open>File\<close> of \<^verbatim>\<open>pkg/bsdiff/bsdiff.go\<close> and \<^verbatim>\<open>main\<close> of \<^verbatim>\<open>client/cmd/bsdiff/main.go\<close>, the
  program the server's patch worker runs: the exit code and what is printed on the standard error
  stream; and the stream variant \<open>Reader\<close> with \<open>PutWriter\<close> of \<^verbatim>\<open>pkg/util/io.go\<close>.
  The patch the command leaves is the one the client's \<open>Apply\<close> decodes to the new file.
\<close>

definition diff_Bytes :: "(bytes \<Rightarrow> bytes res) \<Rightarrow> bytes \<Rightarrow> bytes \<Rightarrow> bytes run" where
  "diff_Bytes bz2 oldbs newbs = diffb bz2 oldbs newbs"

definition in_quotes :: "string \<Rightarrow> string" where
  "in_quotes s = [CHR 0x27] @ s @ [CHR 0x27]"

definition File :: "(bytes \<Rightarrow> bytes res) \<Rightarrow> env \<Rightarrow> string \<Rightarrow> string \<Rightarrow> string \<Rightarrow> unit run act" where
  "File bz2 env oldfile newfile patchfile = do {
     r1 \<leftarrow> os_read_file env oldfile;
     case r1 of
       Inl e \<Rightarrow> State_Monad.return (stops
         (NewErr (''could not read oldfile '' @ in_quotes oldfile @ '': '' @ err_text e)))
     | Inr oldbs \<Rightarrow> do {
     r2 \<leftarrow> os_read_file env newfile;
     case r2 of
       Inl e \<Rightarrow> State_Monad.return (stops
         (NewErr (''could not read newfile '' @ in_quotes newfile @ '': '' @ err_text e)))
     | Inr newbs \<Rightarrow> (case diffb bz2 oldbs newbs of
       None \<Rightarrow> State_Monad.return None
     | Some (Inl e) \<Rightarrow> State_Monad.return (stops
         (if is_panic e then e else NewErr (''bsdiff: '' @ err_text e)))
     | Some (Inr diffbytes) \<Rightarrow> do {
     r3 \<leftarrow> os_write_file env patchfile diffbytes 420;
     case r3 of
       Inl e \<Rightarrow> State_Monad.return (stops
         (NewErr (''could create patchfile '' @ in_quotes patchfile @ '': '' @ err_text e)))
     | Inr _ \<Rightarrow> State_Monad.return (gives ()) }) }}"

text \<open>The exit code and the standard error stream; \<open>None\<close> for a process that does not end.\<close>

definition bsdiff_main :: "(bytes \<Rightarrow> bytes res) \<Rightarrow> env \<Rightarrow> string list \<Rightarrow> (int \<times> string) option act" where
  "bsdiff_main bz2 env osArgs =
     (if osArgs = [] then State_Monad.return (Some (2, err_text index_panic))
      else if length osArgs \<noteq> 4
      then State_Monad.return (Some (2, ''usage: '' @ osArgs ! 0 @ '' oldfile newfile patchfile'' @ [CHR 10]))
      else do {
        r \<leftarrow> File bz2 env (osArgs ! 1) (osArgs ! 2) (osArgs ! 3);
        State_Monad.return (case r of
          None \<Rightarrow> None
        | Some (Inr _) \<Rightarrow> Some (0, [])
        | Some (Inl e) \<Rightarrow>
            if is_panic e then Some (2, err_text e) else Some (1, ''bsdiff: '' @ err_text e @ [CHR 10])) })"

text \<open>A stream to write to: the number of bytes written and the error of each \<^verbatim>\<open>Write\<close>.\<close>

type_synonym 's target = "bytes \<Rightarrow> 's \<Rightarrow> (int \<times> goerr option) \<times> 's"

definition buffersize :: int where
  "buffersize = 1024 * 16"

function put_loop :: "'s target \<Rightarrow> bytes \<Rightarrow> int \<Rightarrow> 's \<Rightarrow> goerr option \<times> 's" where
  "put_loop wr b offs s =
     (let lb = int (length b) in
      if offs < lb then
        let n = min buffersize (lb - offs) in
        (case wr (take (nat n) (drop (nat offs) b)) s of
           ((n2, Some e), s') \<Rightarrow> (Some e, s')
         | ((n2, None), s') \<Rightarrow>
             if n2 \<noteq> n
             then (Some (NewErr (itoa (offs + n2) @ '' of '' @ itoa lb @ '' bytes written'')), s')
             else put_loop wr b (offs + n) s')
      else (None, s))"
  by pat_completeness auto
termination
  by (relation "measure (\<lambda>(wr, b, offs, s). nat (int (length b) - offs))") (auto simp: buffersize_def)

declare put_loop.simps [simp del]

definition PutWriter :: "'s target \<Rightarrow> bytes \<Rightarrow> 's \<Rightarrow> goerr option \<times> 's" where
  "PutWriter wr b s =
     (let lb = int (length b) in
      if lb < buffersize then
        (case wr b s of
           ((n, Some e), s') \<Rightarrow> (Some e, s')
         | ((n, None), s') \<Rightarrow>
             if lb \<noteq> n then (Some (NewErr (itoa n @ '' of '' @ itoa lb @ '' bytes written'')), s')
             else (None, s'))
      else put_loop wr b 0 s)"

definition diff_Reader ::
  "(bytes \<Rightarrow> bytes res) \<Rightarrow> body \<Rightarrow> body \<Rightarrow> 's target \<Rightarrow> 's \<Rightarrow> (goerr option \<times> 's) option"
where
  "diff_Reader bz2 oldbin newbin patchf s =
     (case read_all oldbin of
        Inl e \<Rightarrow> Some (Some e, s)
      | Inr oldbs \<Rightarrow> (case read_all newbin of
          Inl e \<Rightarrow> Some (Some e, s)
        | Inr newbs \<Rightarrow> (case diffb bz2 oldbs newbs of
            None \<Rightarrow> None
          | Some (Inl e) \<Rightarrow> Some (Some e, s)
          | Some (Inr diffbytes) \<Rightarrow> Some (PutWriter patchf diffbytes s))))"

text \<open>A stream that takes all it is given gets all the bytes, in whatever pieces they are cut.\<close>

definition takes_all :: "bytes target" where
  "takes_all p s = ((int (length p), None), s @ p)"

lemma put_loop_all: "0 \<le> offs \<Longrightarrow> offs \<le> int (length b) \<Longrightarrow> put_loop takes_all b offs s = (None, s @ drop (nat offs) b)"
proof (induction "nat (int (length b) - offs)" arbitrary: offs s rule: less_induct)
  case less
  show ?case
  proof (cases "offs < int (length b)")
    case True
    obtain n where n: "min buffersize (int (length b) - offs) = n" by blast
    then have r: "0 < n" "offs + n \<le> int (length b)" using True by (auto simp: buffersize_def)
    have "put_loop takes_all b (offs + n) (s @ take (nat n) (drop (nat offs) b)) =
        (None, (s @ take (nat n) (drop (nat offs) b)) @ drop (nat (offs + n)) b)"
      by (rule less(1)) (use r less(2) in auto)
    moreover have "take (nat n) (drop (nat offs) b) @ drop (nat (offs + n)) b = drop (nat offs) b"
      using r(1) less(2) append_take_drop_id [of "nat n" "drop (nat offs) b"]
      by (simp add: nat_add_distrib add.commute)
    moreover have "int (length (take (nat n) (drop (nat offs) b))) = n"
      using r less(2) unfolding length_take length_drop by linarith
    ultimately show ?thesis
      using True n by (subst put_loop.simps) (simp add: takes_all_def Let_def)
  qed (use less(2,3) in \<open>simp add: put_loop.simps\<close>)
qed

lemma PutWriter_all: "PutWriter takes_all b s = (None, s @ b)"
  using put_loop_all [of 0 b s] by (simp add: PutWriter_def Let_def) (simp add: takes_all_def)

lemma keeps_File [keeps_intros]: "at env p \<in> L \<Longrightarrow> keeps (frame L) (File bz2 env o1 n1 p)"
  unfolding File_def
  by (intro keeps_intros; (assumption | simp split: option.split sum.split)?; intro keeps_intros; assumption)

lemma keeps_bsdiff_main: "keeps (frame {at env (args ! 3)}) (bsdiff_main bz2 env args)"
  unfolding bsdiff_main_def by (intro keeps_intros) simp

text \<open>Files that the process can hold in memory, with the arrays of the sorter.\<close>

definition fits_memory :: "env \<Rightarrow> string \<Rightarrow> string \<Rightarrow> world \<Rightarrow> bool" where
  "fits_memory env o1 n1 w \<longleftrightarrow>
     (\<forall>m d. look w (at env o1) = Some (FileNode m d) \<longrightarrow> 8 * (int (length d) + 1) \<le> max_alloc) \<and>
     (\<forall>m d. look w (at env n1) = Some (FileNode m d) \<longrightarrow> int (length d) + 1 \<le> max_alloc)"

text \<open>What a call of \<open>File\<close> returns, and what it leaves.\<close>

definition file_made ::
  "(bytes \<Rightarrow> bytes \<times> goerr) \<Rightarrow> env \<Rightarrow> string \<Rightarrow> string \<Rightarrow> string \<Rightarrow> world \<Rightarrow> world \<Rightarrow> bool"
where
  "file_made bz env o1 n1 p w w' \<longleftrightarrow> (\<exists>m1 od m2 nd m3 pd.
     look w (at env o1) = Some (FileNode m1 od) \<and> look w (at env n1) = Some (FileNode m2 nd) \<and>
     look w' (at env p) = Some (FileNode m3 pd) \<and> restores bz od nd pd)"

definition file_outcome ::
  "(bytes \<Rightarrow> bytes \<times> goerr) \<Rightarrow> env \<Rightarrow> string \<Rightarrow> string \<Rightarrow> string \<Rightarrow> world \<Rightarrow> unit run \<Rightarrow> world \<Rightarrow> bool"
where
  "file_outcome bz env o1 n1 p w r w' \<longleftrightarrow>
     (r = gives () \<and> file_made bz env o1 n1 p w w') \<or> (\<exists>t. r = stops (NewErr t))"

lemma stops_eq [simp]: "stops e = stops e' \<longleftrightarrow> e = e'"
  by (simp add: stops_def)

lemma wp_File_write:
  assumes "look w (at env o1) = Some (FileNode m1 od)" "look w (at env n1) = Some (FileNode m2 nd)"
    and "restores bz od nd pd"
  shows "wp (do { r3 \<leftarrow> os_write_file env p pd 420;
      case r3 of
        Inl e \<Rightarrow> State_Monad.return (stops (NewErr (''could create patchfile '' @ in_quotes p @ '': '' @ err_text e)))
      | Inr _ \<Rightarrow> State_Monad.return (gives ()) }) (file_outcome bz env o1 n1 p w) w2"
  by (rule wp_bindI [OF wp_os_write_file])
    (use assms in \<open>auto simp: file_outcome_def file_made_def wp_return split: sum.splits\<close>)

lemma wp_File:
  assumes u: "undoes bz bz2" and np: "\<And>x e. bz2 x = Inl e \<Longrightarrow> \<not> is_panic e" and m: "fits_memory env o1 n1 w"
  shows "wp (File bz2 env o1 n1 p) (file_outcome bz env o1 n1 p w) w"
  unfolding File_def
proof (rule wp_bindI [OF wp_os_read_file], goal_cases)
  case (1 r1 w1)
  show ?case
  proof (cases r1)
    case (Inl e)
    then show ?thesis by (simp add: wp_return file_outcome_def)
  next
    case (Inr od)
    then obtain m1 where o1: "look w (at env o1) = Some (FileNode m1 od)" and s1: "same_files w w1" using 1 by auto
    show ?thesis
      unfolding Inr sum.case
    proof (rule wp_bindI [OF wp_os_read_file], goal_cases)
      case (1 r2 w2)
      show ?case
      proof (cases r2)
        case (Inl e)
        then show ?thesis by (simp add: wp_return file_outcome_def)
      next
        case (Inr nd)
        then obtain m2 where n1: "look w (at env n1) = Some (FileNode m2 nd)"
          using 1 s1 by (auto simp: same_files_look [of w w1])
        have "returns (diffb bz2 od nd) (restores bz od nd) \<or> writer_error bz2 (diffb bz2 od nd)"
          by (rule diffb_result [OF u]) (use m o1 n1 in \<open>auto simp: fits_memory_def\<close>)
        then show ?thesis
          unfolding Inr sum.case returns_def writer_error_def
        proof (elim disjE exE conjE, goal_cases)
          case (1 pd)
          show ?case
            unfolding 1(1) gives_def option.case sum.case
            by (rule wp_File_write [OF o1 n1 1(2), unfolded gives_def])
        next
          case (2 x e)
          then show ?case using np [OF 2(1)] by (simp add: stops_def wp_return file_outcome_def)
        qed
      qed
    qed
  qed
qed

text \<open>What a run of the command does.\<close>

definition command_outcome ::
  "(bytes \<Rightarrow> bytes \<times> goerr) \<Rightarrow> env \<Rightarrow> string \<Rightarrow> string \<Rightarrow> string \<Rightarrow> world \<Rightarrow> (int \<times> string) option \<Rightarrow> world \<Rightarrow> bool"
where
  "command_outcome bz env o1 n1 p w r w' \<longleftrightarrow>
     (r = Some (0, []) \<and> file_made bz env o1 n1 p w w') \<or> (\<exists>t. r = Some (1, ''bsdiff: '' @ t @ [CHR 10]))"

lemma wp_bsdiff_main:
  assumes "undoes bz bz2" and "\<And>x e. bz2 x = Inl e \<Longrightarrow> \<not> is_panic e" and "fits_memory env o1 n1 w"
  shows "wp (bsdiff_main bz2 env [prog, o1, n1, p]) (command_outcome bz env o1 n1 p w) w"
proof -
  have "wp (do { r \<leftarrow> File bz2 env o1 n1 p;
      State_Monad.return (case r of
          None \<Rightarrow> None
        | Some (Inr _) \<Rightarrow> Some (0, [])
        | Some (Inl e) \<Rightarrow>
            if is_panic e then Some (2, err_text e) else Some (1, ''bsdiff: '' @ err_text e @ [CHR 10])) })
    (command_outcome bz env o1 n1 p w) w"
    by (rule wp_bindI [OF wp_File [OF assms]])
      (auto simp: wp_return file_outcome_def command_outcome_def gives_def stops_def)
  then show ?thesis by (simp add: bsdiff_main_def)
qed

text \<open>On the client's side: with nothing failing, the patch is applied and makes the new file.\<close>

lemma wp_Apply_restores:
  assumes nf: "no_faults env" and f: "look w (at env o1) = Some (FileNode m1 od)" "look w (at env p) = Some (FileNode m2 pd)"
    and r: "restores (e_bunzip2 env) od nd pd" "int (length pd) < 2 ^ 61"
    and dst: "named dst" "look w (butlast (at env dst)) = Some DirNode" "look w (at env dst) \<noteq> Some DirNode"
      "look w (at env (dst @ ''.part'')) = None"
  shows "wp (Apply env o1 p dst (hex_encode (e_sha256 env nd)) ''bsdiff'') (\<lambda>r w'. r = Inr (int (length nd)) \<and>
    frame {at env dst, at env (dst @ ''.part'')} w w' \<and> (\<exists>m. look w' (at env dst) = Some (FileNode m nd))) w"
proof -
  let ?tmp = "dst @ ''.part''"
  have ne: "at env ?tmp \<noteq> at env dst" "at env dst \<noteq> at env ?tmp" using dst(1) by (simp_all add: loc_of_suffix_eq_self)
  have up: "butlast (at env ?tmp) = butlast (at env dst)"
    using loc_of_named [OF dst(1)] loc_of_named_suffix [OF dst(1)] by simp
  have out: "Bytes env od pd = Inr nd" using r by (simp add: Bytes_def restores_def)
  show ?thesis
    unfolding Apply_def
  proof (simp, rule wp_attempt_asI [OF nf_read_file [OF nf f(1)]], simp, goal_cases)
    case (1 od' w1)
    then have w1: "same_files w w1" "od' = od" by simp_all
    have f1: "look w1 (at env p) = Some (FileNode m2 pd)" using f(2) w1 by (simp add: same_files_look [of w w1])
    show ?case
    proof (rule wp_attempt_asI [OF nf_read_file [OF nf f1]], simp, goal_cases)
      case (1 pd' w2)
      then have w2: "same_files w1 w2" "pd' = pd" by simp_all
      have d2: "look w2 l = look w l" for l using w1 w2 by (simp add: same_files_look [of w w1] same_files_look [of w1 w2])
      have written: "wp (write_result env dst nd) (\<lambda>r w'. r = Inr (int (length nd)) \<and>
        frame {at env dst, at env ?tmp} w2 w' \<and> (\<exists>m. look w' (at env dst) = Some (FileNode m nd))) w2"
        unfolding write_result_def Let_def
      proof (rule wp_attempt_asI [OF nf_write_file [OF nf]], goal_cases)
        case (4 u w3)
        then obtain m where w3: "frame {at env ?tmp} w2 w3" "look w3 (at env ?tmp) = Some (FileNode m nd)" by auto
        have keep: "look w3 l = look w l" if "l \<noteq> at env ?tmp" for l
          using w3(1) that d2 by (auto simp: frame_def)
        have pd: "butlast (at env dst) \<noteq> at env ?tmp" using dst(2,4) by auto
        show ?case
        proof (rule wp_bindI [OF nf_rename [OF nf w3(2)]], goal_cases)
          case (5 r w4)
          then show ?case using w3(1) by (auto simp: wp_ok frame_def)
        qed (use keep ne pd dst in auto)
      qed (use up d2 dst in auto)
      show ?case
        unfolding w1(2) w2(2) out sum.case
        by (subst if_not_P, simp, rule wp_mono [OF written]) (use d2 in \<open>auto simp: frame_def\<close>)
    qed
  qed
qed


subsection \<open>The command, and the client that applies its patch\<close>

text \<open>\<open>C40\<close>. The bsdiff command, whatever call fails: it ends with code 0 or 1, changes no file but the
  patch file, and after code 0 prints nothing and has left a patch that the decoder, given the old
  file as it was, turns into the new one.\<close>

theorem bsdiff_command:
  assumes "\<And>x z r. bz2 x = Inr z \<Longrightarrow> \<exists>t er. bz (z @ r) = (x @ t, er)"
    and "\<And>x e. bz2 x = Inl e \<Longrightarrow> \<not> is_panic e" and "fits_memory env old_p new_p w"
    and "run_state (bsdiff_main bz2 env [prog, old_p, new_p, patch_p]) w = (r, w')"
  shows "frame {at env patch_p} w w' \<and> command_outcome bz env old_p new_p patch_p w r w'"
proof -
  have "undoes bz bz2" using assms(1) by (auto simp: undoes_def)
  from wpD [OF wp_bsdiff_main [OF this assms(2,3)] assms(4)]
    keepsD [OF keeps_bsdiff_main assms(4)] show ?thesis by simp
qed

text \<open>\<open>C6\<close>. From the server to the client: when the bsdiff command has ended with code 0, a client
  that has the old file and the patch, and the hash of the new file, and on which nothing fails,
  gets exactly the new file from \<open>Apply\<close>, and changes no other file.\<close>

theorem patch_made_applies:
  assumes "\<And>x z r. bz2 x = Inr z \<Longrightarrow> \<exists>t er. e_bunzip2 cl (z @ r) = (x @ t, er)"
    and "\<And>x e. bz2 x = Inl e \<Longrightarrow> \<not> is_panic e" and "fits_memory srv old_p new_p w"
    and "run_state (bsdiff_main bz2 srv [prog, old_p, new_p, patch_p]) w = (Some (0, msg), w')"
    and "look w (at srv old_p) = Some (FileNode m1 od)" and "look w (at srv new_p) = Some (FileNode m2 nd)"
    and "look w' (at srv patch_p) = Some (FileNode m3 pd)" and "int (length pd) < 2 ^ 61"
    and "no_faults cl" and "look v (at cl blob) = Some (FileNode m4 od)" and "look v (at cl pt) = Some (FileNode m5 pd)"
    and "named dst" and "look v (butlast (at cl dst)) = Some DirNode" and "look v (at cl dst) \<noteq> Some DirNode"
    and "look v (at cl (dst @ ''.part'')) = None"
  shows "\<exists>v' m. run_state (Apply cl blob pt dst (hex_encode (e_sha256 cl nd)) ''bsdiff'') v =
      (Inr (int (length nd)), v') \<and>
    look v' (at cl dst) = Some (FileNode m nd) \<and> frame {at cl dst, at cl (dst @ ''.part'')} v v'"
proof -
  have "undoes (e_bunzip2 cl) bz2" using assms(1) by (auto simp: undoes_def)
  from wpD [OF wp_bsdiff_main [OF this assms(2,3)] assms(4)]
  have "restores (e_bunzip2 cl) od nd pd"
    using assms(5-7) by (auto simp: command_outcome_def file_made_def)
  from wp_Apply_restores [OF assms(9-11) this assms(8,12-15)] show ?thesis
    by (auto simp: wp_def split: prod.splits)
qed

text \<open>A machine with an old and a new file, and one that has the old file and the patch.\<close>

definition diff_world :: world where
  "diff_world = world_of [([''old''], FileNode 420 [10, 20, 30]), ([''new''], FileNode 420 [11, 20, 31, 7, 8])]"

definition diff_done :: world where
  "diff_done = \<lparr> w_tree = [([''old''], FileNode 420 [10, 20, 30]), ([''new''], FileNode 420 [11, 20, 31, 7, 8]),
     ([''p''], FileNode 420 demo_diff)], w_ops = 3, w_reqs = [] \<rparr>"

definition tag_client :: env where
  "tag_client = calm\<lparr>e_bunzip2 := tag_bunzip2\<rparr>"

definition client_world :: world where
  "client_world = world_of [([''blob''], FileNode 420 [10, 20, 30]), ([''pt''], FileNode 420 demo_diff)]"

lemma tag_client_fields [simp]:
  "e_cwd tag_client = []" "e_bunzip2 tag_client = tag_bunzip2" "e_sha256 tag_client = sample_hash"
  "no_faults tag_client" "e_fault calm = (\<lambda>_. None)"
  by (simp_all add: tag_client_def no_faults_def calm_def)

lemma demo_locs:
  "loc_of [] ''/old'' = [''old'']" "loc_of [] ''/new'' = [''new'']" "loc_of [] ''/p'' = [''p'']"
  "loc_of [] ''/blob'' = [''blob'']" "loc_of [] ''/pt'' = [''pt'']" "loc_of [] ''/dst'' = [''dst'']"
  "loc_of [] ''/dst.part'' = [''dst.part'']"
  by code_simp+

lemma diff_world_look:
  "look diff_world (at calm ''/old'') = Some (FileNode 420 [10, 20, 30])"
  "look diff_world (at calm ''/new'') = Some (FileNode 420 [11, 20, 31, 7, 8])"
  "look diff_done (at calm ''/p'') = Some (FileNode 420 demo_diff)"
  by (simp_all only: calm_cwd demo_locs) (simp_all add: diff_world_def diff_done_def look_def world_of_def node_at_def)

lemma diff_world_fits: "fits_memory calm ''/old'' ''/new'' diff_world"
  unfolding fits_memory_def diff_world_look by (simp add: max_alloc_def)

lemma diff_world_run:
  "run_state (bsdiff_main tag_bzip2 calm [''bsdiff'', ''/old'', ''/new'', ''/p'']) diff_world = (Some (0, []), diff_done)"
proof -
  have d: "diffb tag_bzip2 [10, 20, 30] [11, 20, 31, 7, 8] = Some (Inr demo_diff)"
    using demo_diff_made by (simp add: gives_def)
  have r: "run_state (os_read_file calm ''/old'') diff_world = (Inr [10, 20, 30], diff_world\<lparr>w_ops := Suc 0\<rparr>)"
    "run_state (os_read_file calm ''/new'') (diff_world\<lparr>w_ops := Suc 0\<rparr>) =
      (Inr [11, 20, 31, 7, 8], diff_world\<lparr>w_ops := 2\<rparr>)"
    "run_state (os_write_file calm ''/p'' demo_diff 420) (diff_world\<lparr>w_ops := 2\<rparr>) = (Inr (), diff_done)"
    unfolding os_read_file_def os_write_file_def run_state_fs_op calm_cwd demo_locs
    by (simp_all add: diff_world_def diff_done_def world_of_def t_read_file_def t_write_file_def
        open_mode_def node_at_def set_node_def)
  show ?thesis by (simp add: bsdiff_main_def File_def r d gives_def)
qed

theorem bsdiff_command_witness:
  "command_outcome tag_bunzip2 calm ''/old'' ''/new'' ''/p'' diff_world (Some (0, [])) diff_done \<and>
   look diff_done [''old''] = look diff_world [''old'']"
proof -
  have "frame {at calm ''/p''} diff_world diff_done \<and>
      command_outcome tag_bunzip2 calm ''/old'' ''/new'' ''/p'' diff_world (Some (0, [])) diff_done"
    by (rule bsdiff_command [OF _ _ diff_world_fits diff_world_run]) (use tag_codec in \<open>simp_all add: tag_total\<close>)
  then show ?thesis unfolding calm_cwd demo_locs by (simp add: frame_def)
qed

theorem patch_made_applies_witness:
  "\<exists>v' m. run_state (Apply tag_client ''/blob'' ''/pt'' ''/dst''
      (hex_encode (sample_hash [11, 20, 31, 7, 8])) ''bsdiff'') client_world = (Inr 5, v') \<and>
    look v' [''dst''] = Some (FileNode m [11, 20, 31, 7, 8])"
proof -
  have l: "look client_world [''blob''] = Some (FileNode 420 [10, 20, 30])"
    "look client_world [''pt''] = Some (FileNode 420 demo_diff)" "look client_world [] = Some DirNode"
    "look client_world [''dst''] = None" "look client_world [''dst.part''] = None"
    by (simp_all add: client_world_def look_def world_of_def node_at_def)
  have n: "named ''/dst''" and s: "int (length demo_diff) < 2 ^ 61" by code_simp+
  have "\<exists>v' m. run_state (Apply tag_client ''/blob'' ''/pt'' ''/dst''
      (hex_encode (e_sha256 tag_client [11, 20, 31, 7, 8])) ''bsdiff'') client_world =
      (Inr (int (length [11 :: byte, 20, 31, 7, 8])), v') \<and>
    look v' (at tag_client ''/dst'') = Some (FileNode m [11, 20, 31, 7, 8]) \<and>
    frame {at tag_client ''/dst'', at tag_client (''/dst'' @ ''.part'')} client_world v'"
    by (rule patch_made_applies [OF _ _ diff_world_fits diff_world_run diff_world_look s _ _ _ n])
      (use tag_codec in \<open>simp_all add: tag_total demo_locs l\<close>)
  then show ?thesis unfolding tag_client_fields demo_locs by auto
qed

end
