(* ===== verification/Spec2Isabelle.thy ===== *)
theory Spec2Isabelle
  imports Client_State Manifest Transport Patch Tarx Install_Examples Product_History Verify_Cmd Listing
    Agent_Examples Shared Bsdiff_Cmd
begin

text \<open>
  \<^bold>\<open>The client of Ogamita Delta OTA.\<close> Delta OTA keeps software products up to date on machines that
  may lose power or network at any moment. A server publishes signed releases; the client under
  \<^verbatim>\<open>src/client\<close> downloads a release whole or as a binary patch against the release it has, unpacks it
  beside the running one, and switches a link. These theories model that client, file by file, and
  prove what makes it safe to run: what is installed was signed and is complete, a failure or a power
  cut at any call leaves something that works, and no command touches what is not its own.

  \<^bold>\<open>Program and theories.\<close> In the order of the calls, from the bottom up:

  \<^item> \<open>Prelude\<close>: errors, state actions with early return, weakest preconditions (\<open>wp\<close>), relations every
    run respects (\<open>keeps\<close>, with the locale \<open>preorder_frame\<close>), encodings (the locale \<open>codec\<close>).
  \<^item> \<open>Go_Strings\<close>, \<open>Go_Path\<close>, \<open>Go_Float\<close>, \<open>Go_Flag\<close>, \<open>JSON\<close>, \<open>JSON_Decode\<close>: what the client uses of Go's
    standard library (strings, \<^verbatim>\<open>path/filepath\<close>, \<^verbatim>\<open>float64\<close>, \<^verbatim>\<open>flag\<close> and \<^verbatim>\<open>strconv\<close>, \<^verbatim>\<open>encoding/json\<close>).
  \<^item> \<open>World\<close>, \<open>OS\<close>, \<open>Samples\<close>: the world a command runs in (below) and concrete ones for the examples.
  \<^item> \<open>Platform\<close>: \<^verbatim>\<open>internal/platform\<close>, the link or shim \<^verbatim>\<open>current\<close> and the long paths of Windows.
  \<^item> \<open>Client_State\<close>: \<^verbatim>\<open>internal/state\<close>, the layout of a product, \<^verbatim>\<open>state.json\<close>, the flip of the links.
  \<^item> \<open>Manifest\<close>: \<^verbatim>\<open>internal/manifest\<close>, parsing and signature of release manifests.
  \<^item> \<open>Hashed_File\<close>, \<open>Transport\<close>: \<^verbatim>\<open>internal/transport\<close>, the endpoints of the server and the resumable
    download; the locale \<open>hashed_file\<close> is the contract of all that puts a file of known hash in place.
  \<^item> \<open>Bspatch\<close>, \<open>Patch\<close>: the vendored BSDIFF40 decoder and \<^verbatim>\<open>internal/patch\<close>, which applies a patch.
  \<^item> \<open>Go_Slices\<close>: runs over slices that may panic or not end (\<open>run\<close>, \<open>loop\<close>), and total correctness
    (\<open>returns\<close>, with the rule \<open>loop_returns\<close> for a loop with an invariant and a measure).
  \<^item> \<open>Suffix_Sort\<close>, \<open>Suffix_Order\<close>, \<open>Suffix_Split\<close>, \<open>Suffix_Passes\<close>, \<open>Suffix_Array\<close>: \<^verbatim>\<open>qsufsort\<close> and \<^verbatim>\<open>split\<close> of the
    vendored BSDIFF40 encoder; the invariants of its two arrays; that it sorts the suffixes.
  \<^item> \<open>Bsdiff\<close>, \<open>Bsdiff_Roundtrip\<close>, \<open>Bsdiff_Cmd\<close>: the encoder \<^verbatim>\<open>diffb\<close>, what it emits and that the decoder
    gets it back, and \<^verbatim>\<open>cmd/bsdiff\<close>, the command the server makes its patches with.
  \<^item> \<open>Tarx\<close>: \<^verbatim>\<open>internal/tarx\<close>, the extraction of an archive into one directory.
  \<^item> \<open>Libota\<close>, \<open>Install_Safety\<close>, \<open>Install_Examples\<close>: \<^verbatim>\<open>libota/libota.go\<close>, install, upgrade, revert,
    retention and the e-mail client, composed of all of the above; their outcomes; runs.
  \<^item> \<open>Product_History\<close>: an abstract machine over the record and the signed releases of a product, and any
    sequence of installs and reverts as a refinement of it.
  \<^item> \<open>Walk\<close>, \<open>Verify_Cmd\<close>: walks over directory trees (the locale \<open>walker\<close>) and \<^verbatim>\<open>internal/verify\<close>, the check
    of an installation against its signed manifest.
  \<^item> \<open>Listing\<close>: \<^verbatim>\<open>internal/listing\<close>, the rows of \<^verbatim>\<open>list\<close> and \<^verbatim>\<open>show\<close> and the choice of what to prune.
  \<^item> \<open>Agent\<close>, \<open>Agent_Safety\<close>, \<open>Agent_Examples\<close>: \<^verbatim>\<open>agent/main.go\<close>, the commands with their arguments, output
    and exit codes; what they may change; runs.
  \<^item> \<open>Shared\<close>: \<^verbatim>\<open>cmd/libota-shared/main.go\<close>, the C interface over the library.

  \<^bold>\<open>State.\<close> A \<open>world\<close> is a tree of files (a map from locations, lists of names, to directories, files
  and links), the number of file-system calls made and the list of requests sent. What the program does
  not choose is the \<open>env\<close>: which call fails and how far it got (\<open>e_fault\<close>), the server (\<open>e_http\<close>), the clock,
  the environment variables, and SHA-256, Ed25519, the bzip2 and the tar reader, which are
  parameters: every theorem holds for any of them. A power cut is a fault function that fails every
  call from some point on, so that a statement for all environments is one about all crash points.
  A Go record is a \<open>record\<close> with its fields, an error a value of \<open>goerr\<close>, a panic the error \<open>Panicked\<close>,
  which no handler catches; integers wrap at 64 bits where the code computes with them (\<open>wrap64\<close>),
  bytes are \<open>8 word\<close>.

  \<^bold>\<open>What is shown.\<close> The claims are numbered in the order of their importance; the number stands in the
  text before each.

  \<^item> \<^emph>\<open>Install and revert\<close> (\<open>Install_Safety\<close>): every run, whatever fails, ends with links and record as they
    were or with an authentic release completely unpacked and the links naming only it or what they
    named; the record is the old one after an error and the next one on success. An install needs for
    this that the version it comes to accept is one path component that does not end in \<^verbatim>\<open>.archived\<close>
    (\<open>offers_only\<close>): for a version asked for by name that is a matter of the name
    (\<open>offers_only_explicit\<close>), for the latest one of what this server can send past signature and gate. The rest of the core
    is the refinement of this: verified downloads and patches, extraction that stays inside, saves that
    are all or nothing, a flip that is never torn, and the record's invariant over all histories.
  \<^item> \<^emph>\<open>Histories\<close> (\<open>Product_History\<close>): sequences of installs and reverts, each with its own server, faults
    and crash point, refine a small machine whose steps ask for a signed release and the trust gate
    (under the same condition on each install, and with ASCII texts, as far as the JSON model goes); so
    the recorded versions are vouched for and the links name unpacked signed releases, always.
  \<^item> \<^emph>\<open>Patches, from end to end\<close> (\<open>Bsdiff_Roundtrip\<close>, \<open>Bsdiff_Cmd\<close>): the encoder ends without a panic and the
    decoder turns its patch and the old file into the new file; a patch the command has made is
    applied by the client. The suffix sorter under it ends with the suffixes in order; the encoder itself
    only needs that its entries are positions (the locale \<open>suffix_sorter\<close>).
  \<^item> \<^emph>\<open>Equivalences\<close>: the patch decoder computes the assembly its control data describes; the patch
    chosen and the distributions pruned are those a direct definition gives.
  \<^item> \<^emph>\<open>Round trips, types, bounds\<close>: the record survives saving and loading; parsed manifests are in
    range; the decoder's output and the resume point stay in their limits.
  \<^item> \<^emph>\<open>Checks\<close>: a verify report without a failed check implies what it checked, and looking changes nothing.
  \<^item> \<^emph>\<open>Termination and liveness\<close>: walks end within the height of the tree, and a resumed download
    completes against a server that serves the file.
  \<^item> \<^emph>\<open>Errors\<close>: where the code does not do what it is said to, the theorem states what it does, for all
    inputs of the kind, and its witness a case (a flip
    leaves a gap without a current link, a complete partial file is stuck, a negative control length
    panics, the retention and reinstall corner cases, swallowed arguments, silent configuration errors).

  \<^bold>\<open>Bounds and fuel.\<close> Recursions over data are structural or measured. Three have fuel: the JSON parser
  and the duration parser take the length of the input, of which every step consumes a part, and the
  walks over directories the height of the tree, for which \<open>walkDir_ends\<close> proves that more changes
  nothing. The loops of the encoder have no fuel: a loop that did not end would be \<open>None\<close>, and
  the theorems say that it is not. Its integers are unbounded, as they stay below four times the size of
  a file that fits in memory (\<open>max_alloc\<close>), which \<open>diffb_roundtrip\<close> asks for. \<^verbatim>\<open>watch\<close>, which runs until it is
  killed, takes the number of its ticks as an argument.

  \<^bold>\<open>Not modelled.\<close> The server and the administration tool (Common Lisp), which are the function
  \<open>e_http\<close>; the bzip2 package, which is a reader (\<open>e_bunzip2\<close>) and a writer (\<open>bz2\<close>) that are parameters, and the
  vendored module's own test commands; progress callbacks; timeouts and cancellation, which show as
  errors of \<open>e_http\<close>, and redirects, which are part of its answer (a request of the model is a call of \<^verbatim>\<open>http.Client.Do\<close>); the permissions of the file system beyond the mode a file is made with, and links to directories inside
  the client's tree, through which data operations fail here (the client makes none); the interleaving
  of two clients on one product, against which the code has no lock; usage texts of subcommands.
\<close>

end
